(* ===== verification/Prelude.thy ===== *)
theory Prelude
  imports Main "HOL-Library.Word"
begin

text \<open>
  Shared vocabulary of the development: the C integer types as machine words, the way a run of
  the emulator can stop on the host, the result type of every operation that can stop, the
  little-endian reading and writing of memory, and the generic lemmas on words and lists that the
  components share.  The collection \<open>bits\<close> holds the bit-by-bit descriptions of the bit-field
  operations, \<open>reg_simps\<close> the laws of the register file.
\<close>

unbundle bit_operations_syntax

named_theorems bits \<open>bit-by-bit descriptions of words\<close>
named_theorems reg_simps \<open>laws of the register file\<close>
named_theorems extract_defs \<open>the field extraction functions of the decoder\<close>
named_theorems trans_defs \<open>the functions that translate one instruction\<close>
named_theorems decode_oks \<open>what each translation function guarantees\<close>

section \<open>The C types\<close>

type_synonym u8 = "8 word"
type_synonym u16 = "16 word"
type_synonym u32 = "32 word"
type_synonym u64 = "64 word"

text \<open>A C \<open>int\<close> is the same 32 bits, read as two's complement where the code reads it so.\<close>

type_synonym c_int = "32 word"

section \<open>Stopping\<close>

text \<open>
  What ends the emulator's process.  \<open>Segv\<close> is an access to host memory that is not mapped with
  the permission it needs: \<open>Guest_access\<close> through a guest address, \<open>Insn_buffer\<close> past the end of the
  buffer of translated instructions, \<open>Null_call\<close> a call through a null handler.  \<open>Sigfpe\<close> is the
  signal a division that the host cannot do raises, \<open>Assert_failed\<close> a failing
  \<open>assert\<close>, and \<open>Exited\<close> an explicit \<open>exit\<close> with its status.
\<close>

datatype segv_cause = Guest_access | Insn_buffer | Null_call

datatype stop = Segv segv_cause | Sigfpe | Assert_failed | Exited c_int

type_synonym 'a result = "stop + 'a"

definition bind_result :: "'a result \<Rightarrow> ('a \<Rightarrow> 'b result) \<Rightarrow> 'b result" where
  "bind_result r f = (case r of Inl e \<Rightarrow> Inl e | Inr a \<Rightarrow> f a)"

definition of_access :: "'a option \<Rightarrow> 'a result" where
  "of_access r = (case r of None \<Rightarrow> Inl (Segv Guest_access) | Some a \<Rightarrow> Inr a)"

lemma bind_result_simps [simp]:
  "bind_result (Inl e) f = Inl e"
  "bind_result (Inr a) f = f a"
  by (simp_all add: bind_result_def)

lemma of_access_simps [simp]:
  "of_access None = Inl (Segv Guest_access)"
  "of_access (Some a) = Inr a"
  by (simp_all add: of_access_def)

lemma bind_result_Inr:
  "bind_result r f = Inr b \<longleftrightarrow> (\<exists>a. r = Inr a \<and> f a = Inr b)"
  by (cases r) simp_all

lemma of_access_Inr [simp]: "of_access r = Inr a \<longleftrightarrow> r = Some a"
  by (cases r) simp_all

lemma of_access_Inl: "of_access r = Inl e \<longleftrightarrow> r = None \<and> e = Segv Guest_access"
  by (cases r) auto

section \<open>Little-endian bytes\<close>

definition le_bytes :: "nat \<Rightarrow> u64 \<Rightarrow> u8 list" where
  "le_bytes n w = map (\<lambda>i. ucast (drop_bit (8 * i) w)) [0..<n]"

primrec le_word :: "u8 list \<Rightarrow> u64" where
  "le_word [] = 0"
| "le_word (b # bs) = ucast b OR push_bit 8 (le_word bs)"

lemma length_le_bytes [simp]: "length (le_bytes n w) = n"
  by (simp add: le_bytes_def)

lemma bit_le_word [bits]:
  "bit (le_word bs) n \<longleftrightarrow> n < 64 \<and> n div 8 < length bs \<and> bit (bs ! (n div 8)) (n mod 8)"
proof (induction bs arbitrary: n)
  case Nil
  then show ?case by simp
next
  case (Cons b bs)
  have step: "bit (le_word (b # bs)) n \<longleftrightarrow>
      n < 64 \<and> (bit b n \<or> 8 \<le> n \<and> bit (le_word bs) (n - 8))"
    by (auto simp: bit_or_iff bit_unsigned_iff bit_push_bit_iff)
  show ?case
  proof (cases "n < 8")
    case True
    then show ?thesis unfolding step by simp
  next
    case False
    then obtain k where n: "n = 8 + k" by (metis le_add_diff_inverse not_less)
    have d: "(8 + k) div 8 = Suc (k div 8)" and m: "(8 + k) mod 8 = k mod 8"
      by simp_all
    have "\<not> bit b (8 + k)"
      using bit_imp_le_length [of b "8 + k"] by auto
    then show ?thesis
      unfolding n d m step [unfolded n] by (auto simp: Cons.IH)
  qed
qed

lemma le_word_le_bytes: "le_word (le_bytes n w) = take_bit (8 * n) w"
proof (rule bit_word_eqI)
  fix k assume k: "k < LENGTH(64)"
  have lt: "k div 8 < n \<longleftrightarrow> k < 8 * n" by (simp add: div_less_iff_less_mult mult.commute)
  show "bit (le_word (le_bytes n w)) k = bit (take_bit (8 * n) w) k"
  proof (cases "k < 8 * n")
    case True
    then have "le_bytes n w ! (k div 8) = ucast (drop_bit (8 * (k div 8)) w)"
      using lt by (simp add: le_bytes_def)
    then show ?thesis
      using True k lt by (simp add: bit_le_word bit_take_bit_iff bit_unsigned_iff bit_drop_bit_eq)
  next
    case False
    then show ?thesis
      using k lt by (simp add: bit_le_word bit_take_bit_iff)
  qed
qed

section \<open>Words\<close>

lemma word_of_nat_less_2p:
  fixes x :: "'a::len word"
  assumes "x = of_nat i" and "i < n" and "n \<le> 2 ^ LENGTH('a)"
  shows "unat x = i"
  using assms by (simp add: unat_of_nat take_bit_nat_eq_self)

lemma unat_add_of_nat_diff:
  fixes a :: u64
  assumes "i < 2 ^ 64"
  shows "unat (a + of_nat i - a) = i"
  using assms by (simp add: unat_of_nat take_bit_nat_eq_self)

lemma unat_take_bit_less:
  fixes x :: "'a::len word"
  shows "unat (take_bit n x) < 2 ^ n"
  by (simp add: unsigned_take_bit_eq take_bit_nat_less_exp)

lemma word_less_bits:
  fixes x :: "'a::len word"
  assumes "\<And>k. bit x k \<Longrightarrow> k < n"
  shows "unat x < 2 ^ n"
proof -
  have "x = take_bit n x"
    by (rule bit_word_eqI) (auto simp: bit_take_bit_iff dest: assms)
  then show ?thesis by (metis unat_take_bit_less)
qed

end
