(* ===== verification/Bitops.thy ===== *)
theory Bitops
  imports Prelude
begin

text \<open>
  The bit operations and rounding macros of \<open>include/rvvk.h\<close>.  The \<open>assert\<close> of the bit-field functions bounds the
  field to the word; it is stated as \<open>field_ok\<close>, and every call in the decoders passes literals
  that satisfy it.  Shifts are written as the code writes them; \<open>extract32_take_bit\<close> and the
  \<open>bits\<close> lemmas give their meaning.
\<close>

section \<open>Bit fields\<close>

definition field_ok :: "nat \<Rightarrow> nat \<Rightarrow> bool" where
  "field_ok start len \<longleftrightarrow> 0 < len \<and> len + start \<le> 32"

definition extract32 :: "u32 \<Rightarrow> nat \<Rightarrow> nat \<Rightarrow> u32" where
  "extract32 v start len = drop_bit start v AND drop_bit (32 - len) (NOT 0)"

definition sextract32 :: "u32 \<Rightarrow> nat \<Rightarrow> nat \<Rightarrow> c_int" where
  "sextract32 v start len = signed_drop_bit (32 - len) (push_bit (32 - len - start) v)"

definition deposit32 :: "u32 \<Rightarrow> nat \<Rightarrow> nat \<Rightarrow> u32 \<Rightarrow> u32" where
  "deposit32 v start len fieldval =
     (let m = push_bit start (drop_bit (32 - len) (NOT 0))
      in (v AND NOT m) OR (push_bit start fieldval AND m))"

lemma bit_extract32 [bits]:
  "field_ok s l \<Longrightarrow> bit (extract32 v s l) n \<longleftrightarrow> n < l \<and> bit v (s + n)"
  by (auto simp: extract32_def field_ok_def bit_simps dest: bit_imp_le_length)

lemma bit_sextract32 [bits]:
  "field_ok s l \<Longrightarrow>
     bit (sextract32 v s l) n \<longleftrightarrow> n < 32 \<and> bit v (if n < l then n + s else l + s - 1)"
  by (auto simp: sextract32_def field_ok_def bit_simps min_def dest: bit_imp_le_length)

lemma bit_deposit32 [bits]:
  "field_ok s l \<Longrightarrow>
     bit (deposit32 v s l f) n \<longleftrightarrow> (if s \<le> n \<and> n < s + l then bit f (n - s) else bit v n)"
  by (auto simp: deposit32_def field_ok_def Let_def bit_simps dest: bit_imp_le_length)

lemma extract32_less:
  assumes "field_ok s l"
  shows "unat (extract32 v s l) < 2 ^ l"
  by (rule word_less_bits) (simp add: bit_extract32 [OF assms])

lemma extract32_take_bit:
  assumes "field_ok s l"
  shows "extract32 v s l = take_bit l (drop_bit s v)"
  by (rule bit_word_eqI) (simp add: bit_extract32 [OF assms] bit_take_bit_iff bit_drop_bit_eq)

section \<open>Rounding\<close>

definition ROUND_DOWN :: "u64 \<Rightarrow> u64 \<Rightarrow> u64" where
  "ROUND_DOWN n d = n AND - d"

definition ROUND_UP :: "u64 \<Rightarrow> u64 \<Rightarrow> u64" where
  "ROUND_UP n d = ROUND_DOWN (n + d - 1) d"

definition TARGET_PAGE_SIZE :: u64 where
  "TARGET_PAGE_SIZE = 4096"

definition TARGET_PAGE_ALIGN :: "u64 \<Rightarrow> u64" where
  "TARGET_PAGE_ALIGN addr = ROUND_UP addr TARGET_PAGE_SIZE"

lemma ROUND_DOWN_exp: "ROUND_DOWN n (2 ^ k) = n - take_bit k n"
proof -
  have "n AND - (2 ^ k) = n AND NOT (mask k)"
    by (simp add: minus_exp_eq_not_mask)
  also have "\<dots> = push_bit k (drop_bit k n)"
    by (rule bit_word_eqI) (auto simp: bit_simps)
  also have "\<dots> = n - take_bit k n"
    by (metis add_diff_cancel_right' bits_ident)
  finally show ?thesis by (simp add: ROUND_DOWN_def)
qed

lemma unat_ROUND_DOWN: "unat (ROUND_DOWN n (2 ^ k)) = unat n - unat n mod 2 ^ k"
proof -
  have t: "unat (take_bit k n) = unat n mod 2 ^ k"
    by (simp only: unsigned_take_bit_eq take_bit_nat_def)
  then have "take_bit k n \<le> n"
    by (simp add: word_le_nat_alt mod_less_eq_dividend)
  then show ?thesis
    by (simp add: ROUND_DOWN_exp unat_sub t)
qed

lemma unat_ROUND_UP:
  assumes "unat n + 2 ^ k \<le> 2 ^ 64"
  shows "unat (ROUND_UP n (2 ^ k)) = (unat n + 2 ^ k - 1) div 2 ^ k * 2 ^ k"
proof -
  have "n + 2 ^ k - 1 = of_nat (unat n + 2 ^ k - 1)"
    by (subst of_nat_diff) (auto intro: trans_le_add2)
  then have "unat (n + 2 ^ k - 1) = unat n + 2 ^ k - 1"
    using assms by (simp add: unat_of_nat take_bit_nat_eq_self)
  then show ?thesis
    by (simp add: ROUND_UP_def unat_ROUND_DOWN minus_mod_eq_div_mult)
qed

text \<open>Rounding up gives the least multiple of the unit that is not below the argument.\<close>

lemma round_up_bounds:
  fixes n d :: nat
  assumes "0 < d"
  shows "n \<le> (n + d - 1) div d * d" and "(n + d - 1) div d * d < n + d"
proof -
  have "(n + d - 1) div d * d + (n + d - 1) mod d = n + d - 1" by simp
  moreover have "(n + d - 1) mod d < d" using assms by simp
  ultimately show "n \<le> (n + d - 1) div d * d" "(n + d - 1) div d * d < n + d"
    using assms by linarith+
qed

end
