(* ===== verification/Guest_Memory.thy ===== *)
theory Guest_Memory
  imports Bitops
begin

text \<open>
  Guest memory, as \<open>mmap.c\<close> and the inline functions of \<open>include/rvvk.h\<close> access it.  The guest's address
  space is a window of the emulator's own address space that starts at \<open>guest_base\<close>: \<open>g2h\<close> and \<open>h2g\<close>
  convert addresses, and a guest load or store is a plain host access, so an access to a page
  that is not mapped with the permission it needs ends the emulator with a segmentation fault.
  The locale \<open>byte_memory\<close> states what the rest of the emulator relies on; \<open>host_mem\<close> provides it.
\<close>

section \<open>Host memory\<close>

record host_mem =
  hbytes :: "u64 \<Rightarrow> u8"
  hread :: "u64 \<Rightarrow> bool"
  hwrite :: "u64 \<Rightarrow> bool"

definition in_range :: "u64 \<Rightarrow> nat \<Rightarrow> u64 \<Rightarrow> bool" where
  "in_range a n x \<longleftrightarrow> unat (x - a) < n"

definition load_bytes :: "host_mem \<Rightarrow> u64 \<Rightarrow> nat \<Rightarrow> u8 list option" where
  "load_bytes m a n =
     (if list_all (\<lambda>i. hread m (a + of_nat i)) [0..<n]
      then Some (map (\<lambda>i. hbytes m (a + of_nat i)) [0..<n]) else None)"

definition store_bytes :: "host_mem \<Rightarrow> u64 \<Rightarrow> u8 list \<Rightarrow> host_mem option" where
  "store_bytes m a bs =
     (if list_all (\<lambda>i. hwrite m (a + of_nat i)) [0..<length bs]
      then Some (m\<lparr>hbytes := \<lambda>x. if in_range a (length bs) x then bs ! unat (x - a) else hbytes m x\<rparr>)
      else None)"

section \<open>What a byte memory promises\<close>

text \<open>
  The contract between the memory and its clients: loads return what was stored, an access to
  other bytes is not affected, and a store touches only bytes that may be written and changes no
  permission.
\<close>

locale byte_memory =
  fixes ld :: "'m \<Rightarrow> u64 \<Rightarrow> nat \<Rightarrow> u8 list option"
    and st :: "'m \<Rightarrow> u64 \<Rightarrow> u8 list \<Rightarrow> 'm option"
    and rdable :: "'m \<Rightarrow> u64 \<Rightarrow> bool"
    and wrable :: "'m \<Rightarrow> u64 \<Rightarrow> bool"
  assumes ld_some: "ld m a n \<noteq> None \<longleftrightarrow> (\<forall>i<n. rdable m (a + of_nat i))"
    and ld_length: "ld m a n = Some bs \<Longrightarrow> length bs = n"
    and st_some: "st m a bs \<noteq> None \<longleftrightarrow> (\<forall>i<length bs. wrable m (a + of_nat i))"
    and ld_st_same: "st m a bs = Some m' \<Longrightarrow> length bs \<le> 2 ^ 64 \<Longrightarrow>
          (\<forall>i<length bs. rdable m (a + of_nat i)) \<Longrightarrow> ld m' a (length bs) = Some bs"
    and ld_st_other: "st m a bs = Some m' \<Longrightarrow>
          (\<forall>i<n. \<not> in_range a (length bs) (b + of_nat i)) \<Longrightarrow> ld m' b n = ld m b n"
    and st_rdable: "st m a bs = Some m' \<Longrightarrow> rdable m' = rdable m"
    and st_wrable: "st m a bs = Some m' \<Longrightarrow> wrable m' = wrable m"
begin

lemma st_in_range_wrable:
  assumes "st m a bs = Some m'" and "in_range a (length bs) x"
  shows "wrable m x"
proof -
  have "x = a + of_nat (unat (x - a))" by simp
  with assms st_some [of m a bs] show ?thesis
    unfolding in_range_def by (metis option.distinct(1))
qed

text \<open>Bytes that may not be written read the same after any store.\<close>

lemma ld_read_only:
  assumes "st m a bs = Some m'" and "\<forall>i<n. \<not> wrable m (b + of_nat i)"
  shows "ld m' b n = ld m b n"
  using assms by (intro ld_st_other [OF assms(1)]) (blast dest: st_in_range_wrable)

text \<open>The same for a whole sequence of stores.\<close>

lemma ld_read_only_run:
  assumes "\<And>m m'. step m m' \<Longrightarrow> m' = m \<or> (\<exists>a bs. st m a bs = Some m')"
    and "step\<^sup>*\<^sup>* m m'" and "\<forall>i<n. \<not> wrable m (b + of_nat i)"
  shows "ld m' b n = ld m b n \<and> wrable m' = wrable m \<and> rdable m' = rdable m"
  using assms(2)
proof (induction rule: rtranclp_induct)
  case base
  then show ?case by simp
next
  case (step m1 m2)
  then have eq: "ld m1 b n = ld m b n" "wrable m1 = wrable m" "rdable m1 = rdable m" by auto
  from assms(1) [OF step.hyps(2)] show ?case
  proof
    assume "m2 = m1" with eq show ?thesis by simp
  next
    assume "\<exists>a bs. st m1 a bs = Some m2"
    then obtain a bs where "st m1 a bs = Some m2" by blast
    with eq assms(3) show ?thesis
      by (simp add: ld_read_only st_wrable st_rdable)
  qed
qed

end

lemma list_all_upt: "list_all P [0..<n] \<longleftrightarrow> (\<forall>i<n. P i)"
  by (auto simp: list_all_iff)

lemma store_bytes_Some:
  "store_bytes m a bs = Some m' \<longleftrightarrow>
     (\<forall>i<length bs. hwrite m (a + of_nat i)) \<and>
     m' = m\<lparr>hbytes := \<lambda>x. if in_range a (length bs) x then bs ! unat (x - a) else hbytes m x\<rparr>"
  by (auto simp: store_bytes_def list_all_upt)

lemma load_bytes_Some:
  "load_bytes m a n = Some bs \<longleftrightarrow>
     (\<forall>i<n. hread m (a + of_nat i)) \<and> bs = map (\<lambda>i. hbytes m (a + of_nat i)) [0..<n]"
  by (auto simp: load_bytes_def list_all_upt)

interpretation hmem: byte_memory load_bytes store_bytes hread hwrite
proof unfold_locales
  fix m :: host_mem and a n
  show "load_bytes m a n \<noteq> None \<longleftrightarrow> (\<forall>i<n. hread m (a + of_nat i))"
    by (auto simp: load_bytes_def list_all_upt)
next
  fix m :: host_mem and a n bs
  assume "load_bytes m a n = Some bs"
  then show "length bs = n" by (simp add: load_bytes_Some)
next
  fix m :: host_mem and a bs
  show "store_bytes m a bs \<noteq> None \<longleftrightarrow> (\<forall>i<length bs. hwrite m (a + of_nat i))"
    by (auto simp: store_bytes_def list_all_upt)
next
  fix m m' :: host_mem and a bs
  assume "store_bytes m a bs = Some m'" "length bs \<le> 2 ^ 64"
    and "\<forall>i<length bs. hread m (a + of_nat i)"
  moreover from this(2) have "\<And>i. i < length bs \<Longrightarrow> unat (of_nat i :: u64) = i"
    by (simp add: unat_of_nat take_bit_nat_eq_self)
  ultimately show "load_bytes m' a (length bs) = Some bs"
    by (auto simp: store_bytes_Some load_bytes_Some in_range_def intro!: nth_equalityI)
next
  fix m m' :: host_mem and a bs b and n :: nat
  assume "store_bytes m a bs = Some m'" "\<forall>i<n. \<not> in_range a (length bs) (b + of_nat i)"
  then show "load_bytes m' b n = load_bytes m b n"
    by (auto simp: store_bytes_Some load_bytes_def)
qed (auto simp: store_bytes_Some)

section \<open>Addresses\<close>

definition g2h :: "u64 \<Rightarrow> u64 \<Rightarrow> u64" where
  "g2h guest_base x = x + guest_base"

definition h2g :: "u64 \<Rightarrow> u64 \<Rightarrow> u64" where
  "h2g guest_base x = x - guest_base"

lemma h2g_g2h [simp]: "h2g gb (g2h gb x) = x"
  by (simp add: h2g_def g2h_def)

lemma g2h_h2g [simp]: "g2h gb (h2g gb x) = x"
  by (simp add: h2g_def g2h_def)

section \<open>Guest loads and stores\<close>

definition host_load :: "host_mem \<Rightarrow> u64 \<Rightarrow> nat \<Rightarrow> u64 option" where
  "host_load m a n = map_option le_word (load_bytes m a n)"

definition host_store :: "host_mem \<Rightarrow> u64 \<Rightarrow> nat \<Rightarrow> u64 \<Rightarrow> host_mem option" where
  "host_store m a n v = store_bytes m a (le_bytes n v)"

definition cpu_ldud :: "host_mem \<Rightarrow> u64 \<Rightarrow> u64 \<Rightarrow> u64 \<Rightarrow> u64 option" where
  "cpu_ldud m gb addr offset = host_load m (g2h gb (addr + offset)) 8"

definition cpu_lduw :: "host_mem \<Rightarrow> u64 \<Rightarrow> u64 \<Rightarrow> u64 \<Rightarrow> u32 option" where
  "cpu_lduw m gb addr offset = map_option ucast (host_load m (g2h gb (addr + offset)) 4)"

definition cpu_lduh :: "host_mem \<Rightarrow> u64 \<Rightarrow> u64 \<Rightarrow> u64 \<Rightarrow> u16 option" where
  "cpu_lduh m gb addr offset = map_option ucast (host_load m (g2h gb (addr + offset)) 2)"

definition cpu_ldub :: "host_mem \<Rightarrow> u64 \<Rightarrow> u64 \<Rightarrow> u64 \<Rightarrow> u8 option" where
  "cpu_ldub m gb addr offset = map_option ucast (host_load m (g2h gb (addr + offset)) 1)"

definition cpu_stud :: "host_mem \<Rightarrow> u64 \<Rightarrow> u64 \<Rightarrow> u64 \<Rightarrow> u64 \<Rightarrow> host_mem option" where
  "cpu_stud m gb addr offset v = host_store m (g2h gb (addr + offset)) 8 v"

definition cpu_stuw :: "host_mem \<Rightarrow> u64 \<Rightarrow> u64 \<Rightarrow> u64 \<Rightarrow> u32 \<Rightarrow> host_mem option" where
  "cpu_stuw m gb addr offset v = host_store m (g2h gb (addr + offset)) 4 (ucast v)"

definition cpu_stuh :: "host_mem \<Rightarrow> u64 \<Rightarrow> u64 \<Rightarrow> u64 \<Rightarrow> u16 \<Rightarrow> host_mem option" where
  "cpu_stuh m gb addr offset v = host_store m (g2h gb (addr + offset)) 2 (ucast v)"

definition cpu_stub :: "host_mem \<Rightarrow> u64 \<Rightarrow> u64 \<Rightarrow> u64 \<Rightarrow> u8 \<Rightarrow> host_mem option" where
  "cpu_stub m gb addr offset v = host_store m (g2h gb (addr + offset)) 1 (ucast v)"

lemmas cpu_ld_defs = cpu_ldud_def cpu_lduw_def cpu_lduh_def cpu_ldub_def
lemmas cpu_st_defs = cpu_stud_def cpu_stuw_def cpu_stuh_def cpu_stub_def

text \<open>A load of the width of a store returns the value stored, cut to that width.\<close>

lemma host_load_store_same:
  assumes "host_store m a n v = Some m'" and "n \<le> 8" and "\<forall>i<n. hread m (a + of_nat i)"
  shows "host_load m' a n = Some (take_bit (8 * n) v)"
  using assms hmem.ld_st_same [of m a "le_bytes n v" m']
  by (simp add: host_store_def host_load_def le_word_le_bytes)

lemma host_store_perm:
  assumes "host_store m a n v = Some m'"
  shows "hread m' = hread m" and "hwrite m' = hwrite m"
  using assms by (auto simp: host_store_def dest: hmem.st_rdable hmem.st_wrable)

lemma host_store_read_only:
  assumes "host_store m a n v = Some m'" and "\<not> hwrite m x"
  shows "hbytes m' x = hbytes m x"
  using assms hmem.st_in_range_wrable [of m a "le_bytes n v" m' x]
  by (auto simp: host_store_def store_bytes_Some)

section \<open>Atomic read-modify-write\<close>

text \<open>
  The \<open>atomic_*\<close> macros on a pointer to a 32- or 64-bit object: the old value is returned, the new
  one is stored; the bytes must be readable and writable.
\<close>

definition atomic_rmw :: "host_mem \<Rightarrow> u64 \<Rightarrow> nat \<Rightarrow> (u64 \<Rightarrow> u64) \<Rightarrow> (u64 \<times> host_mem) option" where
  "atomic_rmw m p n f =
     (case host_load m p n of None \<Rightarrow> None
      | Some old \<Rightarrow> (case host_store m p n (f old) of None \<Rightarrow> None | Some m' \<Rightarrow> Some (old, m')))"

definition atomic_xchg :: "host_mem \<Rightarrow> u64 \<Rightarrow> nat \<Rightarrow> u64 \<Rightarrow> (u64 \<times> host_mem) option" where
  "atomic_xchg m p n i = atomic_rmw m p n (\<lambda>_. i)"

definition atomic_add :: "host_mem \<Rightarrow> u64 \<Rightarrow> nat \<Rightarrow> u64 \<Rightarrow> (u64 \<times> host_mem) option" where
  "atomic_add m p n i = atomic_rmw m p n (\<lambda>old. old + i)"

definition atomic_and :: "host_mem \<Rightarrow> u64 \<Rightarrow> nat \<Rightarrow> u64 \<Rightarrow> (u64 \<times> host_mem) option" where
  "atomic_and m p n i = atomic_rmw m p n (\<lambda>old. old AND i)"

definition atomic_or :: "host_mem \<Rightarrow> u64 \<Rightarrow> nat \<Rightarrow> u64 \<Rightarrow> (u64 \<times> host_mem) option" where
  "atomic_or m p n i = atomic_rmw m p n (\<lambda>old. old OR i)"

definition atomic_xor :: "host_mem \<Rightarrow> u64 \<Rightarrow> nat \<Rightarrow> u64 \<Rightarrow> (u64 \<times> host_mem) option" where
  "atomic_xor m p n i = atomic_rmw m p n (\<lambda>old. old XOR i)"

lemmas atomic_defs = atomic_xchg_def atomic_add_def atomic_and_def atomic_or_def atomic_xor_def

lemma atomic_rmw_Some:
  "atomic_rmw m p n f = Some (old, m') \<longleftrightarrow>
     host_load m p n = Some old \<and> host_store m p n (f old) = Some m'"
  by (auto simp: atomic_rmw_def split: option.splits)

end
