(* ===== verification/Cpu_State.thy ===== *)
theory Cpu_State
  imports Guest_Memory
begin

text \<open>
  The data of \<open>include/arch/riscv/cpu.h\<close>: the guest CPU \<open>state_t\<close>, the exception numbers, the decoded
  instruction \<open>insn_t\<close> with its handler, and the register-file access the handlers share.

  A handler is a function pointer in the code.  Every pointer the decoder stores is one of the
  \<open>do_*\<close> functions, so a pointer is modelled by the name of its target: one constructor per \<open>do_*\<close>
  function, grouped by the format the decoder gives it, and \<open>Null_handler\<close> for the zero bytes of a
  fresh instruction buffer.  The registers are the C array \<open>gpr[32]\<close>, a list of length 32; an index
  past the end would be undefined behaviour, and \<open>Cpu_Run\<close> and \<open>Translate\<close> show that none occurs.
\<close>

section \<open>Exceptions\<close>

datatype excp =
    EXCP_NONE | INST_ADDR_MIS | INST_ACCESS_FAULT | ILLEGAL_INST | BREAKPOINT
  | LOAD_ADDR_MIS | LOAD_ACCESS_FAULT | STORE_AMO_ADDR_MIS | STORE_AMO_ACCESS_FAULT
  | U_ECALL | S_ECALL | VS_ECALL | M_ECALL
  | INST_PAGE_FAULT | LOAD_PAGE_FAULT | STORE_PAGE_FAULT | SEMIHOST
  | INST_GUEST_PAGE_FAULT | LOAD_GUEST_ACCESS_FAULT | VIRT_INSTRUCTION_FAULT
  | STORE_GUEST_AMO_ACCESS_FAULT

fun excp_code :: "excp \<Rightarrow> int" where
  "excp_code EXCP_NONE = -1"
| "excp_code INST_ADDR_MIS = 0x0"
| "excp_code INST_ACCESS_FAULT = 0x1"
| "excp_code ILLEGAL_INST = 0x2"
| "excp_code BREAKPOINT = 0x3"
| "excp_code LOAD_ADDR_MIS = 0x4"
| "excp_code LOAD_ACCESS_FAULT = 0x5"
| "excp_code STORE_AMO_ADDR_MIS = 0x6"
| "excp_code STORE_AMO_ACCESS_FAULT = 0x7"
| "excp_code U_ECALL = 0x8"
| "excp_code S_ECALL = 0x9"
| "excp_code VS_ECALL = 0xa"
| "excp_code M_ECALL = 0xb"
| "excp_code INST_PAGE_FAULT = 0xc"
| "excp_code LOAD_PAGE_FAULT = 0xd"
| "excp_code STORE_PAGE_FAULT = 0xf"
| "excp_code SEMIHOST = 0x10"
| "excp_code INST_GUEST_PAGE_FAULT = 0x14"
| "excp_code LOAD_GUEST_ACCESS_FAULT = 0x15"
| "excp_code VIRT_INSTRUCTION_FAULT = 0x16"
| "excp_code STORE_GUEST_AMO_ACCESS_FAULT = 0x17"

lemma excp_code_inject: "excp_code a = excp_code b \<longleftrightarrow> a = b"
  by (cases a; cases b; simp)

text \<open>Exceptions are ordered by their number, as the C enumeration is.\<close>

instantiation excp :: linorder
begin

definition less_eq_excp :: "excp \<Rightarrow> excp \<Rightarrow> bool" where
  "less_eq_excp a b \<longleftrightarrow> excp_code a \<le> excp_code b"

definition less_excp :: "excp \<Rightarrow> excp \<Rightarrow> bool" where
  "less_excp a b \<longleftrightarrow> excp_code a < excp_code b"

instance
  by standard (auto simp: less_eq_excp_def less_excp_def excp_code_inject)

end

section \<open>The CPU state\<close>

record state_t =
  gpr :: "u64 list"
  env_pc :: u64
  fflags :: u64
  frm :: u64
  fcsr :: u64
  vstart :: u64
  vxsat :: u64
  vxrm :: u64
  vcsr :: u64
  vl :: u64
  vtype :: u64
  vlenb :: u64
  jvt :: u64
  env_exception :: excp

abbreviation (input) xRA :: nat where "xRA \<equiv> 1"
abbreviation (input) xSP :: nat where "xSP \<equiv> 2"
abbreviation (input) xA0 :: nat where "xA0 \<equiv> 10"
abbreviation (input) xA1 :: nat where "xA1 \<equiv> 11"
abbreviation (input) xA2 :: nat where "xA2 \<equiv> 12"
abbreviation (input) xA3 :: nat where "xA3 \<equiv> 13"
abbreviation (input) xA4 :: nat where "xA4 \<equiv> 14"
abbreviation (input) xA5 :: nat where "xA5 \<equiv> 15"
abbreviation (input) xA7 :: nat where "xA7 \<equiv> 17"

text \<open>\<open>memset\<close> to zero, as \<open>main\<close> does before loading.\<close>

definition zero_env :: state_t where
  "zero_env = \<lparr>gpr = replicate 32 0, env_pc = 0, fflags = 0, frm = 0, fcsr = 0, vstart = 0,
     vxsat = 0, vxrm = 0, vcsr = 0, vl = 0, vtype = 0, vlenb = 0, jvt = 0,
     env_exception = INST_ADDR_MIS\<rparr>"

text \<open>What the emulator runs on: the CPU state, the memory and the base of the guest window.\<close>

record machine =
  env :: state_t
  mem :: host_mem
  guest_base :: u64

section \<open>Instructions\<close>

datatype jump_handler = Do_jal | Do_jalr | Do_c_jal | Do_c_jalr

datatype r_handler =
    Do_add | Do_sub | Do_sll | Do_slt | Do_sltu | Do_xor | Do_srl | Do_sra | Do_or | Do_and
  | Do_addw | Do_subw | Do_sllw | Do_srlw | Do_sraw
  | Do_mul | Do_mulh | Do_mulhsu | Do_mulhu | Do_div | Do_divu | Do_rem | Do_remu
  | Do_mulw | Do_divw | Do_divuw | Do_remw | Do_remuw

datatype i_handler =
    Do_lb | Do_lh | Do_lw | Do_ld | Do_lbu | Do_lhu | Do_lwu
  | Do_addi | Do_slti | Do_sltiu | Do_xori | Do_ori | Do_andi
  | Do_slli | Do_srli | Do_srai
  | Do_addiw | Do_slliw | Do_srliw | Do_sraiw

datatype s_handler = Do_sb | Do_sh | Do_sw | Do_sd

datatype b_handler = Do_beq | Do_bne | Do_blt | Do_bge | Do_bltu | Do_bgeu | Do_c_beq | Do_c_bne

datatype csr_handler = Do_csrrw | Do_csrrs | Do_csrrc | Do_csrrwi | Do_csrrsi | Do_csrrci

datatype atom_handler =
    Do_lr_w | Do_sc_w | Do_amoadd_w | Do_amoswap_w | Do_amoxor_w | Do_amoor_w | Do_amoand_w
  | Do_amomin_w | Do_amomax_w | Do_amominu_w | Do_amomaxu_w
  | Do_lr_d | Do_sc_d | Do_amoadd_d | Do_amoswap_d | Do_amoxor_d | Do_amoor_d | Do_amoand_d
  | Do_amomin_d | Do_amomax_d | Do_amominu_d | Do_amomaxu_d

datatype handler =
    Null_handler
  | Do_empty | Do_illegal | Do_ecall | Do_auipc | Do_lui
  | H_jump jump_handler | H_r r_handler | H_i i_handler | H_s s_handler | H_b b_handler
  | H_csr csr_handler | H_atom atom_handler

text \<open>\<open>imm\<close> and \<open>csr\<close> share their storage in the code (a union of two \<open>int\<close>s): one field.\<close>

record insn_t =
  rs1 :: c_int
  rs2 :: c_int
  rd :: c_int
  imm :: c_int
  insn_pc :: u64
  insn_handler :: handler

definition zero_insn :: insn_t where
  "zero_insn = \<lparr>rs1 = 0, rs2 = 0, rd = 0, imm = 0, insn_pc = 0, insn_handler = Null_handler\<rparr>"

abbreviation (input) csr :: "insn_t \<Rightarrow> c_int" where "csr i \<equiv> imm i"

text \<open>\<open>(target_long) insn->imm\<close>.\<close>

definition simm :: "insn_t \<Rightarrow> u64" where
  "simm i = scast (imm i)"

text \<open>The three register fields index the register file.\<close>

definition regs_ok :: "insn_t \<Rightarrow> bool" where
  "regs_ok i \<longleftrightarrow> unat (rs1 i) < 32 \<and> unat (rs2 i) < 32 \<and> unat (rd i) < 32"

section \<open>The register file\<close>

definition reg :: "state_t \<Rightarrow> c_int \<Rightarrow> u64" where
  "reg e r = gpr e ! unat r"

definition set_reg :: "c_int \<Rightarrow> u64 \<Rightarrow> state_t \<Rightarrow> state_t" where
  "set_reg r v e = e\<lparr>gpr := (gpr e)[unat r := v]\<rparr>"

definition set_pc :: "u64 \<Rightarrow> state_t \<Rightarrow> state_t" where
  "set_pc v e = e\<lparr>env_pc := v\<rparr>"

lemma set_reg_other [reg_simps]:
  "env_pc (set_reg r v e) = env_pc e"
  "env_exception (set_reg r v e) = env_exception e"
  "length (gpr (set_reg r v e)) = length (gpr e)"
  by (simp_all add: set_reg_def)

lemma set_pc_other [reg_simps]:
  "env_pc (set_pc p e) = p"
  "env_exception (set_pc p e) = env_exception e"
  "gpr (set_pc p e) = gpr e"
  "reg (set_pc p e) r = reg e r"
  by (simp_all add: set_pc_def reg_def)

lemma reg_set_reg [reg_simps]:
  "unat r < length (gpr e) \<Longrightarrow> reg (set_reg r v e) r' = (if r' = r then v else reg e r')"
  by (auto simp: reg_def set_reg_def nth_list_update word_unat_eq_iff)

lemma gpr_0_set_reg [reg_simps]:
  "r \<noteq> 0 \<Longrightarrow> gpr (set_reg r v e) ! 0 = gpr e ! 0"
  by (simp add: set_reg_def unat_eq_0)

end
