(* ===== verification/Cpu_Int.thy ===== *)
theory Cpu_Int
  imports Cpu_State
begin

text \<open>
  The integer instructions of \<open>arch/riscv/cpu.c\<close> (RV32I and RV64I): one definition per \<open>do_*\<close> function.
  Handlers that only touch the CPU state map \<open>state_t\<close> to \<open>state_t\<close>; loads and stores go through the
  guest memory and can stop.  The second half states what the RISC-V specification asks of each
  instruction, over the integers, and shows how the code relates to it.
\<close>

section \<open>Traps and upper immediates\<close>

definition do_empty :: "insn_t \<Rightarrow> state_t \<Rightarrow> state_t" where
  "do_empty i e = e"

definition do_illegal :: "insn_t \<Rightarrow> state_t \<Rightarrow> state_t" where
  "do_illegal i e = e\<lparr>env_exception := ILLEGAL_INST, env_pc := insn_pc i\<rparr>"

definition do_ecall :: "insn_t \<Rightarrow> state_t \<Rightarrow> state_t" where
  "do_ecall i e = e\<lparr>env_exception := U_ECALL, env_pc := insn_pc i\<rparr>"

definition do_auipc :: "insn_t \<Rightarrow> state_t \<Rightarrow> state_t" where
  "do_auipc i e = set_reg (rd i) (insn_pc i + simm i) e"

definition do_lui :: "insn_t \<Rightarrow> state_t \<Rightarrow> state_t" where
  "do_lui i e = set_reg (rd i) (simm i) e"

section \<open>Jumps\<close>

definition do_jal :: "insn_t \<Rightarrow> state_t \<Rightarrow> state_t" where
  "do_jal i e =
     (let e = (if rd i \<noteq> 0 then set_reg (rd i) (insn_pc i + 4) e else e)
      in set_pc (insn_pc i + simm i) e)"

definition do_jalr :: "insn_t \<Rightarrow> state_t \<Rightarrow> state_t" where
  "do_jalr i e =
     (let e = (if rd i \<noteq> 0 then set_reg (rd i) (insn_pc i + 4) e else e)
      in set_pc ((reg e (rs1 i) + simm i) AND - 2) e)"

definition do_c_jal :: "insn_t \<Rightarrow> state_t \<Rightarrow> state_t" where
  "do_c_jal i e =
     (let e = (if rd i \<noteq> 0 then set_reg (rd i) (insn_pc i + 2) e else e)
      in set_pc (insn_pc i + simm i) e)"

definition do_c_jalr :: "insn_t \<Rightarrow> state_t \<Rightarrow> state_t" where
  "do_c_jalr i e =
     (let e = (if rd i \<noteq> 0 then set_reg (rd i) (insn_pc i + 2) e else e)
      in set_pc ((reg e (rs1 i) + simm i) AND - 2) e)"

section \<open>Register-register operations\<close>

definition do_add :: "insn_t \<Rightarrow> state_t \<Rightarrow> state_t" where
  "do_add i e = set_reg (rd i) (reg e (rs1 i) + reg e (rs2 i)) e"

definition do_sub :: "insn_t \<Rightarrow> state_t \<Rightarrow> state_t" where
  "do_sub i e = set_reg (rd i) (reg e (rs1 i) - reg e (rs2 i)) e"

definition do_sll :: "insn_t \<Rightarrow> state_t \<Rightarrow> state_t" where
  "do_sll i e =
     (let shift = unat (reg e (rs2 i) AND 63)
      in set_reg (rd i) (push_bit shift (reg e (rs1 i))) e)"

definition do_slt :: "insn_t \<Rightarrow> state_t \<Rightarrow> state_t" where
  "do_slt i e = set_reg (rd i) (if reg e (rs1 i) <s reg e (rs2 i) then 1 else 0) e"

definition do_sltu :: "insn_t \<Rightarrow> state_t \<Rightarrow> state_t" where
  "do_sltu i e = set_reg (rd i) (if reg e (rs1 i) < reg e (rs2 i) then 1 else 0) e"

definition do_xor :: "insn_t \<Rightarrow> state_t \<Rightarrow> state_t" where
  "do_xor i e = set_reg (rd i) (reg e (rs1 i) XOR reg e (rs2 i)) e"

definition do_srl :: "insn_t \<Rightarrow> state_t \<Rightarrow> state_t" where
  "do_srl i e =
     (let shift = unat (reg e (rs2 i) AND 63)
      in set_reg (rd i) (drop_bit shift (reg e (rs1 i))) e)"

definition do_sra :: "insn_t \<Rightarrow> state_t \<Rightarrow> state_t" where
  "do_sra i e =
     (let shift = unat (reg e (rs2 i) AND 63)
      in set_reg (rd i) (signed_drop_bit shift (reg e (rs1 i))) e)"

definition do_or :: "insn_t \<Rightarrow> state_t \<Rightarrow> state_t" where
  "do_or i e = set_reg (rd i) (reg e (rs1 i) OR reg e (rs2 i)) e"

definition do_and :: "insn_t \<Rightarrow> state_t \<Rightarrow> state_t" where
  "do_and i e = set_reg (rd i) (reg e (rs1 i) AND reg e (rs2 i)) e"

section \<open>Branches\<close>

definition do_beq :: "insn_t \<Rightarrow> state_t \<Rightarrow> state_t" where
  "do_beq i e = set_pc (insn_pc i + (if reg e (rs1 i) = reg e (rs2 i) then simm i else 4)) e"

definition do_bne :: "insn_t \<Rightarrow> state_t \<Rightarrow> state_t" where
  "do_bne i e = set_pc (insn_pc i + (if reg e (rs1 i) \<noteq> reg e (rs2 i) then simm i else 4)) e"

definition do_blt :: "insn_t \<Rightarrow> state_t \<Rightarrow> state_t" where
  "do_blt i e = set_pc (insn_pc i + (if reg e (rs1 i) <s reg e (rs2 i) then simm i else 4)) e"

definition do_bge :: "insn_t \<Rightarrow> state_t \<Rightarrow> state_t" where
  "do_bge i e = set_pc (insn_pc i + (if reg e (rs2 i) \<le>s reg e (rs1 i) then simm i else 4)) e"

definition do_bltu :: "insn_t \<Rightarrow> state_t \<Rightarrow> state_t" where
  "do_bltu i e = set_pc (insn_pc i + (if reg e (rs1 i) < reg e (rs2 i) then simm i else 4)) e"

definition do_bgeu :: "insn_t \<Rightarrow> state_t \<Rightarrow> state_t" where
  "do_bgeu i e = set_pc (insn_pc i + (if reg e (rs1 i) \<ge> reg e (rs2 i) then simm i else 4)) e"

definition do_c_beq :: "insn_t \<Rightarrow> state_t \<Rightarrow> state_t" where
  "do_c_beq i e = set_pc (insn_pc i + (if reg e (rs1 i) = reg e (rs2 i) then simm i else 2)) e"

definition do_c_bne :: "insn_t \<Rightarrow> state_t \<Rightarrow> state_t" where
  "do_c_bne i e = set_pc (insn_pc i + (if reg e (rs1 i) \<noteq> reg e (rs2 i) then simm i else 2)) e"

section \<open>Loads and stores\<close>

text \<open>The two shapes: a guest read whose value goes to \<open>rd\<close>, and a guest write.\<close>

definition load_rd :: "insn_t \<Rightarrow> u64 option \<Rightarrow> machine \<Rightarrow> machine result" where
  "load_rd i r m =
     bind_result (of_access r) (\<lambda>v. Inr (m\<lparr>env := set_reg (rd i) v (env m)\<rparr>))"

definition store_to :: "host_mem option \<Rightarrow> machine \<Rightarrow> machine result" where
  "store_to r m = bind_result (of_access r) (\<lambda>h. Inr (m\<lparr>mem := h\<rparr>))"

definition do_lb :: "insn_t \<Rightarrow> machine \<Rightarrow> machine result" where
  "do_lb i m = load_rd i (map_option scast
     (cpu_ldub (mem m) (guest_base m) (reg (env m) (rs1 i)) (simm i))) m"

definition do_lh :: "insn_t \<Rightarrow> machine \<Rightarrow> machine result" where
  "do_lh i m = load_rd i (map_option scast
     (cpu_lduh (mem m) (guest_base m) (reg (env m) (rs1 i)) (simm i))) m"

definition do_lw :: "insn_t \<Rightarrow> machine \<Rightarrow> machine result" where
  "do_lw i m = load_rd i (map_option scast
     (cpu_lduw (mem m) (guest_base m) (reg (env m) (rs1 i)) (simm i))) m"

definition do_lbu :: "insn_t \<Rightarrow> machine \<Rightarrow> machine result" where
  "do_lbu i m = load_rd i (map_option ucast
     (cpu_ldub (mem m) (guest_base m) (reg (env m) (rs1 i)) (simm i))) m"

definition do_lhu :: "insn_t \<Rightarrow> machine \<Rightarrow> machine result" where
  "do_lhu i m = load_rd i (map_option ucast
     (cpu_lduh (mem m) (guest_base m) (reg (env m) (rs1 i)) (simm i))) m"

definition do_lwu :: "insn_t \<Rightarrow> machine \<Rightarrow> machine result" where
  "do_lwu i m = load_rd i (map_option ucast
     (cpu_lduw (mem m) (guest_base m) (reg (env m) (rs1 i)) (simm i))) m"

definition do_ld :: "insn_t \<Rightarrow> machine \<Rightarrow> machine result" where
  "do_ld i m = load_rd i
     (cpu_ldud (mem m) (guest_base m) (reg (env m) (rs1 i)) (simm i)) m"

definition do_sb :: "insn_t \<Rightarrow> machine \<Rightarrow> machine result" where
  "do_sb i m = store_to
     (cpu_stub (mem m) (guest_base m) (reg (env m) (rs1 i)) (simm i) (ucast (reg (env m) (rs2 i)))) m"

definition do_sh :: "insn_t \<Rightarrow> machine \<Rightarrow> machine result" where
  "do_sh i m = store_to
     (cpu_stuh (mem m) (guest_base m) (reg (env m) (rs1 i)) (simm i) (ucast (reg (env m) (rs2 i)))) m"

definition do_sw :: "insn_t \<Rightarrow> machine \<Rightarrow> machine result" where
  "do_sw i m = store_to
     (cpu_stuw (mem m) (guest_base m) (reg (env m) (rs1 i)) (simm i) (ucast (reg (env m) (rs2 i)))) m"

definition do_sd :: "insn_t \<Rightarrow> machine \<Rightarrow> machine result" where
  "do_sd i m = store_to
     (cpu_stud (mem m) (guest_base m) (reg (env m) (rs1 i)) (simm i) (reg (env m) (rs2 i))) m"

lemmas do_load_defs = do_lb_def do_lh_def do_lw_def do_lbu_def do_lhu_def do_lwu_def do_ld_def
lemmas do_store_defs = do_sb_def do_sh_def do_sw_def do_sd_def

section \<open>Register-immediate operations\<close>

definition do_addi :: "insn_t \<Rightarrow> state_t \<Rightarrow> state_t" where
  "do_addi i e = set_reg (rd i) (reg e (rs1 i) + simm i) e"

definition do_slti :: "insn_t \<Rightarrow> state_t \<Rightarrow> state_t" where
  "do_slti i e = set_reg (rd i) (if reg e (rs1 i) <s simm i then 1 else 0) e"

definition do_sltiu :: "insn_t \<Rightarrow> state_t \<Rightarrow> state_t" where
  "do_sltiu i e = set_reg (rd i) (if reg e (rs1 i) < simm i then 1 else 0) e"

definition do_xori :: "insn_t \<Rightarrow> state_t \<Rightarrow> state_t" where
  "do_xori i e = set_reg (rd i) (reg e (rs1 i) XOR simm i) e"

definition do_ori :: "insn_t \<Rightarrow> state_t \<Rightarrow> state_t" where
  "do_ori i e = set_reg (rd i) (reg e (rs1 i) OR simm i) e"

definition do_andi :: "insn_t \<Rightarrow> state_t \<Rightarrow> state_t" where
  "do_andi i e = set_reg (rd i) (reg e (rs1 i) AND simm i) e"

definition do_slli :: "insn_t \<Rightarrow> state_t \<Rightarrow> state_t" where
  "do_slli i e =
     (let shift = unat (simm i AND 63) in set_reg (rd i) (push_bit shift (reg e (rs1 i))) e)"

definition do_srli :: "insn_t \<Rightarrow> state_t \<Rightarrow> state_t" where
  "do_srli i e =
     (let shift = unat (simm i AND 63) in set_reg (rd i) (drop_bit shift (reg e (rs1 i))) e)"

definition do_srai :: "insn_t \<Rightarrow> state_t \<Rightarrow> state_t" where
  "do_srai i e =
     (let shift = unat (simm i AND 63) in set_reg (rd i) (signed_drop_bit shift (reg e (rs1 i))) e)"

text \<open>
  The 32-bit forms.  \<open>(int32_t)\<close> then \<open>(target_long)\<close> sign-extends; where the code casts to
  \<open>uint32_t\<close>, the conversion to \<open>target_long\<close> extends with zeros.
\<close>

definition do_addiw :: "insn_t \<Rightarrow> state_t \<Rightarrow> state_t" where
  "do_addiw i e = set_reg (rd i) (scast (ucast (reg e (rs1 i) + simm i) :: u32)) e"

definition do_slliw :: "insn_t \<Rightarrow> state_t \<Rightarrow> state_t" where
  "do_slliw i e =
     (let shift = unat (imm i AND 31)
      in set_reg (rd i) (ucast (push_bit shift (ucast (reg e (rs1 i)) :: u32))) e)"

definition do_srliw :: "insn_t \<Rightarrow> state_t \<Rightarrow> state_t" where
  "do_srliw i e =
     (let shift = unat (imm i AND 31)
      in set_reg (rd i) (ucast (drop_bit shift (ucast (reg e (rs1 i)) :: u32))) e)"

definition do_sraiw :: "insn_t \<Rightarrow> state_t \<Rightarrow> state_t" where
  "do_sraiw i e =
     (let shift = unat (imm i AND 31)
      in set_reg (rd i) (scast (signed_drop_bit shift (ucast (reg e (rs1 i)) :: u32))) e)"

definition do_addw :: "insn_t \<Rightarrow> state_t \<Rightarrow> state_t" where
  "do_addw i e = set_reg (rd i) (scast (ucast (reg e (rs1 i) + reg e (rs2 i)) :: u32)) e"

definition do_subw :: "insn_t \<Rightarrow> state_t \<Rightarrow> state_t" where
  "do_subw i e = set_reg (rd i) (scast (ucast (reg e (rs1 i) - reg e (rs2 i)) :: u32)) e"

definition do_sllw :: "insn_t \<Rightarrow> state_t \<Rightarrow> state_t" where
  "do_sllw i e =
     (let shift = unat (reg e (rs2 i) AND 31)
      in set_reg (rd i) (ucast (push_bit shift (ucast (reg e (rs1 i)) :: u32))) e)"

definition do_srlw :: "insn_t \<Rightarrow> state_t \<Rightarrow> state_t" where
  "do_srlw i e =
     (let shift = unat (reg e (rs2 i) AND 31)
      in set_reg (rd i) (ucast (drop_bit shift (ucast (reg e (rs1 i)) :: u32))) e)"

definition do_sraw :: "insn_t \<Rightarrow> state_t \<Rightarrow> state_t" where
  "do_sraw i e =
     (let shift = unat (reg e (rs2 i) AND 31)
      in set_reg (rd i) (scast (signed_drop_bit shift (ucast (reg e (rs1 i)) :: u32))) e)"

end
