(* ===== verification/Schoolbook.thy ===== *)
theory Schoolbook
  imports Prelude
begin

text \<open>
  Schoolbook multiplication of words in two half-words, as \<open>wmulu\<close>, \<open>wmul\<close> and \<open>wmulsu\<close> do it at 64 bits in
  \<open>arch/riscv/cpu.c\<close> and at 32 bits in \<open>tests/test_hello.c\<close>: for every width the two words it gives are the exact
  product, and the corrections for signed operands are right.
\<close>

section \<open>Columns\<close>

text \<open>The middle columns of a schoolbook product in base \<open>B\<close>, added with one carry.\<close>

lemma middle_columns:
  fixes p00 p01 p10 B :: nat
  defines "s \<equiv> p00 div B + p10 mod B + p01 mod B"
  shows "p00 + (p10 + p01) * B =
    (p10 div B + p01 div B + s div B) * (B * B) + (s mod B * B + p00 mod B)"
proof -
  have "p10 + p01 = (p10 div B + p01 div B) * B + (p10 mod B + p01 mod B)"
    using div_mult_mod_eq [of p10 B] div_mult_mod_eq [of p01 B] by (simp add: distrib_right)
  then have high: "(p10 + p01) * B =
      (p10 div B + p01 div B) * (B * B) + (p10 mod B + p01 mod B) * B"
    by (simp only: distrib_right [of "(p10 div B + p01 div B) * B"] mult.assoc)
  have low: "s * B + p00 mod B = p00 + (p10 mod B + p01 mod B) * B"
    using div_mult_mod_eq [of p00 B] by (simp add: s_def distrib_right)
  have carry: "s * B = s div B * (B * B) + s mod B * B"
    by (metis distrib_right div_mult_mod_eq mult.assoc)
  have "p00 + (p10 + p01) * B = (p10 div B + p01 div B) * (B * B) + (s * B + p00 mod B)"
    using high low by linarith
  with carry show ?thesis by (simp add: distrib_right)
qed

text \<open>The same product on the numbers: the high and the low word in base \<open>B * B\<close>.\<close>

definition columns :: "nat \<Rightarrow> nat \<Rightarrow> nat \<Rightarrow> nat \<times> nat" where
  "columns B x y =
     (let p11 = (x div B) * (y div B); p01 = (x mod B) * (y div B);
          p10 = (x div B) * (y mod B); p00 = (x mod B) * (y mod B);
          s = p00 div B + p10 mod B + p01 mod B
      in (p11 + p10 div B + p01 div B + s div B, s mod B * B + p00 mod B))"

lemma columns_product: "fst (columns B x y) * (B * B) + snd (columns B x y) = x * y"
proof -
  have "x * y = (x div B * B + x mod B) * (y div B * B + y mod B)" by simp
  also have "\<dots> = (x div B) * (y div B) * (B * B) + ((x mod B) * (y mod B) +
      ((x div B) * (y mod B) + (x mod B) * (y div B)) * B)"
    by (simp only: distrib_left distrib_right mult.assoc mult.commute mult.left_commute add.assoc add.commute add.left_commute)
  finally show ?thesis
    unfolding middle_columns [of _ _ _ B] by (simp add: columns_def Let_def distrib_right)
qed

lemma columns_low_less:
  assumes "0 < B"
  shows "snd (columns B x y) < B * B"
proof -
  have "s mod B * B + p mod B < B * B" for s p
  proof -
    have "s mod B * B \<le> (B - 1) * B" using assms by (intro mult_le_mono1) (simp add: less_Suc_eq_le [symmetric])
    moreover have "p mod B < B" using assms by simp
    ultimately have "s mod B * B + p mod B < (B - 1) * B + B" by linarith
    with assms show ?thesis by (simp add: mult_eq_if)
  qed
  then show ?thesis by (simp add: columns_def Let_def)
qed

lemma three_digits:
  fixes B :: nat
  assumes "a < B" and "b < B" and "c < B"
  shows "a + b + c < B * B"
proof -
  from assms obtain n where B: "B = Suc n" by (cases B) auto
  then have "a + b + c \<le> n + n + n" using assms by linarith
  also have "\<dots> < B * B" using le_square [of n] by (simp only: B mult_Suc mult_Suc_right)
  finally show ?thesis .
qed

section \<open>Words\<close>

text \<open>Schoolbook multiplication of words of \<open>2 * h\<close> bits.\<close>

definition schoolbook :: "nat \<Rightarrow> 'a::len word \<Rightarrow> 'a word \<Rightarrow> 'a word \<times> 'a word" where
  "schoolbook h x y =
     (let x0 = take_bit h x; x1 = drop_bit h x; y0 = take_bit h y; y1 = drop_bit h y;
          p11 = x1 * y1; p01 = x0 * y1; p10 = x1 * y0; p00 = x0 * y0;
          c = drop_bit h (drop_bit h p00 + take_bit h p10 + take_bit h p01)
      in (p11 + drop_bit h p10 + drop_bit h p01 + c, p00 + push_bit h p10 + push_bit h p01))"

lemma unat_digits: "unat (take_bit h x) = unat x mod 2 ^ h" "unat (drop_bit h x) = unat x div 2 ^ h"
  by (simp_all only: unsigned_take_bit_eq unat_drop_bit_eq take_bit_nat_def drop_bit_nat_def)

lemma word_of_nat_unat_same: "of_nat (unat w) = w"
  by simp

lemma word_digits:
  "take_bit h x = (of_nat (unat x mod 2 ^ h) :: 'a::len word)" "drop_bit h x = (of_nat (unat x div 2 ^ h) :: 'a word)"
  by (simp_all only: unat_digits [symmetric] word_of_nat_unat_same)

lemma unat_of_nat_less: "n < 2 ^ LENGTH('a) \<Longrightarrow> unat (of_nat n :: 'a::len word) = n"
  by (simp add: unat_of_nat take_bit_nat_eq_self)

lemma unat_mult_halves:
  fixes a b :: "'a::len word"
  assumes "LENGTH('a) = 2 * h" and "unat a < 2 ^ h" and "unat b < 2 ^ h"
  shows "unat (a * b) = unat a * unat b"
proof -
  have "unat a * unat b < 2 ^ h * 2 ^ h" using assms(2,3) by (intro mult_strict_mono) auto
  then have "unat a * unat b < 2 ^ LENGTH('a)" by (simp add: assms(1) mult_2 power_add)
  then show ?thesis by (simp add: unat_mult_lem [symmetric])
qed

lemma schoolbook_columns:
  fixes x y :: "'a::len word"
  assumes "LENGTH('a) = 2 * h"
  defines "c \<equiv> columns (2 ^ h) (unat x) (unat y)"
  shows "schoolbook h x y = (of_nat (fst c), of_nat (snd c))"
proof -
  let ?B = "2 ^ h :: nat"
  have BB: "?B * ?B = 2 ^ LENGTH('a)" by (simp add: assms(1) mult_2 power_add)
  have less: "unat z mod ?B < ?B" "unat z div ?B < ?B" for z :: "'a word"
    using unsigned_less [of z] BB by (simp_all add: div_less_iff_less_mult)
  have p: "unat (take_bit h x * take_bit h y) = (unat x mod ?B) * (unat y mod ?B)"
      "unat (take_bit h x * drop_bit h y) = (unat x mod ?B) * (unat y div ?B)"
      "unat (drop_bit h x * take_bit h y) = (unat x div ?B) * (unat y mod ?B)"
      "unat (drop_bit h x * drop_bit h y) = (unat x div ?B) * (unat y div ?B)"
    using less [of x] less [of y] by (simp_all add: unat_mult_halves [OF assms(1)] unat_digits)
  let ?p00 = "(unat x mod ?B) * (unat y mod ?B)" and ?p01 = "(unat x mod ?B) * (unat y div ?B)"
    and ?p10 = "(unat x div ?B) * (unat y mod ?B)"
  let ?s = "?p00 div ?B + ?p10 mod ?B + ?p01 mod ?B"
  have "?p00 < ?B * ?B" using less [of x] less [of y] by (intro mult_strict_mono) auto
  then have "?p00 div ?B < ?B" by (simp add: div_less_iff_less_mult)
  moreover have "?p10 mod ?B < ?B" "?p01 mod ?B < ?B" by simp_all
  ultimately have "?s < ?B * ?B" by (rule three_digits)
  then have s: "unat (of_nat ?s :: 'a word) = ?s" unfolding BB by (rule unat_of_nat_less)
  have cs: "c = ((unat x div ?B) * (unat y div ?B) + ?p10 div ?B + ?p01 div ?B + ?s div ?B, ?s mod ?B * ?B + ?p00 mod ?B)"
    by (simp add: c_def columns_def Let_def)
  have mid: "drop_bit h (take_bit h x * take_bit h y) + take_bit h (drop_bit h x * take_bit h y) +
      take_bit h (take_bit h x * drop_bit h y) = (of_nat ?s :: 'a word)"
    unfolding word_digits(2) [of h "take_bit h x * take_bit h y"] word_digits(1) [of h "drop_bit h x * take_bit h y"]
      word_digits(1) [of h "take_bit h x * drop_bit h y"] p by simp
  have p11: "drop_bit h x * drop_bit h y = of_nat ((unat x div ?B) * (unat y div ?B))"
    using p(4) by (metis word_of_nat_unat_same)
  have hi: "fst (schoolbook h x y) = of_nat (fst c)"
    unfolding schoolbook_def Let_def fst_conv mid p11 word_digits(2) [of h "of_nat ?s"] s
      word_digits(2) [of h "drop_bit h x * take_bit h y"] word_digits(2) [of h "take_bit h x * drop_bit h y"] p
    by (simp add: cs)
  have "snd (schoolbook h x y) = take_bit h x * take_bit h y +
      (drop_bit h x * take_bit h y + take_bit h x * drop_bit h y) * of_nat ?B"
    by (simp add: schoolbook_def Let_def push_bit_eq_mult distrib_right)
  also have "\<dots> = of_nat (unat (take_bit h x * take_bit h y) +
      (unat (drop_bit h x * take_bit h y) + unat (take_bit h x * drop_bit h y)) * ?B)"
    by (simp only: of_nat_add of_nat_mult word_of_nat_unat_same)
  also have "\<dots> = of_nat (?p10 div ?B + ?p01 div ?B + ?s div ?B) * of_nat (?B * ?B) + of_nat (snd c)"
    unfolding p middle_columns [of _ _ _ ?B] cs by (simp only: of_nat_add of_nat_mult snd_conv)
  also have "of_nat (?B * ?B) = (0 :: 'a word)" unfolding BB by simp
  finally have lo: "snd (schoolbook h x y) = of_nat (snd c)" by simp
  from hi lo show ?thesis by (metis prod.collapse)
qed

lemma schoolbook_product:
  fixes x y :: "'a::len word"
  assumes "LENGTH('a) = 2 * h"
  shows "unat (fst (schoolbook h x y)) * 2 ^ LENGTH('a) + unat (snd (schoolbook h x y)) = unat x * unat y"
proof -
  let ?c = "columns (2 ^ h) (unat x) (unat y)"
  have BB: "2 ^ h * 2 ^ h = (2 ^ LENGTH('a) :: nat)" by (simp add: assms mult_2 power_add)
  have prod: "fst ?c * 2 ^ LENGTH('a) + snd ?c = unat x * unat y"
    using columns_product [of "2 ^ h"] by (simp only: BB)
  have "unat x * unat y < 2 ^ LENGTH('a) * 2 ^ LENGTH('a)"
    using unsigned_less [of x] unsigned_less [of y] by (intro mult_strict_mono) auto
  with prod have "fst ?c * 2 ^ LENGTH('a) < 2 ^ LENGTH('a) * 2 ^ LENGTH('a)" by linarith
  then have "fst ?c < 2 ^ LENGTH('a)" by simp
  moreover have "snd ?c < 2 ^ LENGTH('a)"
    using columns_low_less [of "2 ^ h"] by (simp only: BB) simp
  ultimately show ?thesis
    using prod by (simp add: schoolbook_columns [OF assms] unat_of_nat_less)
qed

section \<open>The two words\<close>

lemma schoolbook_hi_lo:
  fixes x y :: "'a::len word"
  assumes "LENGTH('a) = 2 * h"
  shows "uint (fst (schoolbook h x y)) = uint x * uint y div 2 ^ LENGTH('a)"
    and "snd (schoolbook h x y) = x * y"
proof -
  let ?h = "fst (schoolbook h x y)" and ?l = "snd (schoolbook h x y)"
  have "int (unat ?h * 2 ^ LENGTH('a) + unat ?l) = int (unat x * unat y)"
    by (simp only: schoolbook_product [OF assms])
  then have eq: "uint ?h * 2 ^ LENGTH('a) + uint ?l = uint x * uint y"
    by (simp only: of_nat_add of_nat_mult of_nat_power of_nat_numeral uint_nat)
  have "0 \<le> uint ?l" "uint ?l < 2 ^ LENGTH('a)"
    using uint_lt2p [of ?l] by simp_all
  then show "uint ?h = uint x * uint y div 2 ^ LENGTH('a)"
    unfolding eq [symmetric] by simp
  have z: "(2 ^ LENGTH('a) :: 'a word) = 0" by simp
  have "of_int (uint ?h * 2 ^ LENGTH('a) + uint ?l) = x * y"
    unfolding eq by simp
  then show "?l = x * y"
    by (simp only: of_int_add of_int_mult of_int_power of_int_numeral z mult_zero_right add_0_left
        word_of_int_uint)
qed

lemma uint_sint_sign: "uint x = sint x + (if x <s 0 then 2 ^ LENGTH('a) else 0)" for x :: "'a::len word"
proof -
  have "take_bit LENGTH('a) (uint x) = uint x"
    using uint_lt2p [of x] by (intro take_bit_int_eq_self) simp_all
  then have "sint x = uint x - 2 ^ LENGTH('a) * of_bool (bit (uint x) (LENGTH('a) - 1))"
    by (simp add: sint_uint signed_take_bit_eq_take_bit_minus)
  moreover have "bit (uint x) (LENGTH('a) - 1) \<longleftrightarrow> x <s 0"
    using bit_last_iff [of x] by (simp add: word_sless_alt bit_uint_iff)
  ultimately show ?thesis by simp
qed

text \<open>The high word for a signed first operand, and for two signed ones.\<close>

lemma schoolbook_signed_unsigned:
  fixes x y :: "'a::len word"
  assumes "LENGTH('a) = 2 * h"
  shows "fst (schoolbook h x y) - (if x <s 0 then y else 0) = word_of_int (sint x * uint y div 2 ^ LENGTH('a))"
proof -
  have "uint x * uint y div 2 ^ LENGTH('a) = sint x * uint y div 2 ^ LENGTH('a) + (if x <s 0 then uint y else 0)"
    by (simp add: uint_sint_sign [of x] distrib_right)
  moreover have "fst (schoolbook h x y) = word_of_int (uint x * uint y div 2 ^ LENGTH('a))"
    by (metis schoolbook_hi_lo(1) [OF assms] word_of_int_uint)
  ultimately show ?thesis by simp
qed

lemma schoolbook_signed:
  fixes x y :: "'a::len word"
  assumes "LENGTH('a) = 2 * h"
  shows "fst (schoolbook h x y) - (if x <s 0 then y else 0) - (if y <s 0 then x else 0) =
    word_of_int (sint x * sint y div 2 ^ LENGTH('a))"
proof -
  have "sint x * uint y div 2 ^ LENGTH('a) = sint x * sint y div 2 ^ LENGTH('a) + (if y <s 0 then sint x else 0)"
    by (simp add: uint_sint_sign [of y] distrib_left)
  then show ?thesis unfolding schoolbook_signed_unsigned [OF assms] by simp
qed

end
