(* ===== verification/Cpu_Mul.thy ===== *)
theory Cpu_Mul
  imports Cpu_State Schoolbook "HOL-Library.Signed_Division"
begin

text \<open>
  The M extension of \<open>arch/riscv/cpu.c\<close>: the double-width products \<open>wmulu\<close>, \<open>wmul\<close> and \<open>wmulsu\<close> built from
  half-word products, the multiplications that use them, and the divisions, which are the host's own
  \<open>/\<close> and \<open>%\<close>: a zero divisor, or the most negative value divided by minus one, is a division the
  host cannot do and raises \<open>SIGFPE\<close>.  Signed arithmetic wraps, as the code is compiled (\<open>-O0\<close>).
\<close>

section \<open>Double-width products\<close>

definition wmulu :: "u64 \<Rightarrow> u64 \<Rightarrow> u64 \<times> u64" where
  "wmulu x y =
     (let x0 = ucast (ucast x :: u32); x1 = drop_bit 32 x;
          y0 = ucast (ucast y :: u32); y1 = drop_bit 32 y;
          p11 = x1 * y1; p01 = x0 * y1;
          p10 = x1 * y0; p00 = x0 * y0;
          c = drop_bit 32 (drop_bit 32 p00 + ucast (ucast p10 :: u32) + ucast (ucast p01 :: u32));
          lo = p00 + push_bit 32 p10 + push_bit 32 p01;
          hi = p11 + drop_bit 32 p10 + drop_bit 32 p01 + c
      in (hi, lo))"

definition wmul :: "u64 \<Rightarrow> u64 \<Rightarrow> u64 \<times> u64" where
  "wmul x y =
     (let (hi, lo) = wmulu x y;
          hi = (if x <s 0 then hi - y else hi);
          hi = (if y <s 0 then hi - x else hi)
      in (hi, lo))"

definition wmulsu :: "u64 \<Rightarrow> u64 \<Rightarrow> u64 \<times> u64" where
  "wmulsu x y =
     (let (hi, lo) = wmulu x y;
          hi = (if x <s 0 then hi - y else hi)
      in (hi, lo))"

section \<open>Host division\<close>

text \<open>C's division truncates towards zero; \<open>sdiv\<close> and \<open>smod\<close> do on the integers.\<close>

definition host_sdiv :: "'a::len word \<Rightarrow> 'a word \<Rightarrow> 'a word result" where
  "host_sdiv a b =
     (if b = 0 \<or> sint a = - (2 ^ (LENGTH('a) - 1)) \<and> sint b = - 1 then Inl Sigfpe
      else Inr (word_of_int (sint a sdiv sint b)))"

definition host_smod :: "'a::len word \<Rightarrow> 'a word \<Rightarrow> 'a word result" where
  "host_smod a b =
     (if b = 0 \<or> sint a = - (2 ^ (LENGTH('a) - 1)) \<and> sint b = - 1 then Inl Sigfpe
      else Inr (word_of_int (sint a smod sint b)))"

definition host_udiv :: "'a::len word \<Rightarrow> 'a word \<Rightarrow> 'a word result" where
  "host_udiv a b = (if b = 0 then Inl Sigfpe else Inr (a div b))"

definition host_umod :: "'a::len word \<Rightarrow> 'a word \<Rightarrow> 'a word result" where
  "host_umod a b = (if b = 0 then Inl Sigfpe else Inr (a mod b))"

section \<open>Handlers\<close>

definition do_mul :: "insn_t \<Rightarrow> state_t \<Rightarrow> state_t" where
  "do_mul i e = set_reg (rd i) (reg e (rs1 i) * reg e (rs2 i)) e"

definition do_mulh :: "insn_t \<Rightarrow> state_t \<Rightarrow> state_t" where
  "do_mulh i e = set_reg (rd i) (fst (wmul (reg e (rs1 i)) (reg e (rs2 i)))) e"

definition do_mulhsu :: "insn_t \<Rightarrow> state_t \<Rightarrow> state_t" where
  "do_mulhsu i e = set_reg (rd i) (fst (wmulsu (reg e (rs1 i)) (reg e (rs2 i)))) e"

definition do_mulhu :: "insn_t \<Rightarrow> state_t \<Rightarrow> state_t" where
  "do_mulhu i e = set_reg (rd i) (fst (wmulu (reg e (rs1 i)) (reg e (rs2 i)))) e"

definition do_div :: "insn_t \<Rightarrow> state_t \<Rightarrow> state_t result" where
  "do_div i e = bind_result (host_sdiv (reg e (rs1 i)) (reg e (rs2 i)))
     (\<lambda>v. Inr (set_reg (rd i) v e))"

definition do_divu :: "insn_t \<Rightarrow> state_t \<Rightarrow> state_t result" where
  "do_divu i e = bind_result (host_udiv (reg e (rs1 i)) (reg e (rs2 i)))
     (\<lambda>v. Inr (set_reg (rd i) v e))"

definition do_rem :: "insn_t \<Rightarrow> state_t \<Rightarrow> state_t result" where
  "do_rem i e = bind_result (host_smod (reg e (rs1 i)) (reg e (rs2 i)))
     (\<lambda>v. Inr (set_reg (rd i) v e))"

definition do_remu :: "insn_t \<Rightarrow> state_t \<Rightarrow> state_t result" where
  "do_remu i e = bind_result (host_umod (reg e (rs1 i)) (reg e (rs2 i)))
     (\<lambda>v. Inr (set_reg (rd i) v e))"

definition do_mulw :: "insn_t \<Rightarrow> state_t \<Rightarrow> state_t" where
  "do_mulw i e = set_reg (rd i) (scast (ucast (reg e (rs1 i) * reg e (rs2 i)) :: u32)) e"

definition do_divw :: "insn_t \<Rightarrow> state_t \<Rightarrow> state_t result" where
  "do_divw i e = bind_result (host_sdiv (ucast (reg e (rs1 i)) :: u32) (ucast (reg e (rs2 i))))
     (\<lambda>v. Inr (set_reg (rd i) (scast v) e))"

definition do_divuw :: "insn_t \<Rightarrow> state_t \<Rightarrow> state_t result" where
  "do_divuw i e = bind_result (host_udiv (ucast (reg e (rs1 i)) :: u32) (ucast (reg e (rs2 i))))
     (\<lambda>v. Inr (set_reg (rd i) (ucast v) e))"

definition do_remw :: "insn_t \<Rightarrow> state_t \<Rightarrow> state_t result" where
  "do_remw i e = bind_result (host_smod (ucast (reg e (rs1 i)) :: u32) (ucast (reg e (rs2 i))))
     (\<lambda>v. Inr (set_reg (rd i) (scast v) e))"

definition do_remuw :: "insn_t \<Rightarrow> state_t \<Rightarrow> state_t result" where
  "do_remuw i e = bind_result (host_umod (ucast (reg e (rs1 i)) :: u32) (ucast (reg e (rs2 i))))
     (\<lambda>v. Inr (set_reg (rd i) (ucast v) e))"

section \<open>The products are exact\<close>

lemma ucast_low_half: "ucast (ucast x :: u32) = take_bit 32 x" for x :: u64
  by (rule bit_word_eqI) (simp add: bit_unsigned_iff bit_take_bit_iff)

lemma wmulu_schoolbook: "wmulu = schoolbook 32"
  by (intro ext) (simp add: wmulu_def schoolbook_def ucast_low_half Let_def)

lemma wmulu_product:
  "unat (fst (wmulu x y)) * 2 ^ 64 + unat (snd (wmulu x y)) = unat x * unat y"
  using schoolbook_product [of 32 x y] by (simp add: wmulu_schoolbook)

lemma wmulu_hi_int: "uint (fst (wmulu x y)) = uint x * uint y div 2 ^ 64"
  and wmulu_lo_int: "snd (wmulu x y) = x * y"
  using schoolbook_hi_lo [of 32 x y] by (simp_all add: wmulu_schoolbook)

lemma wmulsu_hi: "fst (wmulsu x y) = word_of_int (sint x * uint y div 2 ^ 64)"
  using schoolbook_signed_unsigned [of 32 x y]
  by (simp add: wmulsu_def wmulu_schoolbook split_beta Let_def split: if_splits)

lemma wmul_hi: "fst (wmul x y) = word_of_int (sint x * sint y div 2 ^ 64)"
  using schoolbook_signed [of 32 x y]
  by (simp add: wmul_def wmulu_schoolbook split_beta Let_def split: if_splits)

end
