(* ===== verification/Cpu_Csr.thy ===== *)
theory Cpu_Csr
  imports Cpu_Int
begin

text \<open>
  The control and status registers of \<open>arch/riscv/cpu.c\<close>: ten user-level registers held in
  \<open>state_t\<close>, the read-modify-write the six CSR instructions share, and the illegal-instruction
  exception for every other number (\<open>CSR_JVT\<close> among them).
\<close>

definition CSR_FFLAGS :: c_int where "CSR_FFLAGS = 0x001"
definition CSR_FRM :: c_int where "CSR_FRM = 0x002"
definition CSR_FCSR :: c_int where "CSR_FCSR = 0x003"
definition CSR_VSTART :: c_int where "CSR_VSTART = 0x008"
definition CSR_VXSAT :: c_int where "CSR_VXSAT = 0x009"
definition CSR_VXRM :: c_int where "CSR_VXRM = 0x00a"
definition CSR_VCSR :: c_int where "CSR_VCSR = 0x00f"
definition CSR_VL :: c_int where "CSR_VL = 0xc20"
definition CSR_VTYPE :: c_int where "CSR_VTYPE = 0xc21"
definition CSR_VLENB :: c_int where "CSR_VLENB = 0xc22"
definition CSR_JVT :: c_int where "CSR_JVT = 0x017"

lemmas CSR_defs = CSR_FFLAGS_def CSR_FRM_def CSR_FCSR_def CSR_VSTART_def CSR_VXSAT_def
  CSR_VXRM_def CSR_VCSR_def CSR_VL_def CSR_VTYPE_def CSR_VLENB_def CSR_JVT_def

text \<open>\<open>read_csr\<close> and \<open>write_csr\<close> return 1 for an unknown number: here \<open>None\<close>.\<close>

definition read_csr :: "state_t \<Rightarrow> c_int \<Rightarrow> u64 option" where
  "read_csr e c =
     (if c = CSR_FFLAGS then Some (fflags e)
      else if c = CSR_FRM then Some (frm e)
      else if c = CSR_FCSR then Some (fcsr e)
      else if c = CSR_VSTART then Some (vstart e)
      else if c = CSR_VXSAT then Some (vxsat e)
      else if c = CSR_VXRM then Some (vxrm e)
      else if c = CSR_VCSR then Some (vcsr e)
      else if c = CSR_VL then Some (vl e)
      else if c = CSR_VTYPE then Some (vtype e)
      else if c = CSR_VLENB then Some (vlenb e)
      else None)"

definition write_csr :: "state_t \<Rightarrow> c_int \<Rightarrow> u64 \<Rightarrow> state_t option" where
  "write_csr e c v =
     (if c = CSR_FFLAGS then Some (e\<lparr>fflags := v\<rparr>)
      else if c = CSR_FRM then Some (e\<lparr>frm := v\<rparr>)
      else if c = CSR_FCSR then Some (e\<lparr>fcsr := v\<rparr>)
      else if c = CSR_VSTART then Some (e\<lparr>vstart := v\<rparr>)
      else if c = CSR_VXSAT then Some (e\<lparr>vxsat := v\<rparr>)
      else if c = CSR_VXRM then Some (e\<lparr>vxrm := v\<rparr>)
      else if c = CSR_VCSR then Some (e\<lparr>vcsr := v\<rparr>)
      else if c = CSR_VL then Some (e\<lparr>vl := v\<rparr>)
      else if c = CSR_VTYPE then Some (e\<lparr>vtype := v\<rparr>)
      else if c = CSR_VLENB then Some (e\<lparr>vlenb := v\<rparr>)
      else None)"

text \<open>The value read and the state after the write, or \<open>None\<close> (with the state unchanged).\<close>

definition rmw_csr :: "state_t \<Rightarrow> c_int \<Rightarrow> u64 \<Rightarrow> u64 \<Rightarrow> (u64 \<times> state_t) option" where
  "rmw_csr e c new_value wr_mask =
     (case read_csr e c of None \<Rightarrow> None
      | Some value \<Rightarrow>
          (let new_value = (value AND NOT wr_mask) OR (new_value AND wr_mask) in
           case write_csr e c new_value of None \<Rightarrow> None
           | Some e' \<Rightarrow> Some (value, e')))"

text \<open>The six handlers pass \<open>&env->gpr[rd]\<close> for the value read.\<close>

definition csr_to_rd :: "insn_t \<Rightarrow> state_t \<Rightarrow> (u64 \<times> state_t) option \<Rightarrow> state_t" where
  "csr_to_rd i e r =
     (case r of None \<Rightarrow> do_illegal i e | Some (value, e') \<Rightarrow> set_reg (rd i) value e')"

definition do_csrrw :: "insn_t \<Rightarrow> state_t \<Rightarrow> state_t" where
  "do_csrrw i e = csr_to_rd i e (rmw_csr e (csr i) (reg e (rs1 i)) (- 1))"

definition do_csrrs :: "insn_t \<Rightarrow> state_t \<Rightarrow> state_t" where
  "do_csrrs i e = csr_to_rd i e (rmw_csr e (csr i) (- 1) (reg e (rs1 i)))"

definition do_csrrc :: "insn_t \<Rightarrow> state_t \<Rightarrow> state_t" where
  "do_csrrc i e = csr_to_rd i e (rmw_csr e (csr i) 0 (reg e (rs1 i)))"

definition do_csrrwi :: "insn_t \<Rightarrow> state_t \<Rightarrow> state_t" where
  "do_csrrwi i e = csr_to_rd i e (rmw_csr e (csr i) (scast (rs1 i)) (- 1))"

definition do_csrrsi :: "insn_t \<Rightarrow> state_t \<Rightarrow> state_t" where
  "do_csrrsi i e = csr_to_rd i e (rmw_csr e (csr i) (- 1) (scast (rs1 i)))"

definition do_csrrci :: "insn_t \<Rightarrow> state_t \<Rightarrow> state_t" where
  "do_csrrci i e = csr_to_rd i e (rmw_csr e (csr i) 0 (scast (rs1 i)))"

lemmas do_csr_defs = do_csrrw_def do_csrrs_def do_csrrc_def do_csrrwi_def do_csrrsi_def
  do_csrrci_def

section \<open>The register bank as an interface\<close>

text \<open>
  What the read-modify-write relies on: the same numbers can be read and written, a read returns the
  last write, and a write leaves the other registers alone.
\<close>

locale csr_bank =
  fixes rdc :: "'s \<Rightarrow> c_int \<Rightarrow> u64 option"
    and wrc :: "'s \<Rightarrow> c_int \<Rightarrow> u64 \<Rightarrow> 's option"
  assumes wrc_defined: "wrc s c v = None \<longleftrightarrow> rdc s c = None"
    and rdc_wrc: "wrc s c v = Some s' \<Longrightarrow> rdc s' d = (if d = c then Some v else rdc s d)"
begin

definition rmw :: "'s \<Rightarrow> c_int \<Rightarrow> u64 \<Rightarrow> u64 \<Rightarrow> (u64 \<times> 's) option" where
  "rmw s c v m =
     (case rdc s c of None \<Rightarrow> None
      | Some old \<Rightarrow> (case wrc s c ((old AND NOT m) OR (v AND m)) of None \<Rightarrow> None
                   | Some s' \<Rightarrow> Some (old, s')))"

lemma rmw_None: "rmw s c v m = None \<longleftrightarrow> rdc s c = None"
  by (auto simp: rmw_def wrc_defined split: option.splits)

lemma rmw_old: "rmw s c v m = Some (old, s') \<Longrightarrow> rdc s c = Some old"
  by (auto simp: rmw_def split: option.splits)

lemma rmw_new:
  "rmw s c v m = Some (old, s') \<Longrightarrow>
     rdc s' d = (if d = c then Some ((old AND NOT m) OR (v AND m)) else rdc s d)"
  by (auto simp: rmw_def rdc_wrc split: option.splits)

end

lemma write_csr_other:
  assumes "write_csr e c v = Some e'"
  shows "gpr e' = gpr e" and "env_pc e' = env_pc e" and "env_exception e' = env_exception e"
  using assms by (auto simp: write_csr_def split: if_splits)

interpretation csrs: csr_bank read_csr write_csr
  rewrites "csr_bank.rmw read_csr write_csr = rmw_csr"
proof -
  show bank: "csr_bank read_csr write_csr"
  proof
    fix s c v
    show "write_csr s c v = None \<longleftrightarrow> read_csr s c = None"
      by (simp add: write_csr_def read_csr_def)
  next
    fix s c v s' d
    assume "write_csr s c v = Some s'"
    then show "read_csr s' d = (if d = c then Some v else read_csr s d)"
      by (simp add: write_csr_def split: if_splits)
         (auto simp: read_csr_def CSR_defs)
  qed
  show "csr_bank.rmw read_csr write_csr = rmw_csr"
    by (intro ext) (simp add: rmw_csr_def csr_bank.rmw_def [OF bank] Let_def split: option.split)
qed

text \<open>A number is known or not independently of the state.\<close>

definition csr_known :: "c_int \<Rightarrow> bool" where
  "csr_known c \<longleftrightarrow> c \<in> {CSR_FFLAGS, CSR_FRM, CSR_FCSR, CSR_VSTART, CSR_VXSAT, CSR_VXRM, CSR_VCSR,
     CSR_VL, CSR_VTYPE, CSR_VLENB}"

lemma read_csr_known: "read_csr e c = None \<longleftrightarrow> \<not> csr_known c"
  by (simp add: read_csr_def csr_known_def)

lemma rmw_csr_known: "rmw_csr e c v m = None \<longleftrightarrow> \<not> csr_known c"
  by (simp add: csrs.rmw_None read_csr_known)

lemma rmw_csr_other:
  assumes "rmw_csr e c v m = Some (old, e')"
  shows "gpr e' = gpr e" and "env_pc e' = env_pc e" and "env_exception e' = env_exception e"
  using assms by (auto simp: rmw_csr_def Let_def split: option.splits dest: write_csr_other)

end
