(* ===== verification/Cpu_Atomic.thy ===== *)
theory Cpu_Atomic
  imports Cpu_Int
begin

text \<open>
  The A extension of \<open>arch/riscv/cpu.c\<close>.  \<open>lr\<close> is a plain load and \<open>sc\<close> a plain store that always
  succeeds; the AMOs are the host's atomic operations on an \<open>int32_t\<close> or \<open>int64_t\<close>, and the
  minimum and maximum forms first load, then exchange.  The emulator is single-threaded, so nothing
  comes between the two.
\<close>

text \<open>\<open>(target_long)\<close> of the old value: an \<open>int32_t\<close> is sign-extended, an \<open>int64_t\<close> kept.\<close>

definition amo_result :: "nat \<Rightarrow> u64 \<Rightarrow> u64" where
  "amo_result n v = (if n = 4 then scast (ucast v :: u32) else v)"

definition amo_rd :: "insn_t \<Rightarrow> nat \<Rightarrow> (u64 \<times> host_mem) option \<Rightarrow> machine \<Rightarrow> machine result" where
  "amo_rd i n r m =
     bind_result (of_access r)
       (\<lambda>(old, h). Inr (m\<lparr>mem := h, env := set_reg (rd i) (amo_result n old) (env m)\<rparr>))"

text \<open>The address and the operand of an AMO.\<close>

definition amo_ptr :: "insn_t \<Rightarrow> machine \<Rightarrow> u64" where
  "amo_ptr i m = g2h (guest_base m) (reg (env m) (rs1 i))"

definition amo_arg :: "insn_t \<Rightarrow> machine \<Rightarrow> u64" where
  "amo_arg i m = reg (env m) (rs2 i)"

section \<open>32-bit forms\<close>

definition do_lr_w :: "insn_t \<Rightarrow> machine \<Rightarrow> machine result" where
  "do_lr_w i m = load_rd i (map_option scast
     (cpu_lduw (mem m) (guest_base m) (reg (env m) (rs1 i)) 0)) m"

definition do_sc_w :: "insn_t \<Rightarrow> machine \<Rightarrow> machine result" where
  "do_sc_w i m = bind_result
     (store_to (cpu_stuw (mem m) (guest_base m) (reg (env m) (rs1 i)) 0
        (ucast (reg (env m) (rs2 i)))) m)
     (\<lambda>m. Inr (m\<lparr>env := set_reg (rd i) 0 (env m)\<rparr>))"

definition do_amoadd_w :: "insn_t \<Rightarrow> machine \<Rightarrow> machine result" where
  "do_amoadd_w i m = amo_rd i 4 (atomic_add (mem m) (amo_ptr i m) 4 (amo_arg i m)) m"

definition do_amoswap_w :: "insn_t \<Rightarrow> machine \<Rightarrow> machine result" where
  "do_amoswap_w i m = amo_rd i 4 (atomic_xchg (mem m) (amo_ptr i m) 4 (amo_arg i m)) m"

definition do_amoxor_w :: "insn_t \<Rightarrow> machine \<Rightarrow> machine result" where
  "do_amoxor_w i m = amo_rd i 4 (atomic_xor (mem m) (amo_ptr i m) 4 (amo_arg i m)) m"

definition do_amoor_w :: "insn_t \<Rightarrow> machine \<Rightarrow> machine result" where
  "do_amoor_w i m = amo_rd i 4 (atomic_or (mem m) (amo_ptr i m) 4 (amo_arg i m)) m"

definition do_amoand_w :: "insn_t \<Rightarrow> machine \<Rightarrow> machine result" where
  "do_amoand_w i m = amo_rd i 4 (atomic_and (mem m) (amo_ptr i m) 4 (amo_arg i m)) m"

text \<open>The load, the comparison at the handler's type, and the exchange.\<close>

definition amo_select_w :: "insn_t \<Rightarrow> (u32 \<Rightarrow> u32 \<Rightarrow> u32) \<Rightarrow> machine \<Rightarrow> machine result" where
  "amo_select_w i pick m =
     bind_result (of_access (cpu_lduw (mem m) (guest_base m) (reg (env m) (rs1 i)) 0))
       (\<lambda>n. let n = pick n (ucast (amo_arg i m))
            in amo_rd i 4 (atomic_xchg (mem m) (amo_ptr i m) 4 (ucast n)) m)"

definition do_amomin_w :: "insn_t \<Rightarrow> machine \<Rightarrow> machine result" where
  "do_amomin_w i m = amo_select_w i (\<lambda>n v. if n <s v then n else v) m"

definition do_amomax_w :: "insn_t \<Rightarrow> machine \<Rightarrow> machine result" where
  "do_amomax_w i m = amo_select_w i (\<lambda>n v. if v <s n then n else v) m"

definition do_amominu_w :: "insn_t \<Rightarrow> machine \<Rightarrow> machine result" where
  "do_amominu_w i m = amo_select_w i (\<lambda>n v. if n < v then n else v) m"

definition do_amomaxu_w :: "insn_t \<Rightarrow> machine \<Rightarrow> machine result" where
  "do_amomaxu_w i m = amo_select_w i (\<lambda>n v. if n > v then n else v) m"

section \<open>64-bit forms\<close>

definition do_lr_d :: "insn_t \<Rightarrow> machine \<Rightarrow> machine result" where
  "do_lr_d i m = load_rd i (cpu_ldud (mem m) (guest_base m) (reg (env m) (rs1 i)) 0) m"

definition do_sc_d :: "insn_t \<Rightarrow> machine \<Rightarrow> machine result" where
  "do_sc_d i m = bind_result
     (store_to (cpu_stud (mem m) (guest_base m) (reg (env m) (rs1 i)) 0 (reg (env m) (rs2 i))) m)
     (\<lambda>m. Inr (m\<lparr>env := set_reg (rd i) 0 (env m)\<rparr>))"

definition do_amoadd_d :: "insn_t \<Rightarrow> machine \<Rightarrow> machine result" where
  "do_amoadd_d i m = amo_rd i 8 (atomic_add (mem m) (amo_ptr i m) 8 (amo_arg i m)) m"

definition do_amoswap_d :: "insn_t \<Rightarrow> machine \<Rightarrow> machine result" where
  "do_amoswap_d i m = amo_rd i 8 (atomic_xchg (mem m) (amo_ptr i m) 8 (amo_arg i m)) m"

definition do_amoxor_d :: "insn_t \<Rightarrow> machine \<Rightarrow> machine result" where
  "do_amoxor_d i m = amo_rd i 8 (atomic_xor (mem m) (amo_ptr i m) 8 (amo_arg i m)) m"

definition do_amoor_d :: "insn_t \<Rightarrow> machine \<Rightarrow> machine result" where
  "do_amoor_d i m = amo_rd i 8 (atomic_or (mem m) (amo_ptr i m) 8 (amo_arg i m)) m"

definition do_amoand_d :: "insn_t \<Rightarrow> machine \<Rightarrow> machine result" where
  "do_amoand_d i m = amo_rd i 8 (atomic_and (mem m) (amo_ptr i m) 8 (amo_arg i m)) m"

definition amo_select_d :: "insn_t \<Rightarrow> (u64 \<Rightarrow> u64 \<Rightarrow> u64) \<Rightarrow> machine \<Rightarrow> machine result" where
  "amo_select_d i pick m =
     bind_result (of_access (cpu_ldud (mem m) (guest_base m) (reg (env m) (rs1 i)) 0))
       (\<lambda>n. let n = pick n (amo_arg i m)
            in amo_rd i 8 (atomic_xchg (mem m) (amo_ptr i m) 8 n) m)"

definition do_amomin_d :: "insn_t \<Rightarrow> machine \<Rightarrow> machine result" where
  "do_amomin_d i m = amo_select_d i (\<lambda>n v. if n <s v then n else v) m"

definition do_amomax_d :: "insn_t \<Rightarrow> machine \<Rightarrow> machine result" where
  "do_amomax_d i m = amo_select_d i (\<lambda>n v. if v <s n then n else v) m"

definition do_amominu_d :: "insn_t \<Rightarrow> machine \<Rightarrow> machine result" where
  "do_amominu_d i m = amo_select_d i (\<lambda>n v. if n < v then n else v) m"

definition do_amomaxu_d :: "insn_t \<Rightarrow> machine \<Rightarrow> machine result" where
  "do_amomaxu_d i m = amo_select_d i (\<lambda>n v. if n > v then n else v) m"

end
