(* ===== verification/Cpu_Run.thy ===== *)
theory Cpu_Run
  imports Cpu_Int Cpu_Mul Cpu_Csr Cpu_Atomic
begin

text \<open>
  The call through the handler pointer of a decoded instruction, and the facts about every handler
  that the block execution rests on: which part of the machine it can change, when it moves the
  program counter, when it raises an exception, and when it can disturb register zero.
\<close>

section \<open>Calling a handler\<close>

definition on_env :: "(state_t \<Rightarrow> state_t) \<Rightarrow> machine \<Rightarrow> machine result" where
  "on_env f m = Inr (m\<lparr>env := f (env m)\<rparr>)"

definition on_env_result :: "(state_t \<Rightarrow> state_t result) \<Rightarrow> machine \<Rightarrow> machine result" where
  "on_env_result f m = bind_result (f (env m)) (\<lambda>e. Inr (m\<lparr>env := e\<rparr>))"

fun run_jump :: "jump_handler \<Rightarrow> insn_t \<Rightarrow> state_t \<Rightarrow> state_t" where
  "run_jump Do_jal = do_jal"
| "run_jump Do_jalr = do_jalr"
| "run_jump Do_c_jal = do_c_jal"
| "run_jump Do_c_jalr = do_c_jalr"

fun run_r :: "r_handler \<Rightarrow> insn_t \<Rightarrow> state_t \<Rightarrow> state_t result" where
  "run_r Do_add i e = Inr (do_add i e)"
| "run_r Do_sub i e = Inr (do_sub i e)"
| "run_r Do_sll i e = Inr (do_sll i e)"
| "run_r Do_slt i e = Inr (do_slt i e)"
| "run_r Do_sltu i e = Inr (do_sltu i e)"
| "run_r Do_xor i e = Inr (do_xor i e)"
| "run_r Do_srl i e = Inr (do_srl i e)"
| "run_r Do_sra i e = Inr (do_sra i e)"
| "run_r Do_or i e = Inr (do_or i e)"
| "run_r Do_and i e = Inr (do_and i e)"
| "run_r Do_addw i e = Inr (do_addw i e)"
| "run_r Do_subw i e = Inr (do_subw i e)"
| "run_r Do_sllw i e = Inr (do_sllw i e)"
| "run_r Do_srlw i e = Inr (do_srlw i e)"
| "run_r Do_sraw i e = Inr (do_sraw i e)"
| "run_r Do_mul i e = Inr (do_mul i e)"
| "run_r Do_mulh i e = Inr (do_mulh i e)"
| "run_r Do_mulhsu i e = Inr (do_mulhsu i e)"
| "run_r Do_mulhu i e = Inr (do_mulhu i e)"
| "run_r Do_div i e = do_div i e"
| "run_r Do_divu i e = do_divu i e"
| "run_r Do_rem i e = do_rem i e"
| "run_r Do_remu i e = do_remu i e"
| "run_r Do_mulw i e = Inr (do_mulw i e)"
| "run_r Do_divw i e = do_divw i e"
| "run_r Do_divuw i e = do_divuw i e"
| "run_r Do_remw i e = do_remw i e"
| "run_r Do_remuw i e = do_remuw i e"

fun run_i :: "i_handler \<Rightarrow> insn_t \<Rightarrow> machine \<Rightarrow> machine result" where
  "run_i Do_lb i m = do_lb i m"
| "run_i Do_lh i m = do_lh i m"
| "run_i Do_lw i m = do_lw i m"
| "run_i Do_ld i m = do_ld i m"
| "run_i Do_lbu i m = do_lbu i m"
| "run_i Do_lhu i m = do_lhu i m"
| "run_i Do_lwu i m = do_lwu i m"
| "run_i Do_addi i m = on_env (do_addi i) m"
| "run_i Do_slti i m = on_env (do_slti i) m"
| "run_i Do_sltiu i m = on_env (do_sltiu i) m"
| "run_i Do_xori i m = on_env (do_xori i) m"
| "run_i Do_ori i m = on_env (do_ori i) m"
| "run_i Do_andi i m = on_env (do_andi i) m"
| "run_i Do_slli i m = on_env (do_slli i) m"
| "run_i Do_srli i m = on_env (do_srli i) m"
| "run_i Do_srai i m = on_env (do_srai i) m"
| "run_i Do_addiw i m = on_env (do_addiw i) m"
| "run_i Do_slliw i m = on_env (do_slliw i) m"
| "run_i Do_srliw i m = on_env (do_srliw i) m"
| "run_i Do_sraiw i m = on_env (do_sraiw i) m"

fun run_s :: "s_handler \<Rightarrow> insn_t \<Rightarrow> machine \<Rightarrow> machine result" where
  "run_s Do_sb = do_sb"
| "run_s Do_sh = do_sh"
| "run_s Do_sw = do_sw"
| "run_s Do_sd = do_sd"

fun run_b :: "b_handler \<Rightarrow> insn_t \<Rightarrow> state_t \<Rightarrow> state_t" where
  "run_b Do_beq = do_beq"
| "run_b Do_bne = do_bne"
| "run_b Do_blt = do_blt"
| "run_b Do_bge = do_bge"
| "run_b Do_bltu = do_bltu"
| "run_b Do_bgeu = do_bgeu"
| "run_b Do_c_beq = do_c_beq"
| "run_b Do_c_bne = do_c_bne"

fun run_csr :: "csr_handler \<Rightarrow> insn_t \<Rightarrow> state_t \<Rightarrow> state_t" where
  "run_csr Do_csrrw = do_csrrw"
| "run_csr Do_csrrs = do_csrrs"
| "run_csr Do_csrrc = do_csrrc"
| "run_csr Do_csrrwi = do_csrrwi"
| "run_csr Do_csrrsi = do_csrrsi"
| "run_csr Do_csrrci = do_csrrci"

fun run_atom :: "atom_handler \<Rightarrow> insn_t \<Rightarrow> machine \<Rightarrow> machine result" where
  "run_atom Do_lr_w = do_lr_w"
| "run_atom Do_sc_w = do_sc_w"
| "run_atom Do_amoadd_w = do_amoadd_w"
| "run_atom Do_amoswap_w = do_amoswap_w"
| "run_atom Do_amoxor_w = do_amoxor_w"
| "run_atom Do_amoor_w = do_amoor_w"
| "run_atom Do_amoand_w = do_amoand_w"
| "run_atom Do_amomin_w = do_amomin_w"
| "run_atom Do_amomax_w = do_amomax_w"
| "run_atom Do_amominu_w = do_amominu_w"
| "run_atom Do_amomaxu_w = do_amomaxu_w"
| "run_atom Do_lr_d = do_lr_d"
| "run_atom Do_sc_d = do_sc_d"
| "run_atom Do_amoadd_d = do_amoadd_d"
| "run_atom Do_amoswap_d = do_amoswap_d"
| "run_atom Do_amoxor_d = do_amoxor_d"
| "run_atom Do_amoor_d = do_amoor_d"
| "run_atom Do_amoand_d = do_amoand_d"
| "run_atom Do_amomin_d = do_amomin_d"
| "run_atom Do_amomax_d = do_amomax_d"
| "run_atom Do_amominu_d = do_amominu_d"
| "run_atom Do_amomaxu_d = do_amomaxu_d"

fun run_handler :: "handler \<Rightarrow> insn_t \<Rightarrow> machine \<Rightarrow> machine result" where
  "run_handler Null_handler i m = Inl (Segv Null_call)"
| "run_handler Do_empty i m = on_env (do_empty i) m"
| "run_handler Do_illegal i m = on_env (do_illegal i) m"
| "run_handler Do_ecall i m = on_env (do_ecall i) m"
| "run_handler Do_auipc i m = on_env (do_auipc i) m"
| "run_handler Do_lui i m = on_env (do_lui i) m"
| "run_handler (H_jump h) i m = on_env (run_jump h i) m"
| "run_handler (H_r h) i m = on_env_result (run_r h i) m"
| "run_handler (H_i h) i m = run_i h i m"
| "run_handler (H_s h) i m = run_s h i m"
| "run_handler (H_b h) i m = on_env (run_b h i) m"
| "run_handler (H_csr h) i m = on_env (run_csr h i) m"
| "run_handler (H_atom h) i m = run_atom h i m"

text \<open>\<open>insn.handler(env, &insn)\<close>.\<close>

definition run_insn :: "insn_t \<Rightarrow> machine \<Rightarrow> machine result" where
  "run_insn i m = run_handler (insn_handler i) i m"

section \<open>What a handler can change\<close>

text \<open>
  A memory seen through the guest's accesses: the permissions stay, and so does every byte that may
  not be written.
\<close>

definition mem_frame :: "host_mem \<Rightarrow> host_mem \<Rightarrow> bool" where
  "mem_frame m m' \<longleftrightarrow> hread m' = hread m \<and> hwrite m' = hwrite m \<and>
     (\<forall>x. \<not> hwrite m x \<longrightarrow> hbytes m' x = hbytes m x)"

lemma mem_frame_refl [simp, intro]: "mem_frame m m"
  by (simp add: mem_frame_def)

lemma mem_frame_trans: "mem_frame a b \<Longrightarrow> mem_frame b c \<Longrightarrow> mem_frame a c"
  by (simp add: mem_frame_def)

lemma host_store_frame: "host_store m a n v = Some m' \<Longrightarrow> mem_frame m m'"
  by (simp add: mem_frame_def host_store_perm host_store_read_only)

lemma load_rd_Inr:
  "load_rd i r m = Inr m' \<longleftrightarrow> (\<exists>v. r = Some v \<and> m' = m\<lparr>env := set_reg (rd i) v (env m)\<rparr>)"
  by (auto simp: load_rd_def bind_result_Inr)

lemma store_to_Inr: "store_to r m = Inr m' \<longleftrightarrow> (\<exists>h. r = Some h \<and> m' = m\<lparr>mem := h\<rparr>)"
  by (auto simp: store_to_def bind_result_Inr)

lemma amo_rd_Inr:
  "amo_rd i n r m = Inr m' \<longleftrightarrow>
     (\<exists>old h. r = Some (old, h) \<and>
        m' = m\<lparr>mem := h, env := set_reg (rd i) (amo_result n old) (env m)\<rparr>)"
  by (auto simp: amo_rd_def bind_result_Inr)

lemma run_r_shape: "run_r h i e = Inr e' \<Longrightarrow> \<exists>v. e' = set_reg (rd i) v e"
  by (cases h)
    (auto simp: do_add_def do_sub_def do_sll_def do_slt_def do_sltu_def do_xor_def do_srl_def
      do_sra_def do_or_def do_and_def do_addw_def do_subw_def do_sllw_def do_srlw_def do_sraw_def
      do_mul_def do_mulh_def do_mulhsu_def do_mulhu_def do_div_def do_divu_def do_rem_def
      do_remu_def do_mulw_def do_divw_def do_divuw_def do_remw_def do_remuw_def Let_def
      bind_result_Inr)

lemmas do_imm_defs = do_addi_def do_slti_def do_sltiu_def do_xori_def do_ori_def do_andi_def
  do_slli_def do_srli_def do_srai_def do_addiw_def do_slliw_def do_srliw_def do_sraiw_def

lemma run_i_shape: "run_i h i m = Inr m' \<Longrightarrow> \<exists>v. m' = m\<lparr>env := set_reg (rd i) v (env m)\<rparr>"
  by (cases h) (auto simp: do_load_defs load_rd_Inr on_env_def do_imm_defs Let_def)

lemma run_s_shape:
  "run_s h i m = Inr m' \<Longrightarrow> \<exists>hm. m' = m\<lparr>mem := hm\<rparr> \<and> mem_frame (mem m) hm"
  by (cases h) (auto simp: do_store_defs store_to_Inr cpu_st_defs intro: host_store_frame)

text \<open>The length of the instruction a branch or jump handler is used for.\<close>

fun b_len :: "b_handler \<Rightarrow> u64" where
  "b_len Do_c_beq = 2"
| "b_len Do_c_bne = 2"
| "b_len _ = 4"

lemma run_b_shape:
  "run_b h i e = set_pc (insn_pc i + simm i) e \<or> run_b h i e = set_pc (insn_pc i + b_len h) e"
  by (cases h) (auto simp: do_beq_def do_bne_def do_blt_def do_bge_def do_bltu_def do_bgeu_def
      do_c_beq_def do_c_bne_def)

lemma run_jump_shape:
  "\<exists>p v. run_jump h i e = set_pc p (if rd i \<noteq> 0 then set_reg (rd i) v e else e)"
  by (cases h) (auto simp: do_jal_def do_jalr_def do_c_jal_def do_c_jalr_def Let_def)

lemma csr_to_rd_shape:
  assumes "csr_known (csr i)"
  shows "\<exists>v e1. csr_to_rd i e (rmw_csr e (csr i) a b) = set_reg (rd i) v e1 \<and>
     gpr e1 = gpr e \<and> env_pc e1 = env_pc e \<and> env_exception e1 = env_exception e"
proof -
  obtain v e1 where r: "rmw_csr e (csr i) a b = Some (v, e1)"
    using assms rmw_csr_known [of e "csr i" a b] by fastforce
  then show ?thesis
    using rmw_csr_other [OF r] by (auto simp: csr_to_rd_def)
qed

lemma run_csr_shape:
  "csr_known (csr i) \<Longrightarrow> \<exists>v e1. run_csr h i e = set_reg (rd i) v e1 \<and>
     gpr e1 = gpr e \<and> env_pc e1 = env_pc e \<and> env_exception e1 = env_exception e"
  by (cases h) (simp_all add: do_csr_defs csr_to_rd_shape)

lemma run_csr_unknown: "\<not> csr_known (csr i) \<Longrightarrow> run_csr h i e = do_illegal i e"
  by (cases h)
    (simp_all add: do_csr_defs csr_to_rd_def rmw_csr_known [THEN iffD2])

text \<open>The shape of the atomic handlers: a register and the memory change.\<close>

definition amo_shape :: "insn_t \<Rightarrow> machine \<Rightarrow> machine \<Rightarrow> bool" where
  "amo_shape i m m' \<longleftrightarrow>
     (\<exists>v hm. m' = m\<lparr>mem := hm, env := set_reg (rd i) v (env m)\<rparr> \<and> mem_frame (mem m) hm)"

lemma load_rd_amo_shape: "load_rd i r m = Inr m' \<Longrightarrow> amo_shape i m m'"
  by (auto simp: load_rd_Inr amo_shape_def intro!: exI [of _ "mem m"])

lemma amo_rd_shape: "amo_rd i n (atomic_rmw (mem m) p k f) m = Inr m' \<Longrightarrow> amo_shape i m m'"
  by (auto simp: amo_rd_Inr atomic_rmw_Some amo_shape_def dest: host_store_frame)

lemma sc_shape:
  assumes "bind_result (store_to r m) (\<lambda>m. Inr (m\<lparr>env := set_reg (rd i) v (env m)\<rparr>)) = Inr m'"
    and "\<And>h. r = Some h \<Longrightarrow> mem_frame (mem m) h"
  shows "amo_shape i m m'"
  using assms by (auto simp: bind_result_Inr store_to_Inr amo_shape_def) blast

lemma amo_select_shape:
  "amo_select_w i pick m = Inr m' \<Longrightarrow> amo_shape i m m'"
  "amo_select_d i pick' m = Inr m' \<Longrightarrow> amo_shape i m m'"
  by (auto simp: amo_select_w_def amo_select_d_def bind_result_Inr Let_def atomic_xchg_def
      intro: amo_rd_shape)

lemma run_atom_shape: "run_atom h i m = Inr m' \<Longrightarrow> amo_shape i m m'"
  by (cases h)
    (auto simp: do_lr_w_def do_lr_d_def do_sc_w_def do_sc_d_def do_amoadd_w_def do_amoswap_w_def
      do_amoxor_w_def do_amoor_w_def do_amoand_w_def do_amomin_w_def do_amomax_w_def
      do_amominu_w_def do_amomaxu_w_def do_amoadd_d_def do_amoswap_d_def do_amoxor_d_def
      do_amoor_d_def do_amoand_d_def do_amomin_d_def do_amomax_d_def do_amominu_d_def
      do_amomaxu_d_def atomic_defs cpu_st_defs
      intro: load_rd_amo_shape amo_rd_shape amo_select_shape
      elim!: sc_shape intro: host_store_frame)

section \<open>Every handler\<close>

text \<open>
  Which instructions write \<open>rd\<close> whatever its number, which move the program counter, and which raise
  an exception: all read off the decoded instruction.
\<close>

fun writes_rd :: "handler \<Rightarrow> bool" where
  "writes_rd Do_auipc = True"
| "writes_rd Do_lui = True"
| "writes_rd (H_r h) = True"
| "writes_rd (H_i h) = True"
| "writes_rd (H_csr h) = True"
| "writes_rd (H_atom h) = True"
| "writes_rd _ = False"

fun raises :: "handler \<Rightarrow> c_int \<Rightarrow> bool" where
  "raises Do_illegal c = True"
| "raises Do_ecall c = True"
| "raises (H_csr h) c = (\<not> csr_known c)"
| "raises _ c = False"

fun is_jump :: "handler \<Rightarrow> bool" where
  "is_jump (H_jump h) = True"
| "is_jump (H_b h) = True"
| "is_jump _ = False"

definition insn_raises :: "insn_t \<Rightarrow> bool" where
  "insn_raises i \<longleftrightarrow> raises (insn_handler i) (csr i)"

definition machine_frame :: "machine \<Rightarrow> machine \<Rightarrow> bool" where
  "machine_frame m m' \<longleftrightarrow> guest_base m' = guest_base m \<and> mem_frame (mem m) (mem m') \<and>
     length (gpr (env m')) = length (gpr (env m))"

lemma machine_frame_refl [simp, intro]: "machine_frame m m"
  by (simp add: machine_frame_def)

lemma machine_frame_trans: "machine_frame a b \<Longrightarrow> machine_frame b c \<Longrightarrow> machine_frame a c"
  by (auto simp: machine_frame_def intro: mem_frame_trans)

lemma run_csr_length: "length (gpr (run_csr h i e)) = length (gpr e)"
proof (cases "csr_known (csr i)")
  case True
  then show ?thesis using run_csr_shape [of i h e] by (auto simp: reg_simps)
next
  case False
  then show ?thesis by (simp add: run_csr_unknown do_illegal_def)
qed

lemma run_insn_frame:
  assumes "run_insn i m = Inr m'"
  shows "machine_frame m m'"
proof (cases "insn_handler i")
  case (H_r h)
  with assms show ?thesis
    by (auto simp: run_insn_def on_env_result_def bind_result_Inr machine_frame_def reg_simps
        dest!: run_r_shape)
next
  case (H_i h)
  with assms show ?thesis
    by (auto simp: run_insn_def machine_frame_def reg_simps dest!: run_i_shape)
next
  case (H_s h)
  with assms show ?thesis
    by (auto simp: run_insn_def machine_frame_def dest!: run_s_shape)
next
  case (H_atom h)
  with assms show ?thesis
    by (auto simp: run_insn_def machine_frame_def amo_shape_def reg_simps dest!: run_atom_shape)
next
  case (H_b h)
  with assms run_b_shape [of h i "env m"] show ?thesis
    by (auto simp: run_insn_def on_env_def machine_frame_def reg_simps)
next
  case (H_jump h)
  with assms run_jump_shape [of h i "env m"] show ?thesis
    by (auto simp: run_insn_def on_env_def machine_frame_def reg_simps)
qed (use assms in \<open>auto simp: run_insn_def on_env_def machine_frame_def reg_simps do_empty_def
      do_illegal_def do_ecall_def do_auipc_def do_lui_def run_csr_length\<close>)

text \<open>An instruction that does not jump and does not raise leaves the counter and the exception.\<close>

lemma run_insn_straight:
  assumes "run_insn i m = Inr m'" and "\<not> insn_raises i" and "\<not> is_jump (insn_handler i)"
  shows "env_pc (env m') = env_pc (env m) \<and> env_exception (env m') = env_exception (env m)"
proof (cases "insn_handler i")
  case (H_r h)
  with assms show ?thesis
    by (auto simp: run_insn_def on_env_result_def bind_result_Inr reg_simps dest!: run_r_shape)
next
  case (H_i h)
  with assms show ?thesis by (auto simp: run_insn_def reg_simps dest!: run_i_shape)
next
  case (H_s h)
  with assms show ?thesis by (auto simp: run_insn_def dest!: run_s_shape)
next
  case (H_atom h)
  with assms show ?thesis
    by (auto simp: run_insn_def amo_shape_def reg_simps dest!: run_atom_shape)
next
  case (H_csr h)
  with assms run_csr_shape [of i h "env m"] show ?thesis
    by (auto simp: run_insn_def insn_raises_def on_env_def reg_simps)
qed (use assms in \<open>auto simp: run_insn_def on_env_def insn_raises_def reg_simps do_empty_def
      do_auipc_def do_lui_def\<close>)

lemma run_insn_jump_exception:
  assumes "run_insn i m = Inr m'" and "is_jump (insn_handler i)"
  shows "env_exception (env m') = env_exception (env m)"
proof (cases "insn_handler i")
  case (H_b h)
  with assms run_b_shape [of h i "env m"] show ?thesis
    by (auto simp: run_insn_def on_env_def reg_simps)
next
  case (H_jump h)
  with assms run_jump_shape [of h i "env m"] show ?thesis
    by (auto simp: run_insn_def on_env_def reg_simps)
qed (use assms in auto)

lemma run_insn_raises:
  assumes "run_insn i m = Inr m'" and "insn_raises i"
  shows "env_exception (env m') \<noteq> EXCP_NONE \<and> env_pc (env m') = insn_pc i"
proof (cases "insn_handler i")
  case (H_csr h)
  with assms show ?thesis
    by (auto simp: run_insn_def on_env_def insn_raises_def run_csr_unknown do_illegal_def)
qed (use assms in \<open>auto simp: run_insn_def on_env_def insn_raises_def do_illegal_def do_ecall_def\<close>)

text \<open>No handler clears an exception.\<close>

lemma run_insn_exception_stays:
  assumes "run_insn i m = Inr m'" and "env_exception (env m) \<noteq> EXCP_NONE"
  shows "env_exception (env m') \<noteq> EXCP_NONE"
  using assms run_insn_straight run_insn_jump_exception run_insn_raises by metis

text \<open>Register zero survives unless an instruction that writes \<open>rd\<close> names it.\<close>

lemma run_insn_zero:
  assumes "run_insn i m = Inr m'" and "writes_rd (insn_handler i) \<longrightarrow> rd i \<noteq> 0"
  shows "gpr (env m') ! 0 = gpr (env m) ! 0"
proof (cases "insn_handler i")
  case (H_r h)
  with assms show ?thesis
    by (auto simp: run_insn_def on_env_result_def bind_result_Inr reg_simps dest!: run_r_shape)
next
  case (H_i h)
  with assms show ?thesis by (auto simp: run_insn_def reg_simps dest!: run_i_shape)
next
  case (H_s h)
  with assms show ?thesis by (auto simp: run_insn_def dest!: run_s_shape)
next
  case (H_atom h)
  with assms show ?thesis
    by (auto simp: run_insn_def amo_shape_def reg_simps dest!: run_atom_shape)
next
  case (H_csr h)
  then show ?thesis
    using assms run_csr_shape [of i h "env m"] run_csr_unknown [of i h "env m"]
    by (cases "csr_known (csr i)") (auto simp: run_insn_def on_env_def reg_simps do_illegal_def)
next
  case (H_b h)
  with assms run_b_shape [of h i "env m"] show ?thesis
    by (auto simp: run_insn_def on_env_def reg_simps)
next
  case (H_jump h)
  with assms run_jump_shape [of h i "env m"] show ?thesis
    by (auto simp: run_insn_def on_env_def reg_simps)
qed (use assms in \<open>auto simp: run_insn_def on_env_def reg_simps do_empty_def do_illegal_def
      do_ecall_def do_auipc_def do_lui_def\<close>)

end
