(* ===== verification/Isa_Spec.thy ===== *)
theory Isa_Spec
  imports Cpu_Run
begin

text \<open>
  What the RISC-V specification asks of the instructions, over the integers and independent of the
  code's shifts, casts and half-word products, and how far the handlers of \<open>arch/riscv/cpu.c\<close> give it.
  \<open>r_spec\<close>, \<open>i_spec\<close>, \<open>load_spec\<close>, \<open>amo_spec\<close>, \<open>branch_taken\<close> are the specification; each \<open>*_exact\<close> lemma
  describes a whole group of handlers, the places where the code departs from the specification
  included: divisions that trap on the host, and W instructions whose result is extended with zeros.
\<close>

section \<open>Arithmetic of the specification\<close>

text \<open>The low 32 bits of a number, as the W instructions read and write them: signed and unsigned.\<close>

definition sx32 :: "int \<Rightarrow> int" where
  "sx32 k = signed_take_bit 31 k"

definition lo32 :: "u64 \<Rightarrow> int" where
  "lo32 a = uint a mod 2 ^ 32"

fun r_spec :: "r_handler \<Rightarrow> u64 \<Rightarrow> u64 \<Rightarrow> int" where
  "r_spec Do_add a b = uint a + uint b"
| "r_spec Do_sub a b = uint a - uint b"
| "r_spec Do_sll a b = uint a * 2 ^ (unat b mod 64)"
| "r_spec Do_slt a b = (if sint a < sint b then 1 else 0)"
| "r_spec Do_sltu a b = (if uint a < uint b then 1 else 0)"
| "r_spec Do_xor a b = uint a XOR uint b"
| "r_spec Do_srl a b = uint a div 2 ^ (unat b mod 64)"
| "r_spec Do_sra a b = sint a div 2 ^ (unat b mod 64)"
| "r_spec Do_or a b = uint a OR uint b"
| "r_spec Do_and a b = uint a AND uint b"
| "r_spec Do_addw a b = sx32 (uint a + uint b)"
| "r_spec Do_subw a b = sx32 (uint a - uint b)"
| "r_spec Do_sllw a b = sx32 (uint a * 2 ^ (unat b mod 32))"
| "r_spec Do_srlw a b = sx32 (lo32 a div 2 ^ (unat b mod 32))"
| "r_spec Do_sraw a b = sx32 (uint a) div 2 ^ (unat b mod 32)"
| "r_spec Do_mul a b = uint a * uint b"
| "r_spec Do_mulh a b = sint a * sint b div 2 ^ 64"
| "r_spec Do_mulhsu a b = sint a * uint b div 2 ^ 64"
| "r_spec Do_mulhu a b = uint a * uint b div 2 ^ 64"
| "r_spec Do_div a b = (if b = 0 then - 1 else sint a sdiv sint b)"
| "r_spec Do_divu a b = (if b = 0 then - 1 else uint a div uint b)"
| "r_spec Do_rem a b = (if b = 0 then sint a else sint a smod sint b)"
| "r_spec Do_remu a b = (if b = 0 then uint a else uint a mod uint b)"
| "r_spec Do_mulw a b = sx32 (uint a * uint b)"
| "r_spec Do_divw a b = (if lo32 b = 0 then - 1 else sx32 (sx32 (uint a) sdiv sx32 (uint b)))"
| "r_spec Do_divuw a b = (if lo32 b = 0 then - 1 else sx32 (lo32 a div lo32 b))"
| "r_spec Do_remw a b = (if lo32 b = 0 then sx32 (uint a) else sx32 (sx32 (uint a) smod sx32 (uint b)))"
| "r_spec Do_remuw a b = (if lo32 b = 0 then sx32 (uint a) else sx32 (lo32 a mod lo32 b))"

text \<open>The operands for which the host cannot do the division the code asks of it.\<close>

fun host_traps :: "r_handler \<Rightarrow> u64 \<Rightarrow> u64 \<Rightarrow> bool" where
  "host_traps Do_div a b = (b = 0 \<or> sint a = - (2 ^ 63) \<and> sint b = - 1)"
| "host_traps Do_rem a b = (b = 0 \<or> sint a = - (2 ^ 63) \<and> sint b = - 1)"
| "host_traps Do_divu a b = (b = 0)"
| "host_traps Do_remu a b = (b = 0)"
| "host_traps Do_divw a b = (lo32 b = 0 \<or> sx32 (uint a) = - (2 ^ 31) \<and> sx32 (uint b) = - 1)"
| "host_traps Do_remw a b = (lo32 b = 0 \<or> sx32 (uint a) = - (2 ^ 31) \<and> sx32 (uint b) = - 1)"
| "host_traps Do_divuw a b = (lo32 b = 0)"
| "host_traps Do_remuw a b = (lo32 b = 0)"
| "host_traps _ a b = False"

text \<open>The instructions whose 32-bit result the code extends with zeros.\<close>

definition zero_extended :: "r_handler \<Rightarrow> bool" where
  "zero_extended h \<longleftrightarrow> h \<in> {Do_sllw, Do_srlw, Do_divuw, Do_remuw}"

lemma unat_and_63: "unat (b AND 63 :: u64) = unat b mod 64"
proof -
  have "b AND 63 = take_bit 6 b" by (simp add: take_bit_eq_mask mask_eq_exp_minus_1)
  then show ?thesis by (simp only: unsigned_take_bit_eq take_bit_nat_def) simp
qed

lemma unat_and_31:
  "unat (b AND 31 :: u64) = unat b mod 32"
  "unat (c AND 31 :: u32) = unat c mod 32"
proof -
  have "b AND 31 = take_bit 5 b" "c AND 31 = take_bit 5 c"
    by (simp_all add: take_bit_eq_mask mask_eq_exp_minus_1)
  then show "unat (b AND 31) = unat b mod 32" "unat (c AND 31) = unat c mod 32"
    by (simp_all only: unsigned_take_bit_eq take_bit_nat_def) simp_all
qed

lemma low_word:
  fixes a :: u64
  shows "(ucast a :: u32) = word_of_int (uint a)"
    and "uint (ucast a :: u32) = lo32 a"
    and "sint (ucast a :: u32) = sx32 (uint a)"
    and "(ucast a :: u32) = 0 \<longleftrightarrow> lo32 a = 0"
proof -
  show w: "(ucast a :: u32) = word_of_int (uint a)" by simp
  show u: "uint (ucast a :: u32) = lo32 a"
    by (simp add: w unsigned_of_int lo32_def take_bit_eq_mod del: of_int_uint)
  show "sint (ucast a :: u32) = sx32 (uint a)"
    by (simp add: w signed_of_int sx32_def del: of_int_uint)
  show "(ucast a :: u32) = 0 \<longleftrightarrow> lo32 a = 0"
    unfolding u [symmetric] by (rule uint_0_iff [symmetric])
qed

lemma cast_word_of_int:
  "(ucast (word_of_int k :: u64) :: u32) = word_of_int k"
  "(scast (word_of_int k :: u32) :: u64) = word_of_int (sx32 k)"
  "(ucast (word_of_int k :: u32) :: u64) = take_bit 32 (word_of_int (sx32 k))"
proof -
  show "(ucast (word_of_int k :: u64) :: u32) = word_of_int k"
    by (rule bit_word_eqI) (simp add: bit_unsigned_iff bit_of_int_iff)
  show "(scast (word_of_int k :: u32) :: u64) = word_of_int (sx32 k)"
    by (simp add: scast_eq signed_of_int sx32_def)
  show "(ucast (word_of_int k :: u32) :: u64) = take_bit 32 (word_of_int (sx32 k))"
  proof (rule bit_word_eqI)
    fix n :: nat assume "n < LENGTH(64)"
    consider "n < 31" | "n = 31" | "31 < n" by linarith
    then show "bit (ucast (word_of_int k :: u32) :: u64) n
        = bit (take_bit 32 (word_of_int (sx32 k)) :: u64) n"
      by cases (simp_all add: bit_unsigned_iff bit_take_bit_iff bit_of_int_iff sx32_def
          bit_signed_take_bit_iff)
  qed
qed

lemma shift_word_of_int:
  fixes w :: "'a::len word"
  shows "push_bit n w = word_of_int (uint w * 2 ^ n)"
    and "drop_bit n w = word_of_int (uint w div 2 ^ n)"
    and "signed_drop_bit n w = word_of_int (sint w div 2 ^ n)"
proof -
  show "push_bit n w = word_of_int (uint w * 2 ^ n)"
    by (simp add: push_bit_eq_mult)
  show "drop_bit n w = word_of_int (uint w div 2 ^ n)"
    unfolding drop_bit_int_def [symmetric]
    by (rule bit_word_eqI) (auto simp: bit_drop_bit_eq bit_of_int_iff bit_uint_iff dest: bit_imp_le_length)
  show "signed_drop_bit n w = word_of_int (sint w div 2 ^ n)"
    by (metis drop_bit_int_def sint_signed_drop_bit_eq of_int_sint scast_id)
qed

lemma arith_word_of_int:
  fixes a b :: "'a::len word"
  shows "a + b = word_of_int (uint a + uint b)" and "a - b = word_of_int (uint a - uint b)"
    and "a * b = word_of_int (uint a * uint b)"
    and "a AND b = word_of_int (uint a AND uint b)" and "a OR b = word_of_int (uint a OR uint b)"
    and "a XOR b = word_of_int (uint a XOR uint b)"
    and "a div b = word_of_int (uint a div uint b)" and "a mod b = word_of_int (uint a mod uint b)"
proof -
  show "a div b = word_of_int (uint a div uint b)" "a mod b = word_of_int (uint a mod uint b)"
    by (metis uint_div uint_mod word_of_int_uint)+
  show "a AND b = word_of_int (uint a AND uint b)" "a OR b = word_of_int (uint a OR uint b)"
    "a XOR b = word_of_int (uint a XOR uint b)"
    by (rule bit_word_eqI, simp add: bit_of_int_iff bit_simps bit_uint_iff)+
qed simp_all

lemma multiplied_high:
  "fst (wmulu a b) = word_of_int (uint a * uint b div 2 ^ 64)"
  by (metis wmulu_hi_int word_of_int_uint)

lemma host_division:
  fixes a b :: u64
  shows "host_sdiv a b = (if b = 0 \<or> sint a = - (2 ^ 63) \<and> sint b = - 1 then Inl Sigfpe
      else Inr (word_of_int (sint a sdiv sint b)))"
    and "host_smod a b = (if b = 0 \<or> sint a = - (2 ^ 63) \<and> sint b = - 1 then Inl Sigfpe
      else Inr (word_of_int (sint a smod sint b)))"
    and "host_udiv a b = (if b = 0 then Inl Sigfpe else Inr (word_of_int (uint a div uint b)))"
    and "host_umod a b = (if b = 0 then Inl Sigfpe else Inr (word_of_int (uint a mod uint b)))"
  by (simp_all add: host_sdiv_def host_smod_def host_udiv_def host_umod_def
      arith_word_of_int(7,8) [symmetric])

lemma host_division_w:
  fixes a b :: u64
  shows "host_sdiv (ucast a :: u32) (ucast b) =
      (if lo32 b = 0 \<or> sx32 (uint a) = - (2 ^ 31) \<and> sx32 (uint b) = - 1 then Inl Sigfpe
       else Inr (word_of_int (sx32 (uint a) sdiv sx32 (uint b))))"
    and "host_smod (ucast a :: u32) (ucast b) =
      (if lo32 b = 0 \<or> sx32 (uint a) = - (2 ^ 31) \<and> sx32 (uint b) = - 1 then Inl Sigfpe
       else Inr (word_of_int (sx32 (uint a) smod sx32 (uint b))))"
    and "host_udiv (ucast a :: u32) (ucast b) =
      (if lo32 b = 0 then Inl Sigfpe else Inr (word_of_int (lo32 a div lo32 b)))"
    and "host_umod (ucast a :: u32) (ucast b) =
      (if lo32 b = 0 then Inl Sigfpe else Inr (word_of_int (lo32 a mod lo32 b)))"
  by (simp_all add: host_sdiv_def host_smod_def host_udiv_def host_umod_def
      arith_word_of_int(7,8) low_word(2-4) del: of_int_uint)

lemmas run_r_defs = do_add_def do_sub_def do_sll_def do_slt_def do_sltu_def do_xor_def do_srl_def
  do_sra_def do_or_def do_and_def do_addw_def do_subw_def do_sllw_def do_srlw_def do_sraw_def
  do_mul_def do_mulh_def do_mulhsu_def do_mulhu_def do_div_def do_divu_def do_rem_def
  do_remu_def do_mulw_def do_divw_def do_divuw_def do_remw_def do_remuw_def

definition r_value :: "r_handler \<Rightarrow> u64 \<Rightarrow> u64 \<Rightarrow> u64" where
  "r_value h a b = (let v = word_of_int (r_spec h a b) in if zero_extended h then take_bit 32 v else v)"

lemma w_arith:
  fixes a b :: u64
  shows "(scast (ucast (a + b) :: u32) :: u64) = word_of_int (sx32 (uint a + uint b))"
    and "(scast (ucast (a - b) :: u32) :: u64) = word_of_int (sx32 (uint a - uint b))"
    and "(scast (ucast (a * b) :: u32) :: u64) = word_of_int (sx32 (uint a * uint b))"
  unfolding arith_word_of_int(1-3) cast_word_of_int by (rule refl)+

lemma w_shift:
  fixes a :: u64
  shows "(ucast (push_bit n (ucast a :: u32)) :: u64)
           = take_bit 32 (word_of_int (sx32 (uint a * 2 ^ n)))"
    and "(ucast (drop_bit n (ucast a :: u32)) :: u64)
           = take_bit 32 (word_of_int (sx32 (lo32 a div 2 ^ n)))"
    and "(scast (signed_drop_bit n (ucast a :: u32)) :: u64)
           = word_of_int (sx32 (uint a) div 2 ^ n)"
proof -
  have "push_bit n (ucast a :: u32) = word_of_int (uint a * 2 ^ n)"
    by (simp add: push_bit_eq_mult)
  then show "(ucast (push_bit n (ucast a :: u32)) :: u64)
      = take_bit 32 (word_of_int (sx32 (uint a * 2 ^ n)))"
    by (simp only: cast_word_of_int)
  show "(ucast (drop_bit n (ucast a :: u32)) :: u64)
      = take_bit 32 (word_of_int (sx32 (lo32 a div 2 ^ n)))"
    unfolding shift_word_of_int(2) low_word(2) cast_word_of_int ..
  show "(scast (signed_drop_bit n (ucast a :: u32)) :: u64) = word_of_int (sx32 (uint a) div 2 ^ n)"
    unfolding scast_eq sint_signed_drop_bit_eq low_word(3) drop_bit_int_def ..
qed

lemmas spec_simps = r_value_def zero_extended_def Let_def unat_and_63 unat_and_31
  wmul_hi wmulsu_hi multiplied_high host_division host_division_w w_arith w_shift

lemma run_r_exact:
  "run_r h i e =
     (if host_traps h (reg e (rs1 i)) (reg e (rs2 i)) then Inl Sigfpe
      else Inr (set_reg (rd i) (r_value h (reg e (rs1 i)) (reg e (rs2 i))) e))"
proof -
  let ?a = "reg e (rs1 i)" and ?b = "reg e (rs2 i)"
  have slt: "?a <s ?b \<longleftrightarrow> sint ?a < sint ?b" by (simp add: word_sless_alt)
  have ult: "?a < ?b \<longleftrightarrow> uint ?a < uint ?b" by (simp add: word_less_def)
  have bw: "word_of_int (uint ?a AND uint ?b) = ?a AND ?b" "word_of_int (uint ?a OR uint ?b) = ?a OR ?b"
    "word_of_int (uint ?a XOR uint ?b) = ?a XOR ?b"
    by (simp_all only: arith_word_of_int(4-6))
  have sh: "push_bit n ?a = word_of_int (uint ?a * 2 ^ n)" "drop_bit n ?a = word_of_int (uint ?a div 2 ^ n)"
    "signed_drop_bit n ?a = word_of_int (sint ?a div 2 ^ n)" for n
    by (rule shift_word_of_int)+
  show ?thesis
    by (cases h; simp only: run_r.simps run_r_defs spec_simps) (simp_all add: bw slt ult sh spec_simps cast_word_of_int)
qed

section \<open>Immediate operations\<close>

fun i_spec :: "i_handler \<Rightarrow> u64 \<Rightarrow> int \<Rightarrow> int" where
  "i_spec Do_addi a k = uint a + k"
| "i_spec Do_slti a k = (if sint a < k then 1 else 0)"
| "i_spec Do_sltiu a k = (if uint a < k mod 2 ^ 64 then 1 else 0)"
| "i_spec Do_xori a k = uint a XOR k"
| "i_spec Do_ori a k = uint a OR k"
| "i_spec Do_andi a k = uint a AND k"
| "i_spec Do_slli a k = uint a * 2 ^ nat (k mod 64)"
| "i_spec Do_srli a k = uint a div 2 ^ nat (k mod 64)"
| "i_spec Do_srai a k = sint a div 2 ^ nat (k mod 64)"
| "i_spec Do_addiw a k = sx32 (uint a + k)"
| "i_spec Do_slliw a k = sx32 (uint a * 2 ^ nat (k mod 32))"
| "i_spec Do_srliw a k = sx32 (lo32 a div 2 ^ nat (k mod 32))"
| "i_spec Do_sraiw a k = sx32 (uint a) div 2 ^ nat (k mod 32)"
| "i_spec _ a k = 0"

definition zero_extended_i :: "i_handler \<Rightarrow> bool" where
  "zero_extended_i h \<longleftrightarrow> h \<in> {Do_slliw, Do_srliw}"

definition i_value :: "i_handler \<Rightarrow> u64 \<Rightarrow> int \<Rightarrow> u64" where
  "i_value h a k =
     (let v = word_of_int (i_spec h a k) in if zero_extended_i h then take_bit 32 v else v)"

definition is_load :: "i_handler \<Rightarrow> bool" where
  "is_load h \<longleftrightarrow> h \<in> {Do_lb, Do_lh, Do_lw, Do_ld, Do_lbu, Do_lhu, Do_lwu}"

lemma simm_int: "simm i = word_of_int (sint (imm i))" "sint (simm i) = sint (imm i)"
proof -
  show "simm i = word_of_int (sint (imm i))" by (simp add: simm_def)
  have "is_up (scast :: u32 \<Rightarrow> u64)" by (simp add: is_up.rep_eq)
  then show "sint (simm i) = sint (imm i)" unfolding simm_def by (rule sint_up_scast)
qed

lemma unat_low_bits:
  assumes "n \<le> LENGTH('a)"
  shows "unat (take_bit n (word_of_int k :: 'a::len word)) = nat (k mod 2 ^ n)"
proof -
  have "uint (take_bit n (word_of_int k :: 'a word)) = take_bit n k"
    using assms by (simp add: unsigned_take_bit_eq unsigned_of_int min_def)
  then show ?thesis
    by (simp only: unat_eq_nat_uint) (simp add: take_bit_eq_mod)
qed

lemma shamt: "unat (simm i AND 63) = nat (sint (imm i) mod 64)"
  "unat (imm i AND 31) = nat (sint (imm i) mod 32)"
proof -
  have "simm i AND 63 = take_bit 6 (simm i)" "imm i AND 31 = take_bit 5 (imm i)"
    by (simp_all add: take_bit_eq_mask mask_eq_exp_minus_1)
  then have m: "simm i AND 63 = take_bit 6 (word_of_int (sint (imm i)))"
    "imm i AND 31 = take_bit 5 (word_of_int (sint (imm i)))"
    by (simp_all add: simm_int(1))
  show "unat (simm i AND 63) = nat (sint (imm i) mod 64)"
    unfolding m using unat_low_bits [where 'a = 64, of 6 "sint (imm i)"]
    by (simp del: of_int_sint)
  show "unat (imm i AND 31) = nat (sint (imm i) mod 32)"
    unfolding m using unat_low_bits [where 'a = 32, of 5 "sint (imm i)"]
    by (simp del: of_int_sint)
qed

lemma run_i_exact:
  assumes "\<not> is_load h"
  shows "run_i h i m =
    Inr (m\<lparr>env := set_reg (rd i) (i_value h (reg (env m) (rs1 i)) (sint (imm i))) (env m)\<rparr>)"
proof -
  let ?a = "reg (env m) (rs1 i)"
  have slt: "?a <s simm i \<longleftrightarrow> sint ?a < sint (imm i)" by (simp add: word_sless_alt simm_int(2))
  have "uint (simm i) = sint (imm i) mod 2 ^ 64"
    by (simp add: simm_int(1) unsigned_of_int take_bit_eq_mod del: of_int_sint)
  then have ult: "?a < simm i \<longleftrightarrow> uint ?a < sint (imm i) mod 2 ^ 64" by (simp add: word_less_def)
  have bw: "?a XOR simm i = word_of_int (uint ?a XOR sint (imm i))"
    "?a OR simm i = word_of_int (uint ?a OR sint (imm i))"
    "?a AND simm i = word_of_int (uint ?a AND sint (imm i))"
    unfolding simm_int(1)
    by (rule bit_word_eqI, simp add: bit_of_int_iff bit_simps bit_uint_iff)+
  have addw: "(scast (ucast (?a + simm i) :: u32) :: u64) = word_of_int (sx32 (uint ?a + sint (imm i)))"
  proof -
    have "?a + simm i = word_of_int (uint ?a + sint (imm i))" by (simp add: simm_int(1))
    then show ?thesis by (simp only: cast_word_of_int)
  qed
  show ?thesis
    using assms
    by (cases h; simp only: run_i.simps do_imm_defs is_load_def on_env_def Let_def shamt slt ult bw
        addw w_shift i_value_def zero_extended_i_def i_spec.simps
        shift_word_of_int(1) [of _ ?a] shift_word_of_int(2) [of _ ?a] shift_word_of_int(3) [of _ ?a])
      (simp_all add: simm_def)
qed

section \<open>Loads and stores\<close>

fun load_width :: "i_handler \<Rightarrow> nat" where
  "load_width Do_lb = 1"
| "load_width Do_lbu = 1"
| "load_width Do_lh = 2"
| "load_width Do_lhu = 2"
| "load_width Do_lw = 4"
| "load_width Do_lwu = 4"
| "load_width _ = 8"

definition load_signed :: "i_handler \<Rightarrow> bool" where
  "load_signed h \<longleftrightarrow> h \<in> {Do_lb, Do_lh, Do_lw, Do_ld}"

text \<open>The little-endian number in memory, read as signed or unsigned at the width of the load.\<close>

definition load_spec :: "i_handler \<Rightarrow> u64 \<Rightarrow> int" where
  "load_spec h v = (let k = uint v mod 2 ^ (8 * load_width h) in
     if load_signed h then signed_take_bit (8 * load_width h - 1) k else k)"

fun store_width :: "s_handler \<Rightarrow> nat" where
  "store_width Do_sb = 1"
| "store_width Do_sh = 2"
| "store_width Do_sw = 4"
| "store_width Do_sd = 8"

definition eff_addr :: "insn_t \<Rightarrow> machine \<Rightarrow> u64" where
  "eff_addr i m = g2h (guest_base m) (reg (env m) (rs1 i) + simm i)"

lemma ucast_low:
  assumes "LENGTH('a) \<le> 64"
  shows "(ucast (ucast (v :: u64) :: 'a::len word) :: u64) = word_of_int (uint v mod 2 ^ LENGTH('a))"
  using assms
  by (intro bit_word_eqI)
    (auto simp: bit_unsigned_iff bit_of_int_iff take_bit_eq_mod [symmetric] bit_take_bit_iff bit_uint_iff)

lemma scast_low:
  "(scast (ucast (v :: u64) :: 'a::len word) :: u64)
     = word_of_int (signed_take_bit (LENGTH('a) - 1) (uint v mod 2 ^ LENGTH('a)))"
proof -
  have "(ucast v :: 'a word) = word_of_int (uint v)" by simp
  then have "sint (ucast v :: 'a word) = signed_take_bit (LENGTH('a) - 1) (uint v)"
    by (simp only: signed_of_int) simp
  also have "\<dots> = signed_take_bit (LENGTH('a) - 1) (uint v mod 2 ^ LENGTH('a))"
    unfolding take_bit_eq_mod [symmetric] signed_take_bit_take_bit by simp
  finally show ?thesis by (simp only: scast_eq)
qed

lemma run_load_exact:
  assumes "is_load h"
  shows "run_i h i m =
    (case host_load (mem m) (eff_addr i m) (load_width h) of
       None \<Rightarrow> Inl (Segv Guest_access)
     | Some v \<Rightarrow> Inr (m\<lparr>env := set_reg (rd i) (word_of_int (load_spec h v)) (env m)\<rparr>))"
proof -
  have full: "word_of_int (signed_take_bit 63 (uint v mod 18446744073709551616)) = v" for v :: u64
    using scast_low [where 'a = 64, of v] by simp
  show ?thesis
    using assms
    by (cases h) (simp_all add: is_load_def do_load_defs cpu_ld_defs load_rd_def eff_addr_def
        ucast_low scast_low load_spec_def load_signed_def full split: option.split)
qed

lemma le_bytes_take_bit: "le_bytes n (take_bit (8 * n) v) = le_bytes n v"
proof -
  have "ucast (drop_bit (8 * i) (take_bit (8 * n) v)) = (ucast (drop_bit (8 * i) v) :: u8)"
    if "i < n" for i
    using that by (intro bit_word_eqI) (auto simp: bit_simps)
  then show ?thesis by (simp add: le_bytes_def)
qed

lemma host_store_cast:
  "host_store m a 1 (ucast (ucast v :: u8)) = host_store m a 1 v"
  "host_store m a 2 (ucast (ucast v :: u16)) = host_store m a 2 v"
  "host_store m a 4 (ucast (ucast v :: u32)) = host_store m a 4 v"
proof -
  have "ucast (ucast v :: u8) = take_bit (8 * 1) v" "ucast (ucast v :: u16) = take_bit (8 * 2) v"
    "ucast (ucast v :: u32) = take_bit (8 * 4) v"
    by (rule bit_word_eqI, simp add: bit_unsigned_iff bit_take_bit_iff)+
  then show "host_store m a 1 (ucast (ucast v :: u8)) = host_store m a 1 v"
    "host_store m a 2 (ucast (ucast v :: u16)) = host_store m a 2 v"
    "host_store m a 4 (ucast (ucast v :: u32)) = host_store m a 4 v"
    by (simp_all only: host_store_def le_bytes_take_bit)
qed

lemma run_store_exact:
  "run_s h i m =
    (case host_store (mem m) (eff_addr i m) (store_width h) (reg (env m) (rs2 i)) of
       None \<Rightarrow> Inl (Segv Guest_access)
     | Some hm \<Rightarrow> Inr (m\<lparr>mem := hm\<rparr>))"
  by (cases h)
    (simp_all add: do_store_defs store_to_def cpu_st_defs eff_addr_def host_store_cast host_store_cast [simplified]
      split: option.split)

section \<open>Atomic memory operations\<close>

fun amo_width :: "atom_handler \<Rightarrow> nat" where
  "amo_width Do_lr_d = 8"
| "amo_width Do_sc_d = 8"
| "amo_width Do_amoadd_d = 8"
| "amo_width Do_amoswap_d = 8"
| "amo_width Do_amoxor_d = 8"
| "amo_width Do_amoor_d = 8"
| "amo_width Do_amoand_d = 8"
| "amo_width Do_amomin_d = 8"
| "amo_width Do_amomax_d = 8"
| "amo_width Do_amominu_d = 8"
| "amo_width Do_amomaxu_d = 8"
| "amo_width _ = 4"

text \<open>What the operation leaves in memory, from the old value and the operand.\<close>

fun amo_spec :: "atom_handler \<Rightarrow> u64 \<Rightarrow> u64 \<Rightarrow> u64" where
  "amo_spec Do_amoadd_w old v = old + v"
| "amo_spec Do_amoswap_w old v = v"
| "amo_spec Do_amoxor_w old v = old XOR v"
| "amo_spec Do_amoor_w old v = old OR v"
| "amo_spec Do_amoand_w old v = old AND v"
| "amo_spec Do_amomin_w old v = (if sx32 (uint old) \<le> sx32 (uint v) then old else v)"
| "amo_spec Do_amomax_w old v = (if sx32 (uint v) \<le> sx32 (uint old) then old else v)"
| "amo_spec Do_amominu_w old v = (if lo32 old \<le> lo32 v then old else v)"
| "amo_spec Do_amomaxu_w old v = (if lo32 v \<le> lo32 old then old else v)"
| "amo_spec Do_amoadd_d old v = old + v"
| "amo_spec Do_amoswap_d old v = v"
| "amo_spec Do_amoxor_d old v = old XOR v"
| "amo_spec Do_amoor_d old v = old OR v"
| "amo_spec Do_amoand_d old v = old AND v"
| "amo_spec Do_amomin_d old v = (if sint old \<le> sint v then old else v)"
| "amo_spec Do_amomax_d old v = (if sint v \<le> sint old then old else v)"
| "amo_spec Do_amominu_d old v = (if uint old \<le> uint v then old else v)"
| "amo_spec Do_amomaxu_d old v = (if uint v \<le> uint old then old else v)"
| "amo_spec _ old v = old"

definition is_amo :: "atom_handler \<Rightarrow> bool" where
  "is_amo h \<longleftrightarrow> h \<notin> {Do_lr_w, Do_lr_d, Do_sc_w, Do_sc_d}"

lemma amo_rd_rmw:
  "amo_rd i n (atomic_rmw (mem m) p k f) m =
    (case host_load (mem m) p k of None \<Rightarrow> Inl (Segv Guest_access)
     | Some old \<Rightarrow>
         (case host_store (mem m) p k (f old) of None \<Rightarrow> Inl (Segv Guest_access)
          | Some hm \<Rightarrow> Inr (m\<lparr>mem := hm, env := set_reg (rd i) (amo_result n old) (env m)\<rparr>)))"
  by (simp add: amo_rd_def atomic_rmw_def split: option.split)

lemma low_equal:
  assumes "(ucast a :: u32) = ucast b"
  shows "host_store m p 4 a = host_store m p 4 b"
  using assms by (metis host_store_cast(3))

lemma pick_w:
  fixes old v :: u64
  shows "host_store m p 4 (ucast (if (ucast old :: u32) <s ucast v then (ucast old :: u32) else ucast v))
      = host_store m p 4 (amo_spec Do_amomin_w old v)"
    and "host_store m p 4 (ucast (if (ucast v :: u32) <s ucast old then (ucast old :: u32) else ucast v))
      = host_store m p 4 (amo_spec Do_amomax_w old v)"
    and "host_store m p 4 (ucast (if (ucast old :: u32) < ucast v then (ucast old :: u32) else ucast v))
      = host_store m p 4 (amo_spec Do_amominu_w old v)"
    and "host_store m p 4 (ucast (if (ucast old :: u32) > ucast v then (ucast old :: u32) else ucast v))
      = host_store m p 4 (amo_spec Do_amomaxu_w old v)"
proof -
  have s: "sx32 (uint old) = sx32 (uint v) \<Longrightarrow> host_store m p 4 old = host_store m p 4 v"
    by (rule low_equal) (simp add: low_word(3) [symmetric] signed_word_eqI)
  have u: "lo32 old = lo32 v \<Longrightarrow> host_store m p 4 old = host_store m p 4 v"
    by (rule low_equal) (simp add: low_word(2) [symmetric] word_uint_eqI)
  show "host_store m p 4 (ucast (if (ucast old :: u32) <s ucast v then (ucast old :: u32) else ucast v))
      = host_store m p 4 (amo_spec Do_amomin_w old v)"
    "host_store m p 4 (ucast (if (ucast v :: u32) <s ucast old then (ucast old :: u32) else ucast v))
      = host_store m p 4 (amo_spec Do_amomax_w old v)"
    using s by (auto simp: word_sless_alt low_word(3) host_store_cast)
  show "host_store m p 4 (ucast (if (ucast old :: u32) < ucast v then (ucast old :: u32) else ucast v))
      = host_store m p 4 (amo_spec Do_amominu_w old v)"
    "host_store m p 4 (ucast (if (ucast old :: u32) > ucast v then (ucast old :: u32) else ucast v))
      = host_store m p 4 (amo_spec Do_amomaxu_w old v)"
    using u by (auto simp: word_less_def low_word(2) host_store_cast)
qed

lemma pick_d:
  fixes old v :: u64
  shows "(if old <s v then old else v) = amo_spec Do_amomin_d old v"
    and "(if v <s old then old else v) = amo_spec Do_amomax_d old v"
    and "(if old < v then old else v) = amo_spec Do_amominu_d old v"
    and "(if old > v then old else v) = amo_spec Do_amomaxu_d old v"
  by (auto simp: word_sless_alt word_less_def dest: signed_word_eqI [of old v] signed_word_eqI [of v old] intro: word_uint_eqI)

lemmas run_amo_defs =
  do_amoadd_w_def do_amoswap_w_def do_amoxor_w_def do_amoor_w_def do_amoand_w_def
  do_amomin_w_def do_amomax_w_def do_amominu_w_def do_amomaxu_w_def
  do_amoadd_d_def do_amoswap_d_def do_amoxor_d_def do_amoor_d_def do_amoand_d_def
  do_amomin_d_def do_amomax_d_def do_amominu_d_def do_amomaxu_d_def
  atomic_add_def atomic_xchg_def atomic_xor_def atomic_or_def atomic_and_def
  amo_rd_rmw amo_ptr_def amo_arg_def

lemma amo_select_exact:
  "amo_select_w i pick m =
    (let p = g2h (guest_base m) (reg (env m) (rs1 i)) in
     case host_load (mem m) p 4 of None \<Rightarrow> Inl (Segv Guest_access)
     | Some old \<Rightarrow>
         (case host_store (mem m) p 4 (ucast (pick (ucast old) (ucast (reg (env m) (rs2 i))))) of
            None \<Rightarrow> Inl (Segv Guest_access)
          | Some hm \<Rightarrow> Inr (m\<lparr>mem := hm, env := set_reg (rd i) (amo_result 4 old) (env m)\<rparr>)))"
  "amo_select_d i pick' m =
    (let p = g2h (guest_base m) (reg (env m) (rs1 i)) in
     case host_load (mem m) p 8 of None \<Rightarrow> Inl (Segv Guest_access)
     | Some old \<Rightarrow>
         (case host_store (mem m) p 8 (pick' old (reg (env m) (rs2 i))) of
            None \<Rightarrow> Inl (Segv Guest_access)
          | Some hm \<Rightarrow> Inr (m\<lparr>mem := hm, env := set_reg (rd i) (amo_result 8 old) (env m)\<rparr>)))"
  by (auto simp: amo_select_w_def amo_select_d_def cpu_lduw_def cpu_ldud_def atomic_xchg_def
      amo_rd_rmw amo_ptr_def amo_arg_def Let_def split: option.splits)

lemma run_amo_exact:
  assumes "is_amo h"
  shows "run_atom h i m =
    (let p = g2h (guest_base m) (reg (env m) (rs1 i)); n = amo_width h in
     case host_load (mem m) p n of None \<Rightarrow> Inl (Segv Guest_access)
     | Some old \<Rightarrow>
         (case host_store (mem m) p n (amo_spec h old (reg (env m) (rs2 i))) of
            None \<Rightarrow> Inl (Segv Guest_access)
          | Some hm \<Rightarrow> Inr (m\<lparr>mem := hm, env := set_reg (rd i) (amo_result n old) (env m)\<rparr>)))"
  using assms
  by (cases h; hypsubst)
    (simp_all add: is_amo_def Let_def run_amo_defs amo_select_exact pick_w pick_d cong: option.case_cong
      del: amo_spec.simps(6-9,15-18))

section \<open>Branches and jumps\<close>

fun branch_taken :: "b_handler \<Rightarrow> u64 \<Rightarrow> u64 \<Rightarrow> bool" where
  "branch_taken Do_beq a b = (uint a = uint b)"
| "branch_taken Do_bne a b = (uint a \<noteq> uint b)"
| "branch_taken Do_blt a b = (sint a < sint b)"
| "branch_taken Do_bge a b = (sint a \<ge> sint b)"
| "branch_taken Do_bltu a b = (uint a < uint b)"
| "branch_taken Do_bgeu a b = (uint a \<ge> uint b)"
| "branch_taken Do_c_beq a b = (uint a = uint b)"
| "branch_taken Do_c_bne a b = (uint a \<noteq> uint b)"

lemma run_b_exact:
  "run_b h i e = set_pc (insn_pc i +
     (if branch_taken h (reg e (rs1 i)) (reg e (rs2 i)) then simm i else b_len h)) e"
  by (cases h) (simp_all add: do_beq_def do_bne_def do_blt_def do_bge_def do_bltu_def do_bgeu_def
      do_c_beq_def do_c_bne_def word_uint_eq_iff [symmetric] word_sless_alt word_sle_eq word_less_def word_le_def)

text \<open>
  The specification computes the target of \<open>jalr\<close> from the old value of \<open>rs1\<close>.  The code has already
  stored the link when it reads \<open>rs1\<close>, so the two agree unless \<open>rd\<close> and \<open>rs1\<close> are the same register.
\<close>

definition jalr_target :: "insn_t \<Rightarrow> state_t \<Rightarrow> u64" where
  "jalr_target i e = (reg e (rs1 i) + simm i) AND - 2"

lemma do_jalr_exact:
  assumes "unat (rd i) < length (gpr e)"
  shows "env_pc (do_jalr i e) =
    (if rd i \<noteq> 0 \<and> rd i = rs1 i then (insn_pc i + 4 + simm i) AND - 2 else jalr_target i e)"
  using assms by (auto simp: do_jalr_def jalr_target_def Let_def reg_simps)

section \<open>Control and status registers\<close>

text \<open>What the instruction leaves in the register, from the old value and the source operand.\<close>

fun csr_new :: "csr_handler \<Rightarrow> u64 \<Rightarrow> u64 \<Rightarrow> u64" where
  "csr_new Do_csrrw old v = v"
| "csr_new Do_csrrwi old v = v"
| "csr_new Do_csrrs old v = old OR v"
| "csr_new Do_csrrsi old v = old OR v"
| "csr_new Do_csrrc old v = old AND NOT v"
| "csr_new Do_csrrci old v = old AND NOT v"

definition csr_source :: "csr_handler \<Rightarrow> insn_t \<Rightarrow> state_t \<Rightarrow> u64" where
  "csr_source h i e = (if h = Do_csrrw \<or> h = Do_csrrs \<or> h = Do_csrrc then reg e (rs1 i) else scast (rs1 i))"

lemma run_csr_exact:
  assumes "read_csr e (csr i) = Some old"
  shows "run_csr h i e =
    set_reg (rd i) old (the (write_csr e (csr i) (csr_new h old (csr_source h i e))))"
proof -
  have masks: "(a AND NOT (- 1)) OR (v AND - 1) = v" "(a AND NOT v) OR (- 1 AND v) = a OR v"
    "(a AND NOT v) OR (0 AND v) = a AND NOT v" for a v :: u64
    by (rule bit_word_eqI; auto simp: bit_simps)+
  have w: "write_csr e (csr i) v \<noteq> None" for v
    using assms by (simp add: read_csr_def write_csr_def split: if_splits)
  have run: "csr_to_rd i e (rmw_csr e (csr i) v k) =
      set_reg (rd i) old (the (write_csr e (csr i) ((old AND NOT k) OR (v AND k))))" for v k
    using assms w [of "(old AND NOT k) OR (v AND k)"]
    by (auto simp: rmw_csr_def csr_to_rd_def Let_def)
  show ?thesis
    by (cases h) (simp_all only: run_csr.simps do_csr_defs csr_source_def run masks csr_new.simps
        csr_handler.distinct refl if_True if_False simp_thms)
qed

end
