(* ===== verification/Handler_Properties.thy ===== *)
theory Handler_Properties
  imports Isa_Spec
begin

text \<open>
  The properties of the instruction handlers: what each group computes, compared with the
  specification of \<open>Isa_Spec\<close>, which accesses fault, and where the code departs from the
  specification.  Each property with hypotheses is followed by a concrete instance.
\<close>

section \<open>A concrete machine for the instances\<close>

definition demo_env :: state_t where
  "demo_env = zero_env\<lparr>gpr := [0, 7, 5, 0x80000001, - 1] @ replicate 27 0, env_exception := EXCP_NONE\<rparr>"

definition demo_insn :: insn_t where
  "demo_insn = zero_insn\<lparr>rd := 6, rs1 := 1, rs2 := 2, imm := 12, insn_pc := 0x1000\<rparr>"

text \<open>A page of readable and writable zero bytes at 0x2000, readable only below it.\<close>

definition demo_mem :: host_mem where
  "demo_mem = \<lparr>hbytes = \<lambda>_. 0, hread = \<lambda>a. a < 0x3000, hwrite = \<lambda>a. 0x2000 \<le> a \<and> a < 0x3000\<rparr>"

definition demo :: machine where
  "demo = \<lparr>env = demo_env, mem = demo_mem, guest_base = 0x2000\<rparr>"

lemma demo_regs [simp]:
  "length (gpr demo_env) = 32" "reg demo_env 1 = 7" "reg demo_env 2 = 5" "reg demo_env 3 = 0x80000001"
  "reg demo_env 4 = - 1" "reg demo_env 6 = 0" "reg demo_env 0 = 0"
  "rd demo_insn = 6" "rs1 demo_insn = 1" "rs2 demo_insn = 2" "imm demo_insn = 12" "insn_pc demo_insn = 0x1000"
  by (simp_all add: demo_env_def demo_insn_def reg_def)

lemma demo_sel [simp]:
  "env demo = demo_env" "mem demo = demo_mem" "guest_base demo = 0x2000"
  "hbytes demo_mem a = 0" "hread demo_mem a \<longleftrightarrow> a < 0x3000"
  "hwrite demo_mem a \<longleftrightarrow> 0x2000 \<le> a \<and> a < 0x3000"
  by (simp_all add: demo_def demo_mem_def)

lemma env_update_inject [simp]: "m\<lparr>env := a\<rparr> = m\<lparr>env := b\<rparr> \<longleftrightarrow> a = b" for m :: machine
  by (cases m) simp

lemma uint_of_int:
  "uint (word_of_int k :: u64) = k mod 2 ^ 64" "uint (take_bit 32 (word_of_int k :: u64)) = k mod 2 ^ 32"
proof -
  show "uint (word_of_int k :: u64) = k mod 2 ^ 64" by (simp add: unsigned_of_int take_bit_eq_mod)
  have "uint (take_bit 32 (word_of_int k :: u64)) = take_bit 32 (take_bit 64 k)"
    by (simp only: unsigned_take_bit_eq unsigned_of_int) simp
  also have "\<dots> = take_bit 32 k" by simp
  finally show "uint (take_bit 32 (word_of_int k :: u64)) = k mod 2 ^ 32"
    by (simp only: take_bit_eq_mod)
qed

lemma all_less_4: "(\<forall>k<4::nat. P k) \<longleftrightarrow> P 0 \<and> P 1 \<and> P 2 \<and> P 3"
  by (auto simp: less_Suc_eq numeral_eq_Suc)

lemma upt_4: "[0..<4] = [0, 1, 2, 3]"
  by (simp add: upt_rec)

section \<open>Register-register instructions\<close>

text \<open>
  C14: Every register-register instruction of RV64IM outside the four that extend a 32-bit
  result with zeros writes the value of the specification to \<open>rd\<close> and changes nothing else, as long as
  the host can do the division it needs.
\<close>

theorem r_ops_follow_isa:
  assumes "\<not> zero_extended h" and "\<not> host_traps h (reg e (rs1 i)) (reg e (rs2 i))"
    and "unat (rd i) < length (gpr e)"
  shows "\<exists>e'. run_r h i e = Inr e' \<and>
    uint (reg e' (rd i)) = r_spec h (reg e (rs1 i)) (reg e (rs2 i)) mod 2 ^ 64 \<and>
    (\<forall>r. r \<noteq> rd i \<longrightarrow> reg e' r = reg e r) \<and> env_pc e' = env_pc e \<and> env_exception e' = env_exception e"
  using assms
  by (simp add: run_r_exact r_value_def reg_simps unsigned_of_int take_bit_eq_mod)

theorem r_ops_follow_isa_witness:
  "\<exists>e'. run_r Do_sub demo_insn demo_env = Inr e' \<and> uint (reg e' 6) = 2 \<and> reg e' 1 = 7"
  using r_ops_follow_isa [of Do_sub demo_env demo_insn] by (auto simp: zero_extended_def)

text \<open>
  C15: \<open>sllw\<close>, \<open>srlw\<close>, \<open>divuw\<close> and \<open>remuw\<close> do not sign-extend their 32-bit result:
  the register is right exactly when bit 31 of the result is clear.
\<close>

theorem w_results_zero_extended:
  assumes "zero_extended h" and "\<not> host_traps h (reg e (rs1 i)) (reg e (rs2 i))"
    and "unat (rd i) < length (gpr e)"
  shows "\<exists>e'. run_r h i e = Inr e' \<and>
    uint (reg e' (rd i)) = r_spec h (reg e (rs1 i)) (reg e (rs2 i)) mod 2 ^ 32 \<and>
    (uint (reg e' (rd i)) = r_spec h (reg e (rs1 i)) (reg e (rs2 i)) mod 2 ^ 64 \<longleftrightarrow>
     \<not> bit (reg e' (rd i)) 31)"
proof -
  let ?a = "reg e (rs1 i)" and ?b = "reg e (rs2 i)"
  let ?v = "word_of_int (r_spec h ?a ?b) :: u64"
  have "(if c then - 1 else sx32 x) = sx32 (if c then - 1 else x)"
    "(if c then sx32 y else sx32 x) = sx32 (if c then y else x)" for c x y
    by (simp_all add: sx32_def)
  then have "\<exists>k. r_spec h ?a ?b = sx32 k"
    using assms(1) by (cases h) (auto simp: zero_extended_def simp del: if_split)
  then obtain k where k: "r_spec h ?a ?b = sx32 k" ..
  have sx: "bit ?v n = bit ?v 31" if "31 \<le> n" "n < 64" for n
    using k that by (auto simp: bit_of_int_iff sx32_def bit_signed_take_bit_iff)
  have "take_bit 32 ?v = ?v \<longleftrightarrow> \<not> bit ?v 31"
  proof
    assume "take_bit 32 ?v = ?v"
    then have "bit (take_bit 32 ?v) 32 = bit ?v 32" by simp
    then show "\<not> bit ?v 31" using sx [of 32] by (simp add: bit_take_bit_iff)
  next
    assume "\<not> bit ?v 31"
    then have "bit (take_bit 32 ?v) n = bit ?v n" if "n < 64" for n
      using sx [of n] that by (cases "n < 32") (auto simp: bit_take_bit_iff)
    then show "take_bit 32 ?v = ?v" by (intro bit_word_eqI) simp
  qed
  moreover note uint_of_int [of "r_spec h ?a ?b"]
  ultimately show ?thesis
    using assms(1-3)
    by (auto simp: run_r_exact r_value_def reg_simps bit_take_bit_iff Let_def word_uint_eq_iff)
qed

theorem w_results_zero_extended_witness:
  "\<exists>e'. run_r Do_sllw (demo_insn\<lparr>rs1 := 3, rs2 := 0\<rparr>) demo_env = Inr e' \<and>
    uint (reg e' 6) = 0x80000001 \<and> bit (reg e' 6) 31"
  using w_results_zero_extended [of Do_sllw demo_env "demo_insn\<lparr>rs1 := 3, rs2 := 0\<rparr>"]
  by (auto simp: zero_extended_def sx32_def)

text \<open>
  C16: The divisions stop the emulator with a floating-point exception exactly when the divisor
  is zero or the quotient overflows, and never return the value the specification defines for
  those operands.
\<close>

theorem division_traps:
  "run_r h i e = Inl Sigfpe \<longleftrightarrow> host_traps h (reg e (rs1 i)) (reg e (rs2 i))"
  by (simp add: run_r_exact)

section \<open>Register-immediate instructions\<close>

text \<open>
  C17: The register-immediate instructions compute the value of the specification from \<open>rs1\<close> and
  the sign-extended immediate; \<open>slliw\<close> and \<open>srliw\<close> keep only its low 32 bits.
\<close>

theorem i_ops_follow_isa:
  assumes "\<not> is_load h" and "unat (rd i) < length (gpr (env m))"
  shows "\<exists>e'. run_i h i m = Inr (m\<lparr>env := e'\<rparr>) \<and>
    uint (reg e' (rd i)) =
      i_spec h (reg (env m) (rs1 i)) (sint (imm i)) mod 2 ^ (if zero_extended_i h then 32 else 64) \<and>
    (\<forall>r. r \<noteq> rd i \<longrightarrow> reg e' r = reg (env m) r) \<and> env_pc e' = env_pc (env m)"
  using assms
  by (simp add: run_i_exact i_value_def Let_def reg_simps uint_of_int [simplified])

theorem i_ops_follow_isa_witness:
  "\<exists>e'. run_i Do_addi demo_insn demo = Inr (demo\<lparr>env := e'\<rparr>) \<and> uint (reg e' 6) = 19"
  using i_ops_follow_isa [of Do_addi demo_insn demo]
  by (auto simp: is_load_def zero_extended_i_def)

section \<open>Loads and stores\<close>

text \<open>
  C18: A load reads as many bytes as its name says at \<open>rs1 + imm\<close> in the guest's window, little-endian, with
  or without sign; it stops the emulator exactly when one of those bytes may not be read.
\<close>

theorem loads_exact:
  assumes "is_load h" and "unat (rd i) < length (gpr (env m))"
  shows "if \<forall>k<load_width h. hread (mem m) (eff_addr i m + of_nat k)
    then \<exists>e'. run_i h i m = Inr (m\<lparr>env := e'\<rparr>) \<and>
      reg e' (rd i) = word_of_int (load_spec h
        (le_word (map (\<lambda>k. hbytes (mem m) (eff_addr i m + of_nat k)) [0..<load_width h])))
    else run_i h i m = Inl (Segv Guest_access)"
proof (cases "load_bytes (mem m) (eff_addr i m) (load_width h)")
  case None
  then have "\<not> (\<forall>k<load_width h. hread (mem m) (eff_addr i m + of_nat k))"
    using hmem.ld_some [of "mem m" "eff_addr i m" "load_width h"] by auto
  then show ?thesis using None assms(1) by (simp add: run_load_exact host_load_def)
next
  case (Some bs)
  then have "\<forall>k<load_width h. hread (mem m) (eff_addr i m + of_nat k)"
    "bs = map (\<lambda>k. hbytes (mem m) (eff_addr i m + of_nat k)) [0..<load_width h]"
    by (auto simp: load_bytes_Some)
  then show ?thesis using Some assms by (simp add: run_load_exact host_load_def reg_simps)
qed

theorem loads_exact_witness:
  "\<exists>e'. run_i Do_lw demo_insn demo = Inr (demo\<lparr>env := e'\<rparr>) \<and> reg e' 6 = 0"
proof -
  have "\<forall>k<load_width Do_lw. hread (mem demo) (eff_addr demo_insn demo + of_nat k)"
    by (simp add: eff_addr_def g2h_def simm_def all_less_4)
  with loads_exact [of Do_lw demo_insn demo] show ?thesis
    by (simp add: is_load_def load_spec_def load_signed_def upt_4)
qed

lemma host_store_bytes:
  "host_store h a n v = (if \<forall>k<n. hwrite h (a + of_nat k)
     then Some (h\<lparr>hbytes := \<lambda>x. if in_range a n x then ucast (drop_bit (8 * unat (x - a)) v) else hbytes h x\<rparr>)
     else None)"
proof -
  have bytes: "le_bytes n v ! k = ucast (drop_bit (8 * k) v)" if "k < n" for n v k
    using that by (simp add: le_bytes_def)
  have mem: "(\<lambda>x. if in_range a n x then le_bytes n v ! unat (x - a) else f x) =
      (\<lambda>x. if in_range a n x then ucast (drop_bit (8 * unat (x - a)) v) else f x)" for a n v and f :: "u64 \<Rightarrow> u8"
    by (auto simp: in_range_def bytes)
  show ?thesis
    unfolding host_store_def store_bytes_def length_le_bytes list_all_upt mem by (simp cong: if_cong)
qed

text \<open>
  C19: A store writes the low bytes of \<open>rs2\<close>, as many as its name says, in little-endian order at
  \<open>rs1 + imm\<close> in the guest's window; every other byte, every permission and the CPU state stay.  It stops
  the emulator exactly when one of those bytes may not be written.
\<close>

theorem stores_exact:
  "run_s h i m =
    (let n = store_width h; a = eff_addr i m in
     if \<forall>k<n. hwrite (mem m) (a + of_nat k)
     then Inr (m\<lparr>mem := (mem m)\<lparr>hbytes := \<lambda>x.
       if in_range a n x then ucast (drop_bit (8 * unat (x - a)) (reg (env m) (rs2 i)))
       else hbytes (mem m) x\<rparr>\<rparr>)
     else Inl (Segv Guest_access))"
  by (simp add: run_store_exact host_store_bytes Let_def cong: if_cong)

theorem stores_exact_witness:
  "\<exists>m'. run_s Do_sw demo_insn demo = Inr m' \<and> hbytes (mem m') (eff_addr demo_insn demo) = 5"
proof -
  have "\<forall>k < store_width Do_sw. hwrite (mem demo) (eff_addr demo_insn demo + of_nat k)"
    by (simp add: eff_addr_def g2h_def simm_def all_less_4)
  with stores_exact [of Do_sw demo_insn demo] show ?thesis
    by (simp add: Let_def in_range_def del: run_s.simps)
qed

lemma load_spec_cut:
  assumes "is_load l" and "w = 8 * load_width l"
  shows "(word_of_int (load_spec l (take_bit w x)) :: u64) =
    (if load_signed l then signed_take_bit (w - 1) x else take_bit w x)"
proof -
  have w: "w - 1 < w" "w - 1 < 64" "w \<le> 64" using assms(1) by (cases l; simp add: is_load_def assms(2))+
  have k: "uint (take_bit w x) mod 2 ^ w = take_bit w (uint x)"
    by (simp add: unsigned_take_bit_eq flip: take_bit_eq_mod)
  show ?thesis
    by (rule bit_word_eqI)
      (use w in \<open>auto simp: load_spec_def Let_def k simp flip: assms(2) simp: bit_of_int_iff bit_take_bit_iff bit_signed_take_bit_iff bit_uint_iff min_def\<close>)
qed

text \<open>
  C20: After a store, a load instruction of the same width with the same address operands puts the low bytes of the
  register that was stored into its destination, extended with their sign by \<open>lb\<close>, \<open>lh\<close>, \<open>lw\<close> and \<open>ld\<close> and with zeros by the
  unsigned loads; and a load from bytes that the store does not touch does what it would have done before.
\<close>

theorem load_after_store:
  assumes "run_s h i m = Inr m'" and "\<forall>k < store_width h. hread (mem m) (eff_addr i m + of_nat k)"
    and "is_load l" and "load_width l = store_width h" and "rs1 j = rs1 i" and "imm j = imm i"
    and "unat (rd j) < length (gpr (env m))"
  shows "(\<exists>e. run_i l j m' = Inr (m'\<lparr>env := e\<rparr>) \<and>
      reg e (rd j) = (let v = reg (env m) (rs2 i); n = 8 * store_width h in
        if l \<in> {Do_lb, Do_lh, Do_lw, Do_ld} then signed_take_bit (n - 1) v else take_bit n v) \<and>
      (\<forall>r. r \<noteq> rd j \<longrightarrow> reg e r = reg (env m) r)) \<and>
    (is_load l2 \<and> (\<forall>k<load_width l2. \<not> in_range (eff_addr i m) (store_width h) (eff_addr j2 m + of_nat k)) \<longrightarrow>
      run_i l2 j2 m' = map_sum id (\<lambda>x. x\<lparr>mem := mem m'\<rparr>) (run_i l2 j2 m))"
proof
  have st: "host_store (mem m) (eff_addr i m) (store_width h) (reg (env m) (rs2 i)) = Some (mem m')"
    and m': "m' = m\<lparr>mem := mem m'\<rparr>"
    using assms(1) by (auto simp: run_store_exact split: option.splits)
  have frame: "env m' = env m" "eff_addr j m' = eff_addr i m" "eff_addr j2 m' = eff_addr j2 m"
    using arg_cong [OF m', of env] arg_cong [OF m', of guest_base] assms(5,6) by (simp_all add: eff_addr_def simm_def)
  have "store_width h \<le> 8" by (cases h) auto
  with st assms(2) have ld: "host_load (mem m') (eff_addr i m) (load_width l) =
      Some (take_bit (8 * store_width h) (reg (env m) (rs2 i)))"
    unfolding assms(4) by (intro host_load_store_same) auto
  have cut: "(word_of_int (load_spec l (take_bit (8 * store_width h) v)) :: u64) =
      (if l \<in> {Do_lb, Do_lh, Do_lw, Do_ld} then signed_take_bit (8 * store_width h - 1) v else take_bit (8 * store_width h) v)" for v
    using load_spec_cut [OF assms(3) refl, of v] unfolding assms(4) load_signed_def .
  show "\<exists>e. run_i l j m' = Inr (m'\<lparr>env := e\<rparr>) \<and>
      reg e (rd j) = (let v = reg (env m) (rs2 i); n = 8 * store_width h in
        if l \<in> {Do_lb, Do_lh, Do_lw, Do_ld} then signed_take_bit (n - 1) v else take_bit n v) \<and>
      (\<forall>r. r \<noteq> rd j \<longrightarrow> reg e r = reg (env m) r)"
  proof -
    define x where "x = (let v = reg (env m) (rs2 i); n = 8 * store_width h in
        if l \<in> {Do_lb, Do_lh, Do_lw, Do_ld} then signed_take_bit (n - 1) v else take_bit n v)"
    have "run_i l j m' = Inr (m'\<lparr>env := set_reg (rd j) x (env m)\<rparr>)"
      unfolding run_load_exact [OF assms(3)] frame ld option.case cut x_def Let_def ..
    with assms(7) show ?thesis
      unfolding x_def [symmetric] by (intro exI [of _ "set_reg (rd j) x (env m)"]) (simp add: reg_set_reg)
  qed
  show "is_load l2 \<and> (\<forall>k<load_width l2. \<not> in_range (eff_addr i m) (store_width h) (eff_addr j2 m + of_nat k)) \<longrightarrow>
      run_i l2 j2 m' = map_sum id (\<lambda>x. x\<lparr>mem := mem m'\<rparr>) (run_i l2 j2 m)"
  proof
    assume l2: "is_load l2 \<and> (\<forall>k<load_width l2. \<not> in_range (eff_addr i m) (store_width h) (eff_addr j2 m + of_nat k))"
    then have "host_load (mem m') (eff_addr j2 m) (load_width l2) = host_load (mem m) (eff_addr j2 m) (load_width l2)"
      using st hmem.ld_st_other [of "mem m" "eff_addr i m" _ "mem m'" "load_width l2" "eff_addr j2 m"]
      by (simp add: host_store_def host_load_def)
    moreover have "m'\<lparr>env := e\<rparr> = (m\<lparr>env := e\<rparr>)\<lparr>mem := mem m'\<rparr>" for e
    proof -
      obtain hm where "m' = m\<lparr>mem := hm\<rparr>" using m' by blast
      then show ?thesis by simp
    qed
    ultimately show "run_i l2 j2 m' = map_sum id (\<lambda>x. x\<lparr>mem := mem m'\<rparr>) (run_i l2 j2 m)"
      using l2 by (simp add: run_load_exact frame split: option.split)
  qed
qed

text \<open>\<open>sb\<close> of 0xff80, then \<open>lb\<close>.\<close>

theorem load_after_store_witness:
  "\<exists>m' e. run_s Do_sb demo_insn (demo\<lparr>env := demo_env\<lparr>gpr := (gpr demo_env)[2 := 0xff80]\<rparr>\<rparr>) = Inr m' \<and>
    run_i Do_lb demo_insn m' = Inr (m'\<lparr>env := e\<rparr>) \<and> reg e 6 = - 128"
proof -
  let ?m = "demo\<lparr>env := demo_env\<lparr>gpr := (gpr demo_env)[2 := 0xff80]\<rparr>\<rparr>"
  have r: "reg (env ?m) 1 = 7" "reg (env ?m) 2 = 0xff80" "length (gpr (env ?m)) = 32"
    by (simp_all add: demo_env_def reg_def)
  have a: "\<forall>k < store_width Do_sb. hread (mem ?m) (eff_addr demo_insn ?m + of_nat k)"
    "\<forall>k < store_width Do_sb. hwrite (mem ?m) (eff_addr demo_insn ?m + of_nat k)"
    using r(1) by (simp_all add: eff_addr_def g2h_def simm_def)
  then obtain m' where m': "run_s Do_sb demo_insn ?m = Inr m'"
    by (simp add: run_store_exact host_store_def store_bytes_def list_all_upt del: run_s.simps)
  have "(signed_take_bit 7 0xff80 :: u64) = - 128" by simp
  with load_after_store [OF m' a(1), of Do_lb demo_insn, THEN conjunct1] r
  have "\<exists>e. run_i Do_lb demo_insn m' = Inr (m'\<lparr>env := e\<rparr>) \<and> reg e 6 = - 128"
    by (auto simp: is_load_def Let_def simp del: run_s.simps run_i.simps)
  with m' show ?thesis by blast
qed

section \<open>Atomic operations\<close>

text \<open>
  C21: An atomic operation reads the old value at \<open>rs1\<close>, leaves the combination of it with \<open>rs2\<close> that the
  specification asks for in memory, and puts the old value into \<open>rd\<close>, in the W forms the number its low 32 bits stand for in
  two's complement; it stops the emulator when the bytes may not be read or not be written.
\<close>

theorem amo_exact:
  assumes "is_amo h" and "unat (rd i) < length (gpr (env m))"
    and "a = g2h (guest_base m) (reg (env m) (rs1 i))"
  shows "(if (\<forall>k<amo_width h. hread (mem m) (a + of_nat k)) \<and> (\<forall>k<amo_width h. hwrite (mem m) (a + of_nat k))
    then \<exists>m' old. run_atom h i m = Inr m' \<and> host_load (mem m) a (amo_width h) = Some old \<and>
      host_load (mem m') a (amo_width h) =
        Some (take_bit (8 * amo_width h) (amo_spec h old (reg (env m) (rs2 i)))) \<and>
      reg (env m') (rd i) = word_of_int (if amo_width h = 4 then signed_take_bit 31 (uint old) else uint old)
    else run_atom h i m = Inl (Segv Guest_access))"
proof -
  let ?n = "amo_width h"
  have n: "?n \<le> 8" by (cases h) auto
  have ld: "host_load (mem m) a ?n = None \<longleftrightarrow> \<not> (\<forall>k<?n. hread (mem m) (a + of_nat k))"
    using hmem.ld_some [of "mem m" a ?n] by (auto simp: host_load_def)
  have st: "host_store (mem m) a ?n v = None \<longleftrightarrow> \<not> (\<forall>k<?n. hwrite (mem m) (a + of_nat k))" for v
    using hmem.st_some [of "mem m" a "le_bytes ?n v"] by (auto simp: host_store_def)
  note run = run_amo_exact [OF assms(1), of i m, folded assms(3), unfolded Let_def]
  show ?thesis
  proof (cases "(\<forall>k<?n. hread (mem m) (a + of_nat k)) \<and> (\<forall>k<?n. hwrite (mem m) (a + of_nat k))")
    case True
    then obtain old where old: "host_load (mem m) a ?n = Some old" using ld by (metis option.exhaust)
    obtain hm where hm: "host_store (mem m) a ?n (amo_spec h old (reg (env m) (rs2 i))) = Some hm"
      using st True by (metis option.exhaust)
    have r: "amo_result ?n old = word_of_int (if ?n = 4 then signed_take_bit 31 (uint old) else uint old)"
      by (simp add: amo_result_def scast_eq low_word(3) [unfolded sx32_def])
    from host_load_store_same [OF hm n] True old hm run assms(2) show ?thesis
      by (simp add: reg_simps r)
  next
    case False
    then have "host_load (mem m) a ?n = None \<or>
        (\<exists>old. host_load (mem m) a ?n = Some old) \<and> (\<forall>v. host_store (mem m) a ?n v = None)"
      using ld st by (metis option.exhaust)
    with run have "run_atom h i m = Inl (Segv Guest_access)" by auto
    with False show ?thesis by argo
  qed
qed

text \<open>Over a word of ones, \<open>amomax.w\<close> leaves the greater 5 and gives -1.\<close>

theorem amo_exact_witness:
  "\<exists>m'. run_atom Do_amomax_w (demo_insn\<lparr>rs1 := 0\<rparr>) (demo\<lparr>mem := (mem demo)\<lparr>hbytes := \<lambda>_. 0xff\<rparr>\<rparr>) = Inr m' \<and>
    host_load (mem m') 0x2000 4 = Some 5 \<and> reg (env m') 6 = 0xffffffffffffffff"
proof -
  let ?i = "demo_insn\<lparr>rs1 := 0\<rparr>" and ?m = "demo\<lparr>mem := (mem demo)\<lparr>hbytes := \<lambda>_. 0xff\<rparr>\<rparr>"
  have a: "0x2000 = g2h (guest_base ?m) (reg (env ?m) (rs1 ?i))" by (simp add: g2h_def)
  have old: "host_load (mem ?m) 0x2000 4 = Some 0xffffffff"
    by (simp add: host_load_def load_bytes_def list_all_upt all_less_4 upt_4)
  from amo_exact [of Do_amomax_w ?i ?m, OF _ _ a] old show ?thesis
    by (auto simp: is_amo_def all_less_4 sx32_def split: if_splits)
qed

text \<open>
  C32: \<open>lr\<close> reads the word or doubleword at \<open>rs1\<close> into \<open>rd\<close>, a word with its sign.  \<open>sc\<close> writes the low bytes of
  \<open>rs2\<close> there and zero, the sign of success, into \<open>rd\<close>, whatever was executed before it: the program keeps no
  reservation and no \<open>sc\<close> fails.  Either stops the emulator exactly when one of the bytes may not be accessed.
\<close>

theorem lr_sc_exact:
  assumes "l = Do_lr_w \<and> n = 4 \<or> l = Do_lr_d \<and> n = 8" and "s = Do_sc_w \<and> n = 4 \<or> s = Do_sc_d \<and> n = 8"
    and "a = g2h (guest_base m) (reg (env m) (rs1 i))"
  shows "run_atom l i m =
      (if \<forall>k<n. hread (mem m) (a + of_nat k)
       then let v = le_word (map (\<lambda>k. hbytes (mem m) (a + of_nat k)) [0..<n]) in
         Inr (m\<lparr>env := set_reg (rd i) (word_of_int (if n = 4 then signed_take_bit 31 (uint v) else uint v)) (env m)\<rparr>)
       else Inl (Segv Guest_access)) \<and>
    run_atom s i m =
      (if \<forall>k<n. hwrite (mem m) (a + of_nat k)
       then Inr (m\<lparr>mem := (mem m)\<lparr>hbytes := \<lambda>x.
           if in_range a n x then ucast (drop_bit (8 * unat (x - a)) (reg (env m) (rs2 i))) else hbytes (mem m) x\<rparr>,
         env := set_reg (rd i) 0 (env m)\<rparr>)
       else Inl (Segv Guest_access))"
proof
  have w: "(scast (ucast v :: u32) :: u64) = word_of_int (signed_take_bit 31 (uint v))" for v :: u64
    by (simp add: scast_eq low_word(3) [unfolded sx32_def])
  have ld: "host_load (mem m) a n = (if \<forall>k<n. hread (mem m) (a + of_nat k)
      then Some (le_word (map (\<lambda>k. hbytes (mem m) (a + of_nat k)) [0..<n])) else None)"
    by (simp add: host_load_def load_bytes_def list_all_upt)
  have "run_atom l i m = (case host_load (mem m) a n of None \<Rightarrow> Inl (Segv Guest_access)
      | Some v \<Rightarrow> Inr (m\<lparr>env := set_reg (rd i) (word_of_int (if n = 4 then signed_take_bit 31 (uint v) else uint v)) (env m)\<rparr>))"
    using assms(1) unfolding assms(3)
    by (auto simp: do_lr_w_def do_lr_d_def load_rd_def cpu_lduw_def cpu_ldud_def w split: option.split)
  then show "run_atom l i m =
      (if \<forall>k<n. hread (mem m) (a + of_nat k)
       then let v = le_word (map (\<lambda>k. hbytes (mem m) (a + of_nat k)) [0..<n]) in
         Inr (m\<lparr>env := set_reg (rd i) (word_of_int (if n = 4 then signed_take_bit 31 (uint v) else uint v)) (env m)\<rparr>)
       else Inl (Segv Guest_access))"
    unfolding ld by (simp add: Let_def)
  have "run_atom s i m = (case host_store (mem m) a n (reg (env m) (rs2 i)) of None \<Rightarrow> Inl (Segv Guest_access)
      | Some h \<Rightarrow> Inr (m\<lparr>mem := h, env := set_reg (rd i) 0 (env m)\<rparr>))"
    using assms(2) unfolding assms(3)
    by (auto simp: do_sc_w_def do_sc_d_def store_to_def cpu_stuw_def cpu_stud_def host_store_cast split: option.split)
  then show "run_atom s i m =
      (if \<forall>k<n. hwrite (mem m) (a + of_nat k)
       then Inr (m\<lparr>mem := (mem m)\<lparr>hbytes := \<lambda>x.
           if in_range a n x then ucast (drop_bit (8 * unat (x - a)) (reg (env m) (rs2 i))) else hbytes (mem m) x\<rparr>,
         env := set_reg (rd i) 0 (env m)\<rparr>)
       else Inl (Segv Guest_access))"
    unfolding host_store_bytes by (simp cong: if_cong)
qed

text \<open>\<open>lr.w\<close> of a word of ones, and \<open>sc.w\<close> without it.\<close>

theorem lr_sc_exact_witness:
  "\<exists>e m'. run_atom Do_lr_w (demo_insn\<lparr>rs1 := 0\<rparr>) (demo\<lparr>mem := (mem demo)\<lparr>hbytes := \<lambda>_. 0xff\<rparr>\<rparr>) =
      Inr (demo\<lparr>mem := (mem demo)\<lparr>hbytes := \<lambda>_. 0xff\<rparr>, env := e\<rparr>) \<and> reg e 6 = - 1 \<and>
    run_atom Do_sc_w (demo_insn\<lparr>rs1 := 0\<rparr>) (demo\<lparr>mem := (mem demo)\<lparr>hbytes := \<lambda>_. 0xff\<rparr>\<rparr>) = Inr m' \<and>
    hbytes (mem m') 0x2000 = 5 \<and> reg (env m') 6 = 0"
proof -
  let ?i = "demo_insn\<lparr>rs1 := 0\<rparr>" and ?m = "demo\<lparr>mem := (mem demo)\<lparr>hbytes := \<lambda>_. 0xff\<rparr>\<rparr>"
  have a: "0x2000 = g2h (guest_base ?m) (reg (env ?m) (rs1 ?i))" by (simp add: g2h_def)
  from lr_sc_exact [of Do_lr_w 4 Do_sc_w, OF _ _ a] show ?thesis
    by (simp add: all_less_4 upt_4 in_range_def Let_def reg_set_reg del: run_atom.simps)
qed

section \<open>Control transfer\<close>

text \<open>
  A branch compares its two registers as the specification says and moves the counter to its
  target or past itself, by four bytes or two in the compressed forms; it changes nothing else.
\<close>

theorem branches_exact:
  "run_b h i e = e\<lparr>env_pc := insn_pc i +
     (if branch_taken h (reg e (rs1 i)) (reg e (rs2 i)) then word_of_int (sint (imm i))
      else if h = Do_c_beq \<or> h = Do_c_bne then 2 else 4)\<rparr>"
proof -
  have "b_len h = (if h = Do_c_beq \<or> h = Do_c_bne then 2 else 4)" by (cases h) auto
  then show ?thesis by (simp add: run_b_exact set_pc_def simm_int(1) del: of_int_sint)
qed

text \<open>
  C22: \<open>jalr\<close> with the same register for \<open>rd\<close> and \<open>rs1\<close> jumps relative to the link it has just
  written: the target does not depend on the register's old value.  With different registers the
  target is the one of the specification.
\<close>

theorem jalr_same_register:
  assumes "unat (rd i) < length (gpr e)" and "rd i \<noteq> 0"
  shows "reg (do_jalr i e) (rd i) = insn_pc i + 4 \<and>
    env_pc (do_jalr i e) =
      (if rd i = rs1 i then insn_pc i + 4 + simm i else reg e (rs1 i) + simm i) AND - 2"
  using assms by (auto simp: do_jalr_def Let_def reg_simps)

theorem jalr_same_register_witness:
  "env_pc (do_jalr (demo_insn\<lparr>rd := 1\<rparr>) demo_env) = 0x1010 \<and> reg demo_env 1 = 7"
  using jalr_same_register [of "demo_insn\<lparr>rd := 1\<rparr>" demo_env] by (simp add: simm_def)

section \<open>Control and status registers\<close>

text \<open>
  C23: A CSR instruction on a known number reads the old value into \<open>rd\<close> and writes, sets or
  clears the bits of the source, leaving the other registers of the bank alone; on an unknown
  number it raises an illegal instruction exception.
\<close>

theorem csr_swap_exact:
  assumes "unat (rd i) < length (gpr e)"
  shows "case read_csr e (csr i) of
      None \<Rightarrow> env_exception (run_csr h i e) = ILLEGAL_INST \<and> gpr (run_csr h i e) = gpr e
    | Some old \<Rightarrow>
        reg (run_csr h i e) (rd i) = old \<and> env_exception (run_csr h i e) = env_exception e \<and>
        (\<forall>d. read_csr (run_csr h i e) d =
          (if d = csr i then Some (csr_new h old (csr_source h i e)) else read_csr e d))"
proof (cases "read_csr e (csr i)")
  case None
  then have "\<not> csr_known (csr i)" by (simp add: read_csr_known)
  then show ?thesis using None by (simp add: run_csr_unknown do_illegal_def)
next
  case (Some old)
  have set_reg: "read_csr (set_reg r v e') d = read_csr e' d" for r v e' d
    by (simp add: read_csr_def set_reg_def)
  have run: "reg (csr_to_rd i e (rmw_csr e (csr i) v k)) (rd i) = old \<and>
      env_exception (csr_to_rd i e (rmw_csr e (csr i) v k)) = env_exception e \<and>
      (\<forall>d. read_csr (csr_to_rd i e (rmw_csr e (csr i) v k)) d =
        (if d = csr i then Some ((old AND NOT k) OR (v AND k)) else read_csr e d))" for v k
  proof -
    obtain old' e' where r: "rmw_csr e (csr i) v k = Some (old', e')"
      using rmw_csr_known [of e "csr i" v k] read_csr_known [of e "csr i"] Some by fastforce
    with csrs.rmw_old [OF r] csrs.rmw_new [OF r] rmw_csr_other [OF r] Some assms show ?thesis
      by (simp add: csr_to_rd_def set_reg reg_simps)
  qed
  have masks: "(a AND NOT (- 1)) OR (v AND - 1) = v" "(a AND NOT v) OR v = a OR v"
    "(a AND NOT v) OR (0 AND v) = a AND NOT v" for a v :: u64
    by (rule bit_word_eqI; auto simp: bit_simps)+
  show ?thesis
    using Some run by (cases h) (simp_all add: do_csr_defs csr_source_def masks)
qed

theorem csr_swap_exact_witness:
  "reg (run_csr Do_csrrs (demo_insn\<lparr>imm := CSR_FRM\<rparr>) demo_env) 6 = 0 \<and>
   read_csr (run_csr Do_csrrs (demo_insn\<lparr>imm := CSR_FRM\<rparr>) demo_env) CSR_FRM = Some 7"
proof -
  have "read_csr demo_env CSR_FRM = Some 0"
    by (simp add: read_csr_def CSR_defs demo_env_def zero_env_def)
  with csr_swap_exact [of "demo_insn\<lparr>imm := CSR_FRM\<rparr>" demo_env Do_csrrs] show ?thesis
    by (simp add: csr_source_def)
qed

section \<open>Multiplication\<close>

text \<open>
  The half-word multiplication \<open>wmulu\<close> returns the high and the low word of the full 128-bit product.
\<close>

theorem wmulu_exact:
  "wmulu x y = (hi, lo) \<longleftrightarrow>
     unat hi = unat x * unat y div 2 ^ 64 \<and> unat lo = unat x * unat y mod 2 ^ 64"
proof -
  have p: "unat (fst (wmulu x y)) * 2 ^ 64 + unat (snd (wmulu x y)) = unat x * unat y"
    by (rule wmulu_product)
  have l: "unat (snd (wmulu x y)) < 2 ^ 64" using unsigned_less [of "snd (wmulu x y)"] by simp
  have "unat x * unat y div 2 ^ 64 = unat (fst (wmulu x y))"
    "unat x * unat y mod 2 ^ 64 = unat (snd (wmulu x y))"
    unfolding p [symmetric] using l by simp_all
  then show ?thesis by (auto simp: prod_eq_iff word_unat_eq_iff)
qed

end
