(* ===== verification/Decode16.thy ===== *)
theory Decode16
  imports Cpu_State Bitops
begin

text \<open>
  The 16-bit half of the decoder in \<open>arch/riscv/translate.c\<close>: the context \<open>trans_t\<close>, the field extraction of the
  compressed formats, one \<open>trans_c_*\<close> per instruction and the dispatch \<open>decode_insn16\<close>, for the
  configuration \<open>CONFIG_TARGET_RISCV64\<close>.  The extraction functions do not use the context they are
  passed, so it is not an argument here.
\<close>

section \<open>The translation context\<close>

text \<open>
  \<open>pc_next[0]\<close> and \<open>pc_next[1]\<close> point to the cells \<open>jmp_next[0].pc\<close> and \<open>jmp_next[1].pc\<close> of the block;
  the decoder only writes through them, so the context carries the contents of the two cells.
\<close>

record trans_t =
  tc_pc :: u64
  tc_count :: u32
  tc_link :: bool
  pc_next0 :: u64
  pc_next1 :: u64
  tc_exit :: bool

definition ex_shift_1 :: "c_int \<Rightarrow> c_int" where "ex_shift_1 v = push_bit 1 v"
definition ex_shift_2 :: "c_int \<Rightarrow> c_int" where "ex_shift_2 v = push_bit 2 v"
definition ex_shift_3 :: "c_int \<Rightarrow> c_int" where "ex_shift_3 v = push_bit 3 v"
definition ex_shift_4 :: "c_int \<Rightarrow> c_int" where "ex_shift_4 v = push_bit 4 v"
definition ex_shift_12 :: "c_int \<Rightarrow> c_int" where "ex_shift_12 v = push_bit 12 v"

lemmas ex_shift_defs = ex_shift_1_def ex_shift_2_def ex_shift_3_def ex_shift_4_def ex_shift_12_def

definition ex_rvc_register :: "c_int \<Rightarrow> c_int" where
  "ex_rvc_register r = 8 + r"

definition trans_illegal :: "trans_t \<Rightarrow> insn_t \<Rightarrow> trans_t \<times> insn_t" where [trans_defs]:
  "trans_illegal c i =
     (c\<lparr>tc_exit := True\<rparr>, i\<lparr>insn_handler := Do_illegal, insn_pc := tc_pc c\<rparr>)"

section \<open>Field extraction\<close>

definition decode_insn16_extract_c_addi4spn :: "insn_t \<Rightarrow> u16 \<Rightarrow> insn_t" where [extract_defs]:
  "decode_insn16_extract_c_addi4spn i op = i\<lparr>
     imm := ex_shift_2 (deposit32 (deposit32 (deposit32 (extract32 (ucast op) 6 1) 1 31 (extract32
       (ucast op) 5 1)) 2 30 (extract32 (ucast op) 11 2)) 4 28 (extract32 (ucast op) 7 4)),
     rd := ex_rvc_register (extract32 (ucast op) 2 3),
     rs1 := 2\<rparr>"

definition decode_insn16_extract_c_lw :: "insn_t \<Rightarrow> u16 \<Rightarrow> insn_t" where [extract_defs]:
  "decode_insn16_extract_c_lw i op = i\<lparr>
     imm := ex_shift_2 (deposit32 (deposit32 (extract32 (ucast op) 6 1) 1 31 (extract32 (ucast op)
       10 3)) 4 28 (extract32 (ucast op) 5 1)),
     rd := ex_rvc_register (extract32 (ucast op) 2 3),
     rs1 := ex_rvc_register (extract32 (ucast op) 7 3)\<rparr>"

definition decode_insn16_extract_c_sw :: "insn_t \<Rightarrow> u16 \<Rightarrow> insn_t" where [extract_defs]:
  "decode_insn16_extract_c_sw i op = i\<lparr>
     imm := ex_shift_2 (deposit32 (deposit32 (extract32 (ucast op) 6 1) 1 31 (extract32 (ucast op)
       10 3)) 4 28 (extract32 (ucast op) 5 1)),
     rs2 := ex_rvc_register (extract32 (ucast op) 2 3),
     rs1 := ex_rvc_register (extract32 (ucast op) 7 3)\<rparr>"

definition decode_insn16_extract_c_ld :: "insn_t \<Rightarrow> u16 \<Rightarrow> insn_t" where [extract_defs]:
  "decode_insn16_extract_c_ld i op = i\<lparr>
     imm := ex_shift_3 (deposit32 (extract32 (ucast op) 10 3) 3 29 (extract32 (ucast op) 5 2)),
     rd := ex_rvc_register (extract32 (ucast op) 2 3),
     rs1 := ex_rvc_register (extract32 (ucast op) 7 3)\<rparr>"

definition decode_insn16_extract_c_sd :: "insn_t \<Rightarrow> u16 \<Rightarrow> insn_t" where [extract_defs]:
  "decode_insn16_extract_c_sd i op = i\<lparr>
     imm := ex_shift_3 (deposit32 (extract32 (ucast op) 10 3) 3 29 (extract32 (ucast op) 5 2)),
     rs2 := ex_rvc_register (extract32 (ucast op) 2 3),
     rs1 := ex_rvc_register (extract32 (ucast op) 7 3)\<rparr>"

definition decode_insn16_extract_c_addi :: "insn_t \<Rightarrow> u16 \<Rightarrow> insn_t" where [extract_defs]:
  "decode_insn16_extract_c_addi i op = i\<lparr>
     imm := deposit32 (extract32 (ucast op) 2 5) 5 27 (sextract32 (ucast op) 12 1),
     rd := extract32 (ucast op) 7 5,
     rs1 := extract32 (ucast op) 7 5\<rparr>"

definition decode_insn16_extract_c_li :: "insn_t \<Rightarrow> u16 \<Rightarrow> insn_t" where [extract_defs]:
  "decode_insn16_extract_c_li i op = i\<lparr>
     imm := deposit32 (extract32 (ucast op) 2 5) 5 27 (sextract32 (ucast op) 12 1),
     rd := extract32 (ucast op) 7 5,
     rs1 := 0\<rparr>"

definition decode_insn16_extract_c_addi16sp :: "insn_t \<Rightarrow> u16 \<Rightarrow> insn_t" where [extract_defs]:
  "decode_insn16_extract_c_addi16sp i op = i\<lparr>
     imm := ex_shift_4 (deposit32 (deposit32 (deposit32 (deposit32 (extract32 (ucast op) 6 1) 1 31
       (extract32 (ucast op) 2 1)) 2 30 (extract32 (ucast op) 5 1)) 3 29 (extract32 (ucast op) 3 2))
       5 27 (sextract32 (ucast op) 12 1)),
     rd := 2,
     rs1 := 2\<rparr>"

definition decode_insn16_extract_c_lui :: "insn_t \<Rightarrow> u16 \<Rightarrow> insn_t" where [extract_defs]:
  "decode_insn16_extract_c_lui i op = i\<lparr>
     imm := ex_shift_12 (deposit32 (extract32 (ucast op) 2 5) 5 27 (sextract32 (ucast op) 12 1)),
     rd := extract32 (ucast op) 7 5\<rparr>"

definition decode_insn16_extract_c_srli :: "insn_t \<Rightarrow> u16 \<Rightarrow> insn_t" where [extract_defs]:
  "decode_insn16_extract_c_srli i op = i\<lparr>
     rs1 := ex_rvc_register (extract32 (ucast op) 7 3),
     imm := deposit32 (extract32 (ucast op) 2 5) 5 27 (extract32 (ucast op) 12 1),
     rd := ex_rvc_register (extract32 (ucast op) 7 3)\<rparr>"

definition decode_insn16_extract_c_andi :: "insn_t \<Rightarrow> u16 \<Rightarrow> insn_t" where [extract_defs]:
  "decode_insn16_extract_c_andi i op = i\<lparr>
     rs1 := ex_rvc_register (extract32 (ucast op) 7 3),
     imm := deposit32 (extract32 (ucast op) 2 5) 5 27 (sextract32 (ucast op) 12 1),
     rd := ex_rvc_register (extract32 (ucast op) 7 3)\<rparr>"

definition decode_insn16_extract_c_sub :: "insn_t \<Rightarrow> u16 \<Rightarrow> insn_t" where [extract_defs]:
  "decode_insn16_extract_c_sub i op = i\<lparr>
     rs2 := ex_rvc_register (extract32 (ucast op) 2 3),
     rd := ex_rvc_register (extract32 (ucast op) 7 3),
     rs1 := ex_rvc_register (extract32 (ucast op) 7 3)\<rparr>"

definition decode_insn16_extract_c_j :: "insn_t \<Rightarrow> u16 \<Rightarrow> insn_t" where [extract_defs]:
  "decode_insn16_extract_c_j i op = i\<lparr>
     imm := ex_shift_1 (deposit32 (deposit32 (deposit32 (deposit32 (deposit32 (deposit32 (deposit32
       (extract32 (ucast op) 3 3) 3 29 (extract32 (ucast op) 11 1)) 4 28 (extract32 (ucast op) 2 1))
       5 27 (extract32 (ucast op) 7 1)) 6 26 (extract32 (ucast op) 6 1)) 7 25 (extract32 (ucast op)
       9 2)) 9 23 (extract32 (ucast op) 8 1)) 10 22 (sextract32 (ucast op) 12 1)),
     rd := 0\<rparr>"

definition decode_insn16_extract_c_beqz :: "insn_t \<Rightarrow> u16 \<Rightarrow> insn_t" where [extract_defs]:
  "decode_insn16_extract_c_beqz i op = i\<lparr>
     imm := ex_shift_1 (deposit32 (deposit32 (deposit32 (deposit32 (extract32 (ucast op) 3 2) 2 30
       (extract32 (ucast op) 10 2)) 4 28 (extract32 (ucast op) 2 1)) 5 27 (extract32 (ucast op) 5
       2)) 7 25 (sextract32 (ucast op) 12 1)),
     rs2 := 0,
     rs1 := ex_rvc_register (extract32 (ucast op) 7 3)\<rparr>"

definition decode_insn16_extract_c_mv :: "insn_t \<Rightarrow> u16 \<Rightarrow> insn_t" where [extract_defs]:
  "decode_insn16_extract_c_mv i op = i\<lparr>
     imm := 0,
     rd := extract32 (ucast op) 7 5,
     rs1 := extract32 (ucast op) 2 5\<rparr>"

definition decode_insn16_extract_c_ldsp :: "insn_t \<Rightarrow> u16 \<Rightarrow> insn_t" where [extract_defs]:
  "decode_insn16_extract_c_ldsp i op = i\<lparr>
     imm := ex_shift_3 (deposit32 (deposit32 (extract32 (ucast op) 5 2) 2 30 (extract32 (ucast op)
       12 1)) 3 29 (extract32 (ucast op) 2 3)),
     rd := extract32 (ucast op) 7 5,
     rs1 := 2\<rparr>"

definition decode_insn16_extract_c_slli :: "insn_t \<Rightarrow> u16 \<Rightarrow> insn_t" where [extract_defs]:
  "decode_insn16_extract_c_slli i op = i\<lparr>
     rs1 := extract32 (ucast op) 7 5,
     imm := deposit32 (extract32 (ucast op) 2 5) 5 27 (extract32 (ucast op) 12 1),
     rd := extract32 (ucast op) 7 5\<rparr>"

definition decode_insn16_extract_c_lwsp :: "insn_t \<Rightarrow> u16 \<Rightarrow> insn_t" where [extract_defs]:
  "decode_insn16_extract_c_lwsp i op = i\<lparr>
     imm := ex_shift_2 (deposit32 (deposit32 (extract32 (ucast op) 4 3) 3 29 (extract32 (ucast op)
       12 1)) 4 28 (extract32 (ucast op) 2 2)),
     rd := extract32 (ucast op) 7 5,
     rs1 := 2\<rparr>"

definition decode_insn16_extract_c_jalr :: "insn_t \<Rightarrow> u16 \<Rightarrow> insn_t" where [extract_defs]:
  "decode_insn16_extract_c_jalr i op = i\<lparr>
     rd := 1,
     imm := 0,
     rs1 := extract32 (ucast op) 7 5\<rparr>"

definition decode_insn16_extract_c_jr :: "insn_t \<Rightarrow> u16 \<Rightarrow> insn_t" where [extract_defs]:
  "decode_insn16_extract_c_jr i op = i\<lparr>
     rd := 0,
     imm := 0,
     rs1 := extract32 (ucast op) 7 5\<rparr>"

definition decode_insn16_extract_c_add :: "insn_t \<Rightarrow> u16 \<Rightarrow> insn_t" where [extract_defs]:
  "decode_insn16_extract_c_add i op = i\<lparr>
     rs2 := extract32 (ucast op) 2 5,
     rd := extract32 (ucast op) 7 5,
     rs1 := extract32 (ucast op) 7 5\<rparr>"

definition decode_insn16_extract_c_swsp :: "insn_t \<Rightarrow> u16 \<Rightarrow> insn_t" where [extract_defs]:
  "decode_insn16_extract_c_swsp i op = i\<lparr>
     imm := ex_shift_2 (deposit32 (extract32 (ucast op) 9 4) 4 28 (extract32 (ucast op) 7 2)),
     rs2 := extract32 (ucast op) 2 5,
     rs1 := 2\<rparr>"

definition decode_insn16_extract_c_sdsp :: "insn_t \<Rightarrow> u16 \<Rightarrow> insn_t" where [extract_defs]:
  "decode_insn16_extract_c_sdsp i op = i\<lparr>
     imm := ex_shift_3 (deposit32 (extract32 (ucast op) 10 3) 3 29 (extract32 (ucast op) 7 3)),
     rs2 := extract32 (ucast op) 2 5,
     rs1 := 2\<rparr>"

section \<open>One function per instruction\<close>

definition trans_c_addi4spn :: "trans_t \<Rightarrow> insn_t \<Rightarrow> u16 \<Rightarrow> trans_t \<times> insn_t" where [trans_defs]:
  "trans_c_addi4spn c i op =
    (let i = decode_insn16_extract_c_addi4spn i op in
     (c, i\<lparr>insn_handler := H_i Do_addi\<rparr>))"

definition trans_c_lw :: "trans_t \<Rightarrow> insn_t \<Rightarrow> u16 \<Rightarrow> trans_t \<times> insn_t" where [trans_defs]:
  "trans_c_lw c i op =
    (let i = decode_insn16_extract_c_lw i op in
     (c, i\<lparr>insn_handler := H_i Do_lw\<rparr>))"

definition trans_c_ld :: "trans_t \<Rightarrow> insn_t \<Rightarrow> u16 \<Rightarrow> trans_t \<times> insn_t" where [trans_defs]:
  "trans_c_ld c i op =
    (let i = decode_insn16_extract_c_ld i op in
     (c, i\<lparr>insn_handler := H_i Do_ld\<rparr>))"

definition trans_c_sw :: "trans_t \<Rightarrow> insn_t \<Rightarrow> u16 \<Rightarrow> trans_t \<times> insn_t" where [trans_defs]:
  "trans_c_sw c i op =
    (let i = decode_insn16_extract_c_sw i op in
     (c, i\<lparr>insn_handler := H_s Do_sw\<rparr>))"

definition trans_c_sd :: "trans_t \<Rightarrow> insn_t \<Rightarrow> u16 \<Rightarrow> trans_t \<times> insn_t" where [trans_defs]:
  "trans_c_sd c i op =
    (let i = decode_insn16_extract_c_sd i op in
     (c, i\<lparr>insn_handler := H_s Do_sd\<rparr>))"

definition trans_c_addi :: "trans_t \<Rightarrow> insn_t \<Rightarrow> u16 \<Rightarrow> trans_t \<times> insn_t" where [trans_defs]:
  "trans_c_addi c i op =
    (let i = decode_insn16_extract_c_addi i op in
     if rd i = 0 then (c, i\<lparr>insn_handler := Do_empty\<rparr>)
     else (c, i\<lparr>insn_handler := H_i Do_addi\<rparr>))"

definition trans_c_addiw :: "trans_t \<Rightarrow> insn_t \<Rightarrow> u16 \<Rightarrow> trans_t \<times> insn_t" where [trans_defs]:
  "trans_c_addiw c i op =
    (let i = decode_insn16_extract_c_addi i op in
     if rd i = 0 then trans_illegal c i
     else (c, i\<lparr>insn_handler := H_i Do_addiw\<rparr>))"

definition trans_c_li :: "trans_t \<Rightarrow> insn_t \<Rightarrow> u16 \<Rightarrow> trans_t \<times> insn_t" where [trans_defs]:
  "trans_c_li c i op =
    (let i = decode_insn16_extract_c_li i op in
     if rd i = 0 then trans_illegal c i
     else (c, i\<lparr>insn_handler := H_i Do_addi\<rparr>))"

definition trans_c_addi16sp :: "trans_t \<Rightarrow> insn_t \<Rightarrow> u16 \<Rightarrow> trans_t \<times> insn_t" where [trans_defs]:
  "trans_c_addi16sp c i op =
    (let i = decode_insn16_extract_c_addi16sp i op in
     (c, i\<lparr>insn_handler := H_i Do_addi\<rparr>))"

definition trans_c_lui :: "trans_t \<Rightarrow> insn_t \<Rightarrow> u16 \<Rightarrow> trans_t \<times> insn_t" where [trans_defs]:
  "trans_c_lui c i op =
    (let i = decode_insn16_extract_c_lui i op in
     if rd i = 0 \<or> rd i = 2 \<or> imm i = 0 then trans_illegal c i
     else (c, i\<lparr>insn_handler := Do_lui\<rparr>))"

definition trans_c_srli :: "trans_t \<Rightarrow> insn_t \<Rightarrow> u16 \<Rightarrow> trans_t \<times> insn_t" where [trans_defs]:
  "trans_c_srli c i op =
    (let i = decode_insn16_extract_c_srli i op in
     (c, i\<lparr>insn_handler := H_i Do_srli\<rparr>))"

definition trans_c_srai :: "trans_t \<Rightarrow> insn_t \<Rightarrow> u16 \<Rightarrow> trans_t \<times> insn_t" where [trans_defs]:
  "trans_c_srai c i op =
    (let i = decode_insn16_extract_c_srli i op in
     (c, i\<lparr>insn_handler := H_i Do_srai\<rparr>))"

definition trans_c_andi :: "trans_t \<Rightarrow> insn_t \<Rightarrow> u16 \<Rightarrow> trans_t \<times> insn_t" where [trans_defs]:
  "trans_c_andi c i op =
    (let i = decode_insn16_extract_c_andi i op in
     (c, i\<lparr>insn_handler := H_i Do_andi\<rparr>))"

definition trans_c_sub :: "trans_t \<Rightarrow> insn_t \<Rightarrow> u16 \<Rightarrow> trans_t \<times> insn_t" where [trans_defs]:
  "trans_c_sub c i op =
    (let i = decode_insn16_extract_c_sub i op in
     (c, i\<lparr>insn_handler := H_r Do_sub\<rparr>))"

definition trans_c_xor :: "trans_t \<Rightarrow> insn_t \<Rightarrow> u16 \<Rightarrow> trans_t \<times> insn_t" where [trans_defs]:
  "trans_c_xor c i op =
    (let i = decode_insn16_extract_c_sub i op in
     (c, i\<lparr>insn_handler := H_r Do_xor\<rparr>))"

definition trans_c_or :: "trans_t \<Rightarrow> insn_t \<Rightarrow> u16 \<Rightarrow> trans_t \<times> insn_t" where [trans_defs]:
  "trans_c_or c i op =
    (let i = decode_insn16_extract_c_sub i op in
     (c, i\<lparr>insn_handler := H_r Do_or\<rparr>))"

definition trans_c_and :: "trans_t \<Rightarrow> insn_t \<Rightarrow> u16 \<Rightarrow> trans_t \<times> insn_t" where [trans_defs]:
  "trans_c_and c i op =
    (let i = decode_insn16_extract_c_sub i op in
     (c, i\<lparr>insn_handler := H_r Do_and\<rparr>))"

definition trans_c_subw :: "trans_t \<Rightarrow> insn_t \<Rightarrow> u16 \<Rightarrow> trans_t \<times> insn_t" where [trans_defs]:
  "trans_c_subw c i op =
    (let i = decode_insn16_extract_c_sub i op in
     (c, i\<lparr>insn_handler := H_r Do_subw\<rparr>))"

definition trans_c_addw :: "trans_t \<Rightarrow> insn_t \<Rightarrow> u16 \<Rightarrow> trans_t \<times> insn_t" where [trans_defs]:
  "trans_c_addw c i op =
    (let i = decode_insn16_extract_c_sub i op in
     (c, i\<lparr>insn_handler := H_r Do_addw\<rparr>))"

definition trans_c_j :: "trans_t \<Rightarrow> insn_t \<Rightarrow> u16 \<Rightarrow> trans_t \<times> insn_t" where [trans_defs]:
  "trans_c_j c i op =
    (let i = decode_insn16_extract_c_j i op in
     (c\<lparr>tc_link := True, pc_next0 := tc_pc c + simm i, tc_exit := True\<rparr>,
      i\<lparr>insn_handler := H_jump Do_c_jal, insn_pc := tc_pc c\<rparr>))"

definition trans_c_beqz :: "trans_t \<Rightarrow> insn_t \<Rightarrow> u16 \<Rightarrow> trans_t \<times> insn_t" where [trans_defs]:
  "trans_c_beqz c i op =
    (let i = decode_insn16_extract_c_beqz i op in
     (c\<lparr>tc_link := True, pc_next0 := tc_pc c + simm i, pc_next1 := tc_pc c + 2, tc_exit := True\<rparr>,
      i\<lparr>insn_handler := H_b Do_c_beq, insn_pc := tc_pc c\<rparr>))"

definition trans_c_bnez :: "trans_t \<Rightarrow> insn_t \<Rightarrow> u16 \<Rightarrow> trans_t \<times> insn_t" where [trans_defs]:
  "trans_c_bnez c i op =
    (let i = decode_insn16_extract_c_beqz i op in
     (c\<lparr>tc_link := True, pc_next0 := tc_pc c + simm i, pc_next1 := tc_pc c + 2, tc_exit := True\<rparr>,
      i\<lparr>insn_handler := H_b Do_c_bne, insn_pc := tc_pc c\<rparr>))"

definition trans_c_jr :: "trans_t \<Rightarrow> insn_t \<Rightarrow> u16 \<Rightarrow> trans_t \<times> insn_t" where [trans_defs]:
  "trans_c_jr c i op =
    (let i = decode_insn16_extract_c_jr i op in
     if rs1 i = 0 then trans_illegal c i
     else (c\<lparr>tc_exit := True\<rparr>,
      i\<lparr>insn_handler := H_jump Do_c_jalr, insn_pc := tc_pc c\<rparr>))"

definition trans_c_mv :: "trans_t \<Rightarrow> insn_t \<Rightarrow> u16 \<Rightarrow> trans_t \<times> insn_t" where [trans_defs]:
  "trans_c_mv c i op =
    (let i = decode_insn16_extract_c_mv i op in
     if rd i = 0 \<or> rs1 i = 0 then trans_illegal c i
     else (c, i\<lparr>insn_handler := H_i Do_addi\<rparr>))"

definition trans_c_ldsp :: "trans_t \<Rightarrow> insn_t \<Rightarrow> u16 \<Rightarrow> trans_t \<times> insn_t" where [trans_defs]:
  "trans_c_ldsp c i op =
    (let i = decode_insn16_extract_c_ldsp i op in
     if rd i = 0 then trans_illegal c i
     else (c, i\<lparr>insn_handler := H_i Do_ld\<rparr>))"

definition trans_c_slli :: "trans_t \<Rightarrow> insn_t \<Rightarrow> u16 \<Rightarrow> trans_t \<times> insn_t" where [trans_defs]:
  "trans_c_slli c i op =
    (let i = decode_insn16_extract_c_slli i op in
     if rd i = 0 then trans_illegal c i
     else (c, i\<lparr>insn_handler := H_i Do_slli\<rparr>))"

definition trans_c_lwsp :: "trans_t \<Rightarrow> insn_t \<Rightarrow> u16 \<Rightarrow> trans_t \<times> insn_t" where [trans_defs]:
  "trans_c_lwsp c i op =
    (let i = decode_insn16_extract_c_lwsp i op in
     if rd i = 0 then trans_illegal c i
     else (c, i\<lparr>insn_handler := H_i Do_lw\<rparr>))"

definition trans_c_ebreak :: "trans_t \<Rightarrow> insn_t \<Rightarrow> u16 \<Rightarrow> trans_t \<times> insn_t" where [trans_defs]:
  "trans_c_ebreak c i op =
     (c, i\<lparr>insn_handler := Do_empty\<rparr>)"

definition trans_c_jalr :: "trans_t \<Rightarrow> insn_t \<Rightarrow> u16 \<Rightarrow> trans_t \<times> insn_t" where [trans_defs]:
  "trans_c_jalr c i op =
    (let i = decode_insn16_extract_c_jalr i op in
     if rs1 i = 0 then trans_illegal c i
     else (c\<lparr>tc_exit := True\<rparr>,
      i\<lparr>insn_handler := H_jump Do_c_jalr, insn_pc := tc_pc c\<rparr>))"

definition trans_c_add :: "trans_t \<Rightarrow> insn_t \<Rightarrow> u16 \<Rightarrow> trans_t \<times> insn_t" where [trans_defs]:
  "trans_c_add c i op =
    (let i = decode_insn16_extract_c_add i op in
     if rd i = 0 \<or> rs2 i = 0 then trans_illegal c i
     else (c, i\<lparr>insn_handler := H_r Do_add\<rparr>))"

definition trans_c_swsp :: "trans_t \<Rightarrow> insn_t \<Rightarrow> u16 \<Rightarrow> trans_t \<times> insn_t" where [trans_defs]:
  "trans_c_swsp c i op =
    (let i = decode_insn16_extract_c_swsp i op in
     (c, i\<lparr>insn_handler := H_s Do_sw\<rparr>))"

definition trans_c_sdsp :: "trans_t \<Rightarrow> insn_t \<Rightarrow> u16 \<Rightarrow> trans_t \<times> insn_t" where [trans_defs]:
  "trans_c_sdsp c i op =
    (let i = decode_insn16_extract_c_sdsp i op in
     (c, i\<lparr>insn_handler := H_s Do_sd\<rparr>))"

section \<open>Dispatch\<close>

definition decode_c_alu :: "trans_t \<Rightarrow> insn_t \<Rightarrow> u16 \<Rightarrow> trans_t \<times> insn_t" where
  "decode_c_alu c i op =
    (if drop_bit 10 op AND 0x3 = 0x0 then trans_c_srli c i op
     else if drop_bit 10 op AND 0x3 = 0x1 then trans_c_srai c i op
     else if drop_bit 10 op AND 0x3 = 0x2 then trans_c_andi c i op
     else if drop_bit 10 op AND 0x3 = 0x3 then
         (if op AND 0x1060 = 0x0000 then trans_c_sub c i op
         else if op AND 0x1060 = 0x0020 then trans_c_xor c i op
         else if op AND 0x1060 = 0x0040 then trans_c_or c i op
         else if op AND 0x1060 = 0x0060 then trans_c_and c i op
         else if op AND 0x1060 = 0x1000 then trans_c_subw c i op
         else if op AND 0x1060 = 0x1020 then trans_c_addw c i op
         else trans_illegal c i)
     else trans_illegal c i)"

definition decode_c_cr :: "trans_t \<Rightarrow> insn_t \<Rightarrow> u16 \<Rightarrow> trans_t \<times> insn_t" where
  "decode_c_cr c i op =
    (if drop_bit 12 op AND 0x1 = 0x0 then
         (if op AND 0x007c = 0x0000 then trans_c_jr c i op else trans_c_mv c i op)
     else if drop_bit 12 op AND 0x1 = 0x1 then
         (if op AND 0x0ffc = 0x0000 then trans_c_ebreak c i op
          else if op AND 0x007c = 0x0000 then trans_c_jalr c i op else trans_c_add c i op)
     else trans_illegal c i)"

definition decode_insn16 :: "trans_t \<Rightarrow> insn_t \<Rightarrow> u16 \<Rightarrow> trans_t \<times> insn_t" where
  "decode_insn16 c i op =
    (if op AND 0xe003 = 0x0000 then
         (if op AND 0x1fe0 = 0 then trans_illegal c i else trans_c_addi4spn c i op)
     else if op AND 0xe003 = 0x0001 then trans_c_addi c i op
     else if op AND 0xe003 = 0x0002 then trans_c_slli c i op
     else if op AND 0xe003 = 0x2001 then trans_c_addiw c i op
     else if op AND 0xe003 = 0x4000 then trans_c_lw c i op
     else if op AND 0xe003 = 0x4001 then trans_c_li c i op
     else if op AND 0xe003 = 0x4002 then trans_c_lwsp c i op
     else if op AND 0xe003 = 0x6000 then trans_c_ld c i op
     else if op AND 0xe003 = 0x6001 then
         (if op AND 0x0f80 = 0x0100 then trans_c_addi16sp c i op else trans_c_lui c i op)
     else if op AND 0xe003 = 0x6002 then trans_c_ldsp c i op
     else if op AND 0xe003 = 0x8001 then decode_c_alu c i op
     else if op AND 0xe003 = 0x8002 then decode_c_cr c i op
     else if op AND 0xe003 = 0xa001 then trans_c_j c i op
     else if op AND 0xe003 = 0xc000 then trans_c_sw c i op
     else if op AND 0xe003 = 0xc002 then trans_c_swsp c i op
     else if op AND 0xe003 = 0xc001 then trans_c_beqz c i op
     else if op AND 0xe003 = 0xe000 then trans_c_sd c i op
     else if op AND 0xe003 = 0xe001 then trans_c_bnez c i op
     else if op AND 0xe003 = 0xe002 then trans_c_sdsp c i op
     else trans_illegal c i)"

end
