(* ===== verification/Decode32.thy ===== *)
theory Decode32
  imports Decode16
begin

text \<open>
  The 32-bit half of the decoder in \<open>arch/riscv/translate.c\<close>: the extraction of the R, I, S, B, U, J, CSR and
  atomic formats, the \<open>trans_*\<close> functions and the dispatch.  The functions that the code generates
  with the macros \<open>gen_trans_r\<close>, \<open>gen_trans_i\<close>, \<open>gen_trans_s\<close>, \<open>gen_trans_b\<close> and \<open>gen_trans_csr\<close> are one
  definition each, with the handler as its argument; \<open>trans_atom\<close> does the same for the twenty-two
  functions of the A extension.  Each case of the outer switch that holds a switch of its own is a definition.
\<close>

section \<open>Field extraction\<close>

definition decode_insn32_extract_r :: "insn_t \<Rightarrow> u32 \<Rightarrow> insn_t" where [extract_defs]:
  "decode_insn32_extract_r i op = i\<lparr>
     rs1 := extract32 op 15 5,
     rd := extract32 op 7 5,
     rs2 := extract32 op 20 5\<rparr>"

definition decode_insn32_extract_i :: "insn_t \<Rightarrow> u32 \<Rightarrow> insn_t" where [extract_defs]:
  "decode_insn32_extract_i i op = i\<lparr>
     rs1 := extract32 op 15 5,
     rd := extract32 op 7 5,
     imm := sextract32 op 20 12\<rparr>"

definition decode_insn32_extract_s :: "insn_t \<Rightarrow> u32 \<Rightarrow> insn_t" where [extract_defs]:
  "decode_insn32_extract_s i op = i\<lparr>
     rs1 := extract32 op 15 5,
     imm := deposit32 (extract32 op 7 5) 5 27 (sextract32 op 25 7),
     rs2 := extract32 op 20 5\<rparr>"

definition decode_insn32_extract_b :: "insn_t \<Rightarrow> u32 \<Rightarrow> insn_t" where [extract_defs]:
  "decode_insn32_extract_b i op = i\<lparr>
     rs1 := extract32 op 15 5,
     imm := ex_shift_1 (deposit32 (deposit32 (deposit32 (extract32 op 8 4) 4 28 (extract32 op 25 6))
       10 22 (extract32 op 7 1)) 11 21 (sextract32 op 31 1)),
     rs2 := extract32 op 20 5\<rparr>"

definition decode_insn32_extract_u :: "insn_t \<Rightarrow> u32 \<Rightarrow> insn_t" where [extract_defs]:
  "decode_insn32_extract_u i op = i\<lparr>
     rd := extract32 op 7 5,
     imm := ex_shift_12 (sextract32 op 12 20)\<rparr>"

definition decode_insn32_extract_j :: "insn_t \<Rightarrow> u32 \<Rightarrow> insn_t" where [extract_defs]:
  "decode_insn32_extract_j i op = i\<lparr>
     rd := extract32 op 7 5,
     imm := ex_shift_1 (deposit32 (deposit32 (deposit32 (extract32 op 21 10) 10 22 (extract32 op 20
       1)) 11 21 (extract32 op 12 8)) 19 13 (sextract32 op 31 1))\<rparr>"

definition decode_insn32_extract_csr :: "insn_t \<Rightarrow> u32 \<Rightarrow> insn_t" where [extract_defs]:
  "decode_insn32_extract_csr i op = i\<lparr>
     rs1 := extract32 op 15 5,
     rd := extract32 op 7 5,
     imm := extract32 op 20 12\<rparr>"

definition decode_insn32_extract_atom_ld :: "insn_t \<Rightarrow> u32 \<Rightarrow> insn_t" where [extract_defs]:
  "decode_insn32_extract_atom_ld i op = i\<lparr>
     rd := extract32 op 7 5,
     rs1 := extract32 op 15 5\<rparr>"

definition decode_insn32_extract_atom_st :: "insn_t \<Rightarrow> u32 \<Rightarrow> insn_t" where [extract_defs]:
  "decode_insn32_extract_atom_st i op = i\<lparr>
     rs2 := extract32 op 20 5,
     rd := extract32 op 7 5,
     rs1 := extract32 op 15 5\<rparr>"

section \<open>One function per instruction\<close>

definition gen_trans_r :: "r_handler \<Rightarrow> trans_t \<Rightarrow> insn_t \<Rightarrow> u32 \<Rightarrow> trans_t \<times> insn_t" where [trans_defs]:
  "gen_trans_r h c i op =
    (let i = decode_insn32_extract_r i op in
     if rd i = 0 then (c, i\<lparr>insn_handler := Do_empty\<rparr>)
     else (c, i\<lparr>insn_handler := H_r h\<rparr>))"

definition gen_trans_i :: "i_handler \<Rightarrow> trans_t \<Rightarrow> insn_t \<Rightarrow> u32 \<Rightarrow> trans_t \<times> insn_t" where [trans_defs]:
  "gen_trans_i h c i op =
    (let i = decode_insn32_extract_i i op in
     if rd i = 0 then (c, i\<lparr>insn_handler := Do_empty\<rparr>)
     else (c, i\<lparr>insn_handler := H_i h\<rparr>))"

definition gen_trans_s :: "s_handler \<Rightarrow> trans_t \<Rightarrow> insn_t \<Rightarrow> u32 \<Rightarrow> trans_t \<times> insn_t" where [trans_defs]:
  "gen_trans_s h c i op = (c, (decode_insn32_extract_s i op)\<lparr>insn_handler := H_s h\<rparr>)"

definition gen_trans_b :: "b_handler \<Rightarrow> trans_t \<Rightarrow> insn_t \<Rightarrow> u32 \<Rightarrow> trans_t \<times> insn_t" where [trans_defs]:
  "gen_trans_b h c i op =
    (let i = decode_insn32_extract_b i op in
     (c\<lparr>tc_link := True, pc_next0 := tc_pc c + simm i, pc_next1 := tc_pc c + 4, tc_exit := True\<rparr>,
      i\<lparr>insn_handler := H_b h, insn_pc := tc_pc c\<rparr>))"

definition trans_ecall :: "trans_t \<Rightarrow> insn_t \<Rightarrow> u32 \<Rightarrow> trans_t \<times> insn_t" where [trans_defs]:
  "trans_ecall c i op = (c\<lparr>tc_exit := True\<rparr>, i\<lparr>insn_handler := Do_ecall, insn_pc := tc_pc c\<rparr>)"

definition trans_auipc :: "trans_t \<Rightarrow> insn_t \<Rightarrow> u32 \<Rightarrow> trans_t \<times> insn_t" where [trans_defs]:
  "trans_auipc c i op =
    (c, (decode_insn32_extract_u i op)\<lparr>insn_handler := Do_auipc, insn_pc := tc_pc c\<rparr>)"

definition trans_lui :: "trans_t \<Rightarrow> insn_t \<Rightarrow> u32 \<Rightarrow> trans_t \<times> insn_t" where [trans_defs]:
  "trans_lui c i op = (c, (decode_insn32_extract_u i op)\<lparr>insn_handler := Do_lui\<rparr>)"

definition trans_jal :: "trans_t \<Rightarrow> insn_t \<Rightarrow> u32 \<Rightarrow> trans_t \<times> insn_t" where [trans_defs]:
  "trans_jal c i op =
    (let i = decode_insn32_extract_j i op in
     (c\<lparr>tc_link := True, pc_next0 := tc_pc c + simm i, tc_exit := True\<rparr>,
      i\<lparr>insn_handler := H_jump Do_jal, insn_pc := tc_pc c\<rparr>))"

definition trans_jalr :: "trans_t \<Rightarrow> insn_t \<Rightarrow> u32 \<Rightarrow> trans_t \<times> insn_t" where [trans_defs]:
  "trans_jalr c i op =
    (c\<lparr>tc_exit := True\<rparr>,
     (decode_insn32_extract_i i op)\<lparr>insn_handler := H_jump Do_jalr, insn_pc := tc_pc c\<rparr>)"

definition trans_pause :: "trans_t \<Rightarrow> insn_t \<Rightarrow> u32 \<Rightarrow> trans_t \<times> insn_t" where [trans_defs]:
  "trans_pause c i op = (c, i\<lparr>insn_handler := Do_empty\<rparr>)"

definition trans_fence :: "trans_t \<Rightarrow> insn_t \<Rightarrow> u32 \<Rightarrow> trans_t \<times> insn_t" where [trans_defs]:
  "trans_fence c i op = (c, i\<lparr>insn_handler := Do_empty\<rparr>)"

definition trans_fence_i :: "trans_t \<Rightarrow> insn_t \<Rightarrow> u32 \<Rightarrow> trans_t \<times> insn_t" where [trans_defs]:
  "trans_fence_i c i op = (c, i\<lparr>insn_handler := Do_empty\<rparr>)"

definition gen_trans_csr :: "csr_handler \<Rightarrow> trans_t \<Rightarrow> insn_t \<Rightarrow> u32 \<Rightarrow> trans_t \<times> insn_t" where [trans_defs]:
  "gen_trans_csr h c i op = (c, (decode_insn32_extract_csr i op)\<lparr>insn_handler := H_csr h\<rparr>)"

text \<open>The two loads read no \<open>rs2\<close> field; the other twenty use the format of the store.\<close>

fun trans_atom :: "atom_handler \<Rightarrow> trans_t \<Rightarrow> insn_t \<Rightarrow> u32 \<Rightarrow> trans_t \<times> insn_t" where
  "trans_atom Do_lr_w c i op =
     (c, (decode_insn32_extract_atom_ld i op)\<lparr>insn_handler := H_atom Do_lr_w\<rparr>)"
| "trans_atom Do_lr_d c i op =
     (c, (decode_insn32_extract_atom_ld i op)\<lparr>insn_handler := H_atom Do_lr_d\<rparr>)"
| "trans_atom h c i op =
     (c, (decode_insn32_extract_atom_st i op)\<lparr>insn_handler := H_atom h\<rparr>)"

section \<open>Dispatch\<close>

definition OPCODE_MASK :: u32 where "OPCODE_MASK = 0x0000007f"
definition FUNCT3_MASK :: u32 where "FUNCT3_MASK = 0x00007000"
definition FUNCT7_MASK :: u32 where "FUNCT7_MASK = 0xfe000000"
definition OP_27_31_MASK :: u32 where "OP_27_31_MASK = 0xf8000000"
definition OP_20_24_MASK :: u32 where "OP_20_24_MASK = 0x01f00000"
definition I_11_X_MASK :: u32 where "I_11_X_MASK = 0xfc000000"

definition decode_load :: "trans_t \<Rightarrow> insn_t \<Rightarrow> u32 \<Rightarrow> trans_t \<times> insn_t" where
  "decode_load c i op =
    (if op AND FUNCT3_MASK = 0x00000000 then gen_trans_i Do_lb c i op
     else if op AND FUNCT3_MASK = 0x00001000 then gen_trans_i Do_lh c i op
     else if op AND FUNCT3_MASK = 0x00002000 then gen_trans_i Do_lw c i op
     else if op AND FUNCT3_MASK = 0x00003000 then gen_trans_i Do_ld c i op
     else if op AND FUNCT3_MASK = 0x00004000 then gen_trans_i Do_lbu c i op
     else if op AND FUNCT3_MASK = 0x00005000 then gen_trans_i Do_lhu c i op
     else if op AND FUNCT3_MASK = 0x00006000 then gen_trans_i Do_lwu c i op
     else trans_illegal c i)"

definition decode_misc_mem :: "trans_t \<Rightarrow> insn_t \<Rightarrow> u32 \<Rightarrow> trans_t \<times> insn_t" where
  "decode_misc_mem c i op =
    (if op AND FUNCT3_MASK = 0x00000000 then
         (let (c, i) = (if op AND 0xffff8f80 = 0x01000000 then trans_pause c i op else (c, i))
          in trans_fence c i op)
     else if op AND FUNCT3_MASK = 0x00001000 then trans_fence_i c i op
     else trans_illegal c i)"

definition decode_op_imm :: "trans_t \<Rightarrow> insn_t \<Rightarrow> u32 \<Rightarrow> trans_t \<times> insn_t" where
  "decode_op_imm c i op =
    (if op AND FUNCT3_MASK = 0x00000000 then gen_trans_i Do_addi c i op
     else if op AND FUNCT3_MASK = 0x00001000 then
         (if op AND I_11_X_MASK = 0x00000000 then gen_trans_i Do_slli c i op
         else trans_illegal c i)
     else if op AND FUNCT3_MASK = 0x00002000 then gen_trans_i Do_slti c i op
     else if op AND FUNCT3_MASK = 0x00003000 then gen_trans_i Do_sltiu c i op
     else if op AND FUNCT3_MASK = 0x00004000 then gen_trans_i Do_xori c i op
     else if op AND FUNCT3_MASK = 0x00005000 then
         (if op AND I_11_X_MASK = 0x00000000 then gen_trans_i Do_srli c i op
         else if op AND I_11_X_MASK = 0x40000000 then gen_trans_i Do_srai c i op
         else trans_illegal c i)
     else if op AND FUNCT3_MASK = 0x00006000 then gen_trans_i Do_ori c i op
     else if op AND FUNCT3_MASK = 0x00007000 then gen_trans_i Do_andi c i op
     else trans_illegal c i)"

definition decode_op_imm_32 :: "trans_t \<Rightarrow> insn_t \<Rightarrow> u32 \<Rightarrow> trans_t \<times> insn_t" where
  "decode_op_imm_32 c i op =
    (if op AND FUNCT3_MASK = 0x00000000 then gen_trans_i Do_addiw c i op
     else if op AND FUNCT3_MASK = 0x00001000 then
         (if op AND FUNCT7_MASK = 0x00000000 then gen_trans_i Do_slliw c i op
         else trans_illegal c i)
     else if op AND FUNCT3_MASK = 0x00005000 then
         (if op AND FUNCT7_MASK = 0x00000000 then gen_trans_i Do_srliw c i op
         else if op AND FUNCT7_MASK = 0x40000000 then gen_trans_i Do_sraiw c i op
         else trans_illegal c i)
     else trans_illegal c i)"

definition decode_store :: "trans_t \<Rightarrow> insn_t \<Rightarrow> u32 \<Rightarrow> trans_t \<times> insn_t" where
  "decode_store c i op =
    (if op AND FUNCT3_MASK = 0x00000000 then gen_trans_s Do_sb c i op
     else if op AND FUNCT3_MASK = 0x00001000 then gen_trans_s Do_sh c i op
     else if op AND FUNCT3_MASK = 0x00002000 then gen_trans_s Do_sw c i op
     else if op AND FUNCT3_MASK = 0x00003000 then gen_trans_s Do_sd c i op
     else trans_illegal c i)"

definition decode_amo_w :: "trans_t \<Rightarrow> insn_t \<Rightarrow> u32 \<Rightarrow> trans_t \<times> insn_t" where
  "decode_amo_w c i op =
    (if op AND OP_27_31_MASK = 0x00000000 then trans_atom Do_amoadd_w c i op
     else if op AND OP_27_31_MASK = 0x08000000 then trans_atom Do_amoswap_w c i op
     else if op AND OP_27_31_MASK = 0x10000000 then
         (if op AND OP_20_24_MASK = 0x00000000 then trans_atom Do_lr_w c i op
         else trans_illegal c i)
     else if op AND OP_27_31_MASK = 0x18000000 then trans_atom Do_sc_w c i op
     else if op AND OP_27_31_MASK = 0x20000000 then trans_atom Do_amoxor_w c i op
     else if op AND OP_27_31_MASK = 0x40000000 then trans_atom Do_amoor_w c i op
     else if op AND OP_27_31_MASK = 0x60000000 then trans_atom Do_amoand_w c i op
     else if op AND OP_27_31_MASK = 0x80000000 then trans_atom Do_amomin_w c i op
     else if op AND OP_27_31_MASK = 0xa0000000 then trans_atom Do_amomax_w c i op
     else if op AND OP_27_31_MASK = 0xc0000000 then trans_atom Do_amominu_w c i op
     else if op AND OP_27_31_MASK = 0xe0000000 then trans_atom Do_amomaxu_w c i op
     else trans_illegal c i)"

definition decode_amo_d :: "trans_t \<Rightarrow> insn_t \<Rightarrow> u32 \<Rightarrow> trans_t \<times> insn_t" where
  "decode_amo_d c i op =
    (if op AND OP_27_31_MASK = 0x00000000 then trans_atom Do_amoadd_d c i op
     else if op AND OP_27_31_MASK = 0x08000000 then trans_atom Do_amoswap_d c i op
     else if op AND OP_27_31_MASK = 0x10000000 then
         (if op AND OP_20_24_MASK = 0x00000000 then trans_atom Do_lr_d c i op
         else trans_illegal c i)
     else if op AND OP_27_31_MASK = 0x18000000 then trans_atom Do_sc_d c i op
     else if op AND OP_27_31_MASK = 0x20000000 then trans_atom Do_amoxor_d c i op
     else if op AND OP_27_31_MASK = 0x40000000 then trans_atom Do_amoor_d c i op
     else if op AND OP_27_31_MASK = 0x60000000 then trans_atom Do_amoand_d c i op
     else if op AND OP_27_31_MASK = 0x80000000 then trans_atom Do_amomin_d c i op
     else if op AND OP_27_31_MASK = 0xa0000000 then trans_atom Do_amomax_d c i op
     else if op AND OP_27_31_MASK = 0xc0000000 then trans_atom Do_amominu_d c i op
     else if op AND OP_27_31_MASK = 0xe0000000 then trans_atom Do_amomaxu_d c i op
     else trans_illegal c i)"

definition decode_amo :: "trans_t \<Rightarrow> insn_t \<Rightarrow> u32 \<Rightarrow> trans_t \<times> insn_t" where
  "decode_amo c i op =
    (if op AND FUNCT3_MASK = 0x00002000 then decode_amo_w c i op
     else if op AND FUNCT3_MASK = 0x00003000 then decode_amo_d c i op
     else trans_illegal c i)"

definition decode_op :: "trans_t \<Rightarrow> insn_t \<Rightarrow> u32 \<Rightarrow> trans_t \<times> insn_t" where
  "decode_op c i op =
    (if op AND FUNCT3_MASK = 0x00000000 then
         (if op AND FUNCT7_MASK = 0x00000000 then gen_trans_r Do_add c i op
         else if op AND FUNCT7_MASK = 0x40000000 then gen_trans_r Do_sub c i op
         else if op AND FUNCT7_MASK = 0x02000000 then gen_trans_r Do_mul c i op
         else trans_illegal c i)
     else if op AND FUNCT3_MASK = 0x00001000 then
         (if op AND FUNCT7_MASK = 0x00000000 then gen_trans_r Do_sll c i op
         else if op AND FUNCT7_MASK = 0x02000000 then gen_trans_r Do_mulh c i op
         else trans_illegal c i)
     else if op AND FUNCT3_MASK = 0x00002000 then
         (if op AND FUNCT7_MASK = 0x00000000 then gen_trans_r Do_slt c i op
         else if op AND FUNCT7_MASK = 0x02000000 then gen_trans_r Do_mulhsu c i op
         else trans_illegal c i)
     else if op AND FUNCT3_MASK = 0x00003000 then
         (if op AND FUNCT7_MASK = 0x00000000 then gen_trans_r Do_sltu c i op
         else if op AND FUNCT7_MASK = 0x02000000 then gen_trans_r Do_mulhu c i op
         else trans_illegal c i)
     else if op AND FUNCT3_MASK = 0x00004000 then
         (if op AND FUNCT7_MASK = 0x00000000 then gen_trans_r Do_xor c i op
         else if op AND FUNCT7_MASK = 0x02000000 then gen_trans_r Do_div c i op
         else trans_illegal c i)
     else if op AND FUNCT3_MASK = 0x00005000 then
         (if op AND FUNCT7_MASK = 0x00000000 then gen_trans_r Do_srl c i op
         else if op AND FUNCT7_MASK = 0x40000000 then gen_trans_r Do_sra c i op
         else if op AND FUNCT7_MASK = 0x02000000 then gen_trans_r Do_divu c i op
         else trans_illegal c i)
     else if op AND FUNCT3_MASK = 0x00006000 then
         (if op AND FUNCT7_MASK = 0x00000000 then gen_trans_r Do_or c i op
         else if op AND FUNCT7_MASK = 0x02000000 then gen_trans_r Do_rem c i op
         else trans_illegal c i)
     else if op AND FUNCT3_MASK = 0x00007000 then
         (if op AND FUNCT7_MASK = 0x00000000 then gen_trans_r Do_and c i op
         else if op AND FUNCT7_MASK = 0x02000000 then gen_trans_r Do_remu c i op
         else trans_illegal c i)
     else trans_illegal c i)"

definition decode_op_32 :: "trans_t \<Rightarrow> insn_t \<Rightarrow> u32 \<Rightarrow> trans_t \<times> insn_t" where
  "decode_op_32 c i op =
    (if op AND FUNCT3_MASK = 0x00000000 then
         (if op AND FUNCT7_MASK = 0x00000000 then gen_trans_r Do_addw c i op
         else if op AND FUNCT7_MASK = 0x40000000 then gen_trans_r Do_subw c i op
         else if op AND FUNCT7_MASK = 0x02000000 then gen_trans_r Do_mulw c i op
         else trans_illegal c i)
     else if op AND FUNCT3_MASK = 0x00001000 then
         (if op AND FUNCT7_MASK = 0x00000000 then gen_trans_r Do_sllw c i op
         else trans_illegal c i)
     else if op AND FUNCT3_MASK = 0x00004000 then
         (if op AND FUNCT7_MASK = 0x02000000 then gen_trans_r Do_divw c i op
         else trans_illegal c i)
     else if op AND FUNCT3_MASK = 0x00005000 then
         (if op AND FUNCT7_MASK = 0x00000000 then gen_trans_r Do_srlw c i op
         else if op AND FUNCT7_MASK = 0x40000000 then gen_trans_r Do_sraw c i op
         else if op AND FUNCT7_MASK = 0x02000000 then gen_trans_r Do_divuw c i op
         else trans_illegal c i)
     else if op AND FUNCT3_MASK = 0x00006000 then
         (if op AND FUNCT7_MASK = 0x02000000 then gen_trans_r Do_remw c i op
         else trans_illegal c i)
     else if op AND FUNCT3_MASK = 0x00007000 then
         (if op AND FUNCT7_MASK = 0x02000000 then gen_trans_r Do_remuw c i op
         else trans_illegal c i)
     else trans_illegal c i)"

definition decode_branch :: "trans_t \<Rightarrow> insn_t \<Rightarrow> u32 \<Rightarrow> trans_t \<times> insn_t" where
  "decode_branch c i op =
    (if op AND FUNCT3_MASK = 0x00000000 then gen_trans_b Do_beq c i op
     else if op AND FUNCT3_MASK = 0x00001000 then gen_trans_b Do_bne c i op
     else if op AND FUNCT3_MASK = 0x00004000 then gen_trans_b Do_blt c i op
     else if op AND FUNCT3_MASK = 0x00005000 then gen_trans_b Do_bge c i op
     else if op AND FUNCT3_MASK = 0x00006000 then gen_trans_b Do_bltu c i op
     else if op AND FUNCT3_MASK = 0x00007000 then gen_trans_b Do_bgeu c i op
     else trans_illegal c i)"

definition decode_jalr :: "trans_t \<Rightarrow> insn_t \<Rightarrow> u32 \<Rightarrow> trans_t \<times> insn_t" where
  "decode_jalr c i op =
    (if op AND FUNCT3_MASK = 0x00000000 then trans_jalr c i op
     else trans_illegal c i)"

definition decode_system :: "trans_t \<Rightarrow> insn_t \<Rightarrow> u32 \<Rightarrow> trans_t \<times> insn_t" where
  "decode_system c i op =
    (if op AND FUNCT3_MASK = 0x00000000 then trans_ecall c i op
     else if op AND FUNCT3_MASK = 0x00001000 then gen_trans_csr Do_csrrw c i op
     else if op AND FUNCT3_MASK = 0x00002000 then gen_trans_csr Do_csrrs c i op
     else if op AND FUNCT3_MASK = 0x00003000 then gen_trans_csr Do_csrrc c i op
     else if op AND FUNCT3_MASK = 0x00005000 then gen_trans_csr Do_csrrwi c i op
     else if op AND FUNCT3_MASK = 0x00006000 then gen_trans_csr Do_csrrsi c i op
     else if op AND FUNCT3_MASK = 0x00007000 then gen_trans_csr Do_csrrci c i op
     else trans_illegal c i)"

definition decode_insn32 :: "trans_t \<Rightarrow> insn_t \<Rightarrow> u32 \<Rightarrow> trans_t \<times> insn_t" where
  "decode_insn32 c i op =
    (if op AND OPCODE_MASK = 0x00000003 then decode_load c i op
     else if op AND OPCODE_MASK = 0x0000000f then decode_misc_mem c i op
     else if op AND OPCODE_MASK = 0x00000013 then decode_op_imm c i op
     else if op AND OPCODE_MASK = 0x00000017 then trans_auipc c i op
     else if op AND OPCODE_MASK = 0x0000001b then decode_op_imm_32 c i op
     else if op AND OPCODE_MASK = 0x00000023 then decode_store c i op
     else if op AND OPCODE_MASK = 0x0000002f then decode_amo c i op
     else if op AND OPCODE_MASK = 0x00000033 then decode_op c i op
     else if op AND OPCODE_MASK = 0x00000037 then trans_lui c i op
     else if op AND OPCODE_MASK = 0x0000003b then decode_op_32 c i op
     else if op AND OPCODE_MASK = 0x00000063 then decode_branch c i op
     else if op AND OPCODE_MASK = 0x00000067 then decode_jalr c i op
     else if op AND OPCODE_MASK = 0x0000006f then trans_jal c i op
     else if op AND OPCODE_MASK = 0x00000073 then decode_system c i op
     else trans_illegal c i)"

definition insn_len :: "u32 \<Rightarrow> nat" where
  "insn_len opcode = (if opcode AND 0x3 = 3 then 4 else 2)"

end
