(* ===== verification/Decode_Props.thy ===== *)
theory Decode_Props
  imports Decode32
begin

text \<open>
  What every decoding guarantees, whatever the opcode.  The instruction always gets a handler that
  belongs to an instruction of its length, register numbers below 32 and, where the handler does not
  check it, a destination other than \<open>x0\<close>; the context changes exactly as the instruction asks
  (\<open>context_after\<close>).
\<close>

section \<open>What a decoded instruction tells the translator\<close>

fun ends_block :: "handler \<Rightarrow> bool" where
  "ends_block Do_illegal = True"
| "ends_block Do_ecall = True"
| "ends_block (H_jump h) = True"
| "ends_block (H_b h) = True"
| "ends_block _ = False"

fun handler_len :: "handler \<Rightarrow> nat option" where
  "handler_len (H_jump Do_c_jal) = Some 2"
| "handler_len (H_jump Do_c_jalr) = Some 2"
| "handler_len (H_jump Do_jal) = Some 4"
| "handler_len (H_jump Do_jalr) = Some 4"
| "handler_len (H_b Do_c_beq) = Some 2"
| "handler_len (H_b Do_c_bne) = Some 2"
| "handler_len (H_b _) = Some 4"
| "handler_len Do_ecall = Some 4"
| "handler_len _ = None"

text \<open>
  The context after an instruction of \<open>len\<close> bytes: a branch announces both successors, a direct jump
  its target, the other instructions that end a block only stop the translation.
\<close>

definition context_after :: "nat \<Rightarrow> insn_t \<Rightarrow> trans_t \<Rightarrow> trans_t" where
  "context_after len i c = (case insn_handler i of
     H_b h \<Rightarrow> c\<lparr>tc_link := True, pc_next0 := tc_pc c + simm i, pc_next1 := tc_pc c + of_nat len,
       tc_exit := True\<rparr>
   | H_jump h \<Rightarrow> (if h = Do_jal \<or> h = Do_c_jal
       then c\<lparr>tc_link := True, pc_next0 := tc_pc c + simm i, tc_exit := True\<rparr>
       else c\<lparr>tc_exit := True\<rparr>)
   | _ \<Rightarrow> (if ends_block (insn_handler i) then c\<lparr>tc_exit := True\<rparr> else c))"

definition decode_ok :: "nat \<Rightarrow> trans_t \<Rightarrow> trans_t \<times> insn_t \<Rightarrow> bool" where
  "decode_ok len c r = (case r of (c', i) \<Rightarrow>
     regs_ok i \<and> insn_handler i \<noteq> Null_handler \<and>
     (case handler_len (insn_handler i) of None \<Rightarrow> True | Some n \<Rightarrow> n = len) \<and>
     (case insn_handler i of H_r _ \<Rightarrow> rd i \<noteq> 0 | H_i _ \<Rightarrow> rd i \<noteq> 0 | _ \<Rightarrow> True) \<and>
     (ends_block (insn_handler i) \<or> insn_handler i = Do_auipc \<longrightarrow> insn_pc i = tc_pc c) \<and>
     c' = context_after len i c)"

section \<open>Register numbers\<close>

lemma extract_reg [simp]:
  "unat (extract32 v s 5) < 32" if "s \<le> 27" for s
  using extract32_less [of s 5 v] that by (simp add: field_ok_def)

lemma rvc_reg:
  assumes "s \<le> 29"
  shows "unat (ex_rvc_register (extract32 v s 3)) < 16 \<and> ex_rvc_register (extract32 v s 3) \<noteq> 0"
proof -
  have b: "unat (extract32 v s 3) < 8"
    using extract32_less [of s 3 v] assms by (simp add: field_ok_def)
  have "unat (8 + extract32 v s 3) = 8 + unat (extract32 v s 3)"
    using b by (subst unat_add_lem [THEN iffD1]) auto
  with b show ?thesis
    by (auto simp: ex_rvc_register_def)
qed

lemma rvc_reg_simps [simp]:
  assumes "s \<le> 29"
  shows "unat (ex_rvc_register (extract32 v s 3)) < 32" "ex_rvc_register (extract32 v s 3) \<noteq> 0"
  using rvc_reg [OF assms, of v] by auto


lemma simm_update [simp]:
  "simm (i\<lparr>insn_handler := h\<rparr>) = simm i" "simm (i\<lparr>insn_pc := p\<rparr>) = simm i"
  by (simp_all add: simm_def)

lemmas decode_ok_unfold = decode_ok_def context_after_def regs_ok_def

lemma trans_illegal_ok [decode_oks]: "regs_ok i \<Longrightarrow> decode_ok len c (trans_illegal c i)"
  by (simp add: trans_illegal_def decode_ok_unfold)

lemma trans16_ok [decode_oks]:
  assumes "regs_ok i"
  shows
  "decode_ok 2 c (trans_c_addi4spn c i op)"
  "decode_ok 2 c (trans_c_lw c i op)"
  "decode_ok 2 c (trans_c_ld c i op)"
  "decode_ok 2 c (trans_c_sw c i op)"
  "decode_ok 2 c (trans_c_sd c i op)"
  "decode_ok 2 c (trans_c_addi c i op)"
  "decode_ok 2 c (trans_c_addiw c i op)"
  "decode_ok 2 c (trans_c_li c i op)"
  "decode_ok 2 c (trans_c_addi16sp c i op)"
  "decode_ok 2 c (trans_c_lui c i op)"
  "decode_ok 2 c (trans_c_srli c i op)"
  "decode_ok 2 c (trans_c_srai c i op)"
  "decode_ok 2 c (trans_c_andi c i op)"
  "decode_ok 2 c (trans_c_sub c i op)"
  "decode_ok 2 c (trans_c_xor c i op)"
  "decode_ok 2 c (trans_c_or c i op)"
  "decode_ok 2 c (trans_c_and c i op)"
  "decode_ok 2 c (trans_c_subw c i op)"
  "decode_ok 2 c (trans_c_addw c i op)"
  "decode_ok 2 c (trans_c_j c i op)"
  "decode_ok 2 c (trans_c_beqz c i op)"
  "decode_ok 2 c (trans_c_bnez c i op)"
  "decode_ok 2 c (trans_c_jr c i op)"
  "decode_ok 2 c (trans_c_mv c i op)"
  "decode_ok 2 c (trans_c_ldsp c i op)"
  "decode_ok 2 c (trans_c_slli c i op)"
  "decode_ok 2 c (trans_c_lwsp c i op)"
  "decode_ok 2 c (trans_c_ebreak c i op)"
  "decode_ok 2 c (trans_c_jalr c i op)"
  "decode_ok 2 c (trans_c_add c i op)"
  "decode_ok 2 c (trans_c_swsp c i op)"
  "decode_ok 2 c (trans_c_sdsp c i op)"
  using assms
  by (simp_all add: trans_defs extract_defs decode_ok_unfold Let_def)

section \<open>Every opcode\<close>

lemma decode_ok_if:
  "decode_ok len c x \<Longrightarrow> decode_ok len c y \<Longrightarrow> decode_ok len c (if b then x else y)"
  by simp

lemma decode_insn16_ok:
  assumes "regs_ok i"
  shows "decode_ok 2 c (decode_insn16 c i op)"
  unfolding decode_insn16_def decode_c_alu_def decode_c_cr_def
  by (intro decode_ok_if decode_oks assms)

lemma trans32_ok [decode_oks]:
  assumes "regs_ok i"
  shows
  "decode_ok 4 c (gen_trans_r hr c i op)"
  "decode_ok 4 c (gen_trans_i hi c i op)"
  "decode_ok 4 c (gen_trans_s hs c i op)"
  "hb \<noteq> Do_c_beq \<and> hb \<noteq> Do_c_bne \<Longrightarrow> decode_ok 4 c (gen_trans_b hb c i op)"
  "decode_ok 4 c (trans_ecall c i op)"
  "decode_ok 4 c (trans_auipc c i op)"
  "decode_ok 4 c (trans_lui c i op)"
  "decode_ok 4 c (trans_jal c i op)"
  "decode_ok 4 c (trans_jalr c i op)"
  "decode_ok 4 c (trans_fence c i op)"
  "decode_ok 4 c (trans_fence_i c i op)"
  "decode_ok 4 c (gen_trans_csr hc c i op)"
  "decode_ok 4 c (trans_atom ha c i op)"
proof -
  show "decode_ok 4 c (trans_atom ha c i op)"
    using assms by (cases ha) (simp_all add: extract_defs decode_ok_unfold)
  show "decode_ok 4 c (gen_trans_b hb c i op)" if "hb \<noteq> Do_c_beq \<and> hb \<noteq> Do_c_bne"
    using assms that by (cases hb) (simp_all add: trans_defs extract_defs decode_ok_unfold Let_def)
qed (use assms in \<open>simp_all add: trans_defs extract_defs decode_ok_unfold Let_def\<close>)

lemma decode_insn32_ok:
  assumes "regs_ok i"
  shows "decode_ok 4 c (decode_insn32 c i op)"
proof -
  have fence: "(let (c, i) = if b then trans_pause c i op else (c, i) in trans_fence c i op)
      = trans_fence c i op" for b
    by (simp add: trans_defs)
  show ?thesis
    unfolding decode_insn32_def decode_load_def decode_misc_mem_def decode_op_imm_def
      decode_op_imm_32_def decode_store_def decode_amo_def decode_amo_w_def decode_amo_d_def
      decode_op_def decode_op_32_def decode_branch_def decode_jalr_def decode_system_def fence
    by (intro decode_ok_if decode_oks assms; simp)
qed

end
