(* ===== verification/Encode.thy ===== *)
theory Encode
  imports Decode_Props
begin

text \<open>
  Instruction encodings of the RISC-V manual, written like the macro \<open>GEN_I\<close> of \<open>tests/test_hello.c\<close>: each field
  is masked to its width and shifted to its place.  The tables give the opcode and function fields of
  every instruction; the lemmas say that decoding an encoding gives the instruction back.
\<close>

section \<open>Encoders\<close>

definition GEN_I :: "u32 \<Rightarrow> u32 \<Rightarrow> u32 \<Rightarrow> u32 \<Rightarrow> u32 \<Rightarrow> u32" where
  "GEN_I im r1 fn3 d op =
     push_bit 20 (im AND 0b111111111111) OR push_bit 15 (r1 AND 0b11111) OR
     push_bit 12 (fn3 AND 0b111) OR push_bit 7 (d AND 0b11111) OR (op AND 0b1111111)"

definition gen_jalr :: "u32 \<Rightarrow> u32 \<Rightarrow> u32 \<Rightarrow> u32" where
  "gen_jalr d offset r1 = GEN_I offset r1 0b000 d 0b1100111"

definition gen_ret :: u32 where
  "gen_ret = gen_jalr 0 0 1"

definition GEN_R :: "u32 \<Rightarrow> u32 \<Rightarrow> u32 \<Rightarrow> u32 \<Rightarrow> u32 \<Rightarrow> u32 \<Rightarrow> u32" where
  "GEN_R fn7 r2 r1 fn3 d op =
     push_bit 25 (take_bit 7 fn7) OR push_bit 20 (take_bit 5 r2) OR push_bit 15 (take_bit 5 r1) OR
     push_bit 12 (take_bit 3 fn3) OR push_bit 7 (take_bit 5 d) OR take_bit 7 op"

definition GEN_S :: "u32 \<Rightarrow> u32 \<Rightarrow> u32 \<Rightarrow> u32 \<Rightarrow> u32 \<Rightarrow> u32" where
  "GEN_S im r2 r1 fn3 op = GEN_R (drop_bit 5 im) r2 r1 fn3 im op"

text \<open>The two scattered fields of the B format, and an immediate without its lowest bit.\<close>

definition B_hi :: "u32 \<Rightarrow> u32" where
  "B_hi im = push_bit 6 (take_bit 1 (drop_bit 12 im)) OR take_bit 6 (drop_bit 5 im)"

definition B_lo :: "u32 \<Rightarrow> u32" where
  "B_lo im = push_bit 1 (take_bit 4 (drop_bit 1 im)) OR take_bit 1 (drop_bit 11 im)"

definition clear_lsb :: "u32 \<Rightarrow> u32" where
  "clear_lsb im = push_bit 1 (drop_bit 1 im)"

definition GEN_B :: "u32 \<Rightarrow> u32 \<Rightarrow> u32 \<Rightarrow> u32 \<Rightarrow> u32 \<Rightarrow> u32" where
  "GEN_B im r2 r1 fn3 op = GEN_R (B_hi im) r2 r1 fn3 (B_lo im) op"

definition GEN_U :: "u32 \<Rightarrow> u32 \<Rightarrow> u32 \<Rightarrow> u32" where
  "GEN_U im d op =
     push_bit 12 (drop_bit 12 im) OR push_bit 7 (take_bit 5 d) OR take_bit 7 op"

definition GEN_J :: "u32 \<Rightarrow> u32 \<Rightarrow> u32 \<Rightarrow> u32" where
  "GEN_J im d op =
     push_bit 31 (take_bit 1 (drop_bit 20 im)) OR push_bit 21 (take_bit 10 (drop_bit 1 im)) OR
     push_bit 20 (take_bit 1 (drop_bit 11 im)) OR push_bit 12 (take_bit 8 (drop_bit 12 im)) OR
     push_bit 7 (take_bit 5 d) OR take_bit 7 op"

section \<open>Fields\<close>

lemma mask_fields:
  "OPCODE_MASK = push_bit 0 (mask 7)" "FUNCT3_MASK = push_bit 12 (mask 3)"
  "FUNCT7_MASK = push_bit 25 (mask 7)" "OP_27_31_MASK = push_bit 27 (mask 5)"
  "OP_20_24_MASK = push_bit 20 (mask 5)" "I_11_X_MASK = push_bit 26 (mask 6)"
  by (simp_all add: OPCODE_MASK_def FUNCT3_MASK_def FUNCT7_MASK_def OP_27_31_MASK_def
      OP_20_24_MASK_def I_11_X_MASK_def mask_eq_exp_minus_1)

lemma and_push_mask: "op AND push_bit s (mask l) = push_bit s (take_bit l (drop_bit s op))"
  for op :: u32
  by (rule bit_word_eqI) (auto simp: bit_and_iff bit_push_bit_iff bit_mask_iff bit_take_bit_iff bit_drop_bit_eq)

lemma and_masks:
  "x AND 0b111111111111 = take_bit 12 x" "x AND 0b11111 = take_bit 5 x" "x AND 0b111 = take_bit 3 x"
  "x AND 0b1111111 = take_bit 7 x" for x :: u32
proof -
  have "mask 12 = (0b111111111111 :: u32)" "mask 5 = (0b11111 :: u32)" "mask 3 = (0b111 :: u32)"
    "mask 7 = (0b1111111 :: u32)" by (simp_all add: mask_eq_exp_minus_1)
  then show "x AND 0b111111111111 = take_bit 12 x" "x AND 0b11111 = take_bit 5 x" "x AND 0b111 = take_bit 3 x"
    "x AND 0b1111111 = take_bit 7 x"
    by (metis take_bit_eq_mask)+
qed

lemmas bit_iffs = bit_or_iff bit_and_iff bit_push_bit_iff bit_take_bit_iff bit_drop_bit_eq bit_signed_take_bit_iff

lemma GEN_I_R: "GEN_I im r1 f3 d opc = GEN_R (drop_bit 5 im) im r1 f3 d opc"
  unfolding GEN_I_def GEN_R_def and_masks
  by (rule bit_word_eqI) (auto simp: bit_iffs)

section \<open>Immediates\<close>

text \<open>One-bit shifts and fields, kept from the rules that turn them into arithmetic.\<close>

lemma bit_ex_shift [bits]:
  "bit (ex_shift_1 v) n \<longleftrightarrow> 1 \<le> n \<and> n < 32 \<and> bit v (n - 1)"
  "bit (ex_shift_2 v) n \<longleftrightarrow> 2 \<le> n \<and> n < 32 \<and> bit v (n - 2)"
  "bit (ex_shift_3 v) n \<longleftrightarrow> 3 \<le> n \<and> n < 32 \<and> bit v (n - 3)"
  "bit (ex_shift_4 v) n \<longleftrightarrow> 4 \<le> n \<and> n < 32 \<and> bit v (n - 4)"
  "bit (ex_shift_12 v) n \<longleftrightarrow> 12 \<le> n \<and> n < 32 \<and> bit v (n - 12)"
  by (simp_all only: ex_shift_defs bit_push_bit_iff) (auto dest: bit_imp_le_length)

lemma bit_B [bits]:
  "bit (B_hi im) n \<longleftrightarrow> (if n < 6 then bit im (n + 5) else n = 6 \<and> bit im 12)"
  "bit (B_lo im) n \<longleftrightarrow> (if n = 0 then bit im 11 else n < 5 \<and> bit im n)"
  "bit (clear_lsb im) n \<longleftrightarrow> 1 \<le> n \<and> bit im n"
  unfolding B_hi_def B_lo_def clear_lsb_def bit_or_iff bit_push_bit_iff bit_take_bit_iff bit_drop_bit_eq
  by (auto simp: possible_bit_def add.commute dest: bit_imp_le_length simp del: bit_0)

lemma bit_GEN_R [bits]:
  "bit (GEN_R f7 r2 r1 f3 d opc) n \<longleftrightarrow>
    (if n < 7 then bit opc n else if n < 12 then bit d (n - 7) else if n < 15 then bit f3 (n - 12)
     else if n < 20 then bit r1 (n - 15) else if n < 25 then bit r2 (n - 20)
     else n < 32 \<and> bit f7 (n - 25))"
  by (auto simp: GEN_R_def bit_iffs)

lemma bit_GEN_U [bits]:
  "bit (GEN_U im d opc) n \<longleftrightarrow>
    (if n < 7 then bit opc n else if n < 12 then bit d (n - 7) else bit im n)"
  by (auto simp: GEN_U_def bit_iffs dest: bit_imp_le_length)

lemma bit_GEN_J [bits]:
  "bit (GEN_J im d opc) n \<longleftrightarrow>
    (if n < 7 then bit opc n else if n < 12 then bit d (n - 7) else if n < 20 then bit im n
     else if n = 20 then bit im 11 else if n < 31 then bit im (n - 20) else n = 31 \<and> bit im 20)"
proof (cases "n < 32")
  case True
  have "20 < n \<Longrightarrow> 1 + (n - 21) = n - 20" by simp
  then show ?thesis
    using True unfolding GEN_J_def bit_or_iff bit_push_bit_iff bit_take_bit_iff bit_drop_bit_eq
    by (cases "n < 20"; cases "n = 20")
      (auto simp: possible_bit_def dest: bit_imp_le_length simp del: bit_0)
next
  case False
  then show ?thesis by (auto dest: bit_imp_le_length)
qed

text \<open>The words as the masks of the dispatch and the extraction of the registers see them.\<close>

lemma mask_bits:
  "bit OPCODE_MASK n \<longleftrightarrow> n < 7" "bit FUNCT3_MASK n \<longleftrightarrow> 12 \<le> n \<and> n < 15"
  "bit FUNCT7_MASK n \<longleftrightarrow> 25 \<le> n \<and> n < 32" "bit OP_27_31_MASK n \<longleftrightarrow> 27 \<le> n \<and> n < 32"
  "bit OP_20_24_MASK n \<longleftrightarrow> 20 \<le> n \<and> n < 25" "bit I_11_X_MASK n \<longleftrightarrow> 26 \<le> n \<and> n < 32"
  unfolding mask_fields by (auto simp: bit_push_bit_iff bit_mask_iff)

lemma GEN_R_masks:
  "GEN_R f7 r2 r1 f3 d opc AND OPCODE_MASK = take_bit 7 opc"
  "GEN_R f7 r2 r1 f3 d opc AND FUNCT3_MASK = push_bit 12 (take_bit 3 f3)"
  "GEN_R f7 r2 r1 f3 d opc AND FUNCT7_MASK = push_bit 25 (take_bit 7 f7)"
  "GEN_R f7 r2 r1 f3 d opc AND I_11_X_MASK = push_bit 26 (take_bit 6 (drop_bit 1 f7))"
  "GEN_R f7 r2 r1 f3 d opc AND OP_27_31_MASK = push_bit 27 (take_bit 5 (drop_bit 2 f7))"
  "GEN_R f7 r2 r1 f3 d opc AND OP_20_24_MASK = push_bit 20 (take_bit 5 r2)"
  "extract32 (GEN_R f7 r2 r1 f3 d opc) 7 5 = take_bit 5 d"
  "extract32 (GEN_R f7 r2 r1 f3 d opc) 15 5 = take_bit 5 r1"
  "extract32 (GEN_R f7 r2 r1 f3 d opc) 20 5 = take_bit 5 r2"
proof -
  have n: "26 \<le> n \<Longrightarrow> 1 + (n - 26) = n - 25" "27 \<le> n \<Longrightarrow> Suc (Suc (n - 27)) = n - 25" for n :: nat by simp_all
  show "GEN_R f7 r2 r1 f3 d opc AND I_11_X_MASK = push_bit 26 (take_bit 6 (drop_bit 1 f7))"
    by (rule bit_word_eqI) (auto simp: mask_bits bits bit_iffs n simp del: One_nat_def)
  show "GEN_R f7 r2 r1 f3 d opc AND OP_27_31_MASK = push_bit 27 (take_bit 5 (drop_bit 2 f7))"
    by (rule bit_word_eqI) (auto simp: mask_bits bits bit_iffs n)
qed (rule bit_word_eqI; auto simp: mask_bits bits field_ok_def bit_iffs)+

lemma GEN_U_masks:
  "GEN_U im d opc AND OPCODE_MASK = take_bit 7 opc" "extract32 (GEN_U im d opc) 7 5 = take_bit 5 d"
  by (rule bit_word_eqI; auto simp: mask_bits bits field_ok_def bit_iffs)+

lemma GEN_J_masks:
  "GEN_J im d opc AND OPCODE_MASK = take_bit 7 opc" "extract32 (GEN_J im d opc) 7 5 = take_bit 5 d"
  by (rule bit_word_eqI; auto simp: mask_bits bits field_ok_def bit_iffs)+

lemma csr_field: "extract32 (GEN_I im r1 f3 d opc) 20 12 = take_bit 12 im"
  unfolding GEN_I_R by (rule bit_word_eqI) (auto simp: bits field_ok_def bit_iffs)

lemma imm_I:
  "sextract32 (GEN_I im r1 f3 d opc) 20 12 =
     signed_take_bit 11 im" (is "?lhs = ?rhs")
proof (rule bit_word_eqI)
  fix n :: nat assume n: "n < LENGTH(32)"
  consider "n < 11" | "n = 11" | "11 < n" by linarith
  then show "bit ?lhs n \<longleftrightarrow> bit ?rhs n"
    by cases (use n in \<open>auto simp: bits field_ok_def GEN_I_R bit_iffs min_def simp del: bit_0\<close>)
qed

lemma imm_S:
  "deposit32 (extract32 (GEN_S im r2 r1 f3 opc) 7 5) 5 27 (sextract32 (GEN_S im r2 r1 f3 opc) 25 7) =
     signed_take_bit 11 im" (is "?lhs = ?rhs")
proof (rule bit_word_eqI)
  fix n :: nat assume n: "n < LENGTH(32)"
  consider "n < 11" | "n = 11" | "11 < n" by linarith
  then show "bit ?lhs n \<longleftrightarrow> bit ?rhs n"
    by cases (use n in \<open>auto simp: bits field_ok_def GEN_S_def bit_iffs min_def simp del: bit_0\<close>)
qed

lemma imm_B:
  "ex_shift_1 (deposit32 (deposit32 (deposit32 (extract32 (GEN_B im r2 r1 f3 opc) 8 4) 4 28
       (extract32 (GEN_B im r2 r1 f3 opc) 25 6)) 10 22 (extract32 (GEN_B im r2 r1 f3 opc) 7 1)) 11 21
       (sextract32 (GEN_B im r2 r1 f3 opc) 31 1)) =
     signed_take_bit 12 (clear_lsb im)" (is "?lhs = ?rhs")
proof (rule bit_word_eqI)
  fix n :: nat assume n: "n < LENGTH(32)"
  consider "n < 11" | "n = 11" | "11 < n" "n < 12" | "n = 12" | "12 < n" by linarith
  then show "bit ?lhs n \<longleftrightarrow> bit ?rhs n"
    by cases (use n in \<open>auto simp: bits field_ok_def GEN_B_def bit_iffs min_def simp del: bit_0\<close>)
qed

lemma imm_U:
  "ex_shift_12 (sextract32 (GEN_U im d opc) 12 20) =
     push_bit 12 (drop_bit 12 im)" (is "?lhs = ?rhs")
proof (rule bit_word_eqI)
  fix n :: nat assume n: "n < LENGTH(32)"
  consider "n < 11" | "n = 11" | "11 < n" "n < 12" | "n = 12" | "12 < n" by linarith
  then show "bit ?lhs n \<longleftrightarrow> bit ?rhs n"
    by cases (use n in \<open>auto simp: bits field_ok_def bit_iffs min_def simp del: bit_0\<close>)
qed

lemma imm_J:
  "ex_shift_1 (deposit32 (deposit32 (deposit32 (extract32 (GEN_J im d opc) 21 10) 10 22
       (extract32 (GEN_J im d opc) 20 1)) 11 21 (extract32 (GEN_J im d opc) 12 8)) 19 13
       (sextract32 (GEN_J im d opc) 31 1)) =
     signed_take_bit 20 (clear_lsb im)" (is "?lhs = ?rhs")
proof (rule bit_word_eqI)
  fix n :: nat assume n: "n < LENGTH(32)"
  consider "n < 11" | "n = 11" | "11 < n" "n < 20" | "n = 20" | "20 < n" by linarith
  then show "bit ?lhs n \<longleftrightarrow> bit ?rhs n"
    by cases (use n in \<open>auto simp: bits field_ok_def bit_iffs min_def simp del: bit_0\<close>)
qed

section \<open>Tables\<close>

text \<open>\<open>funct7\<close>, \<open>funct3\<close> and opcode.\<close>

fun r_code :: "r_handler \<Rightarrow> u32 \<times> u32 \<times> u32" where
  "r_code Do_add = (0x0, 0x0, 0x33)"
| "r_code Do_sub = (0x20, 0x0, 0x33)"
| "r_code Do_sll = (0x0, 0x1, 0x33)"
| "r_code Do_slt = (0x0, 0x2, 0x33)"
| "r_code Do_sltu = (0x0, 0x3, 0x33)"
| "r_code Do_xor = (0x0, 0x4, 0x33)"
| "r_code Do_srl = (0x0, 0x5, 0x33)"
| "r_code Do_sra = (0x20, 0x5, 0x33)"
| "r_code Do_or = (0x0, 0x6, 0x33)"
| "r_code Do_and = (0x0, 0x7, 0x33)"
| "r_code Do_addw = (0x0, 0x0, 0x3b)"
| "r_code Do_subw = (0x20, 0x0, 0x3b)"
| "r_code Do_sllw = (0x0, 0x1, 0x3b)"
| "r_code Do_srlw = (0x0, 0x5, 0x3b)"
| "r_code Do_sraw = (0x20, 0x5, 0x3b)"
| "r_code Do_mul = (0x1, 0x0, 0x33)"
| "r_code Do_mulh = (0x1, 0x1, 0x33)"
| "r_code Do_mulhsu = (0x1, 0x2, 0x33)"
| "r_code Do_mulhu = (0x1, 0x3, 0x33)"
| "r_code Do_div = (0x1, 0x4, 0x33)"
| "r_code Do_divu = (0x1, 0x5, 0x33)"
| "r_code Do_rem = (0x1, 0x6, 0x33)"
| "r_code Do_remu = (0x1, 0x7, 0x33)"
| "r_code Do_mulw = (0x1, 0x0, 0x3b)"
| "r_code Do_divw = (0x1, 0x4, 0x3b)"
| "r_code Do_divuw = (0x1, 0x5, 0x3b)"
| "r_code Do_remw = (0x1, 0x6, 0x3b)"
| "r_code Do_remuw = (0x1, 0x7, 0x3b)"

text \<open>\<open>funct3\<close> and opcode.\<close>

fun i_code :: "i_handler \<Rightarrow> u32 \<times> u32" where
  "i_code Do_lb = (0x0, 0x3)"
| "i_code Do_lh = (0x1, 0x3)"
| "i_code Do_lw = (0x2, 0x3)"
| "i_code Do_ld = (0x3, 0x3)"
| "i_code Do_lbu = (0x4, 0x3)"
| "i_code Do_lhu = (0x5, 0x3)"
| "i_code Do_lwu = (0x6, 0x3)"
| "i_code Do_addi = (0x0, 0x13)"
| "i_code Do_slti = (0x2, 0x13)"
| "i_code Do_sltiu = (0x3, 0x13)"
| "i_code Do_xori = (0x4, 0x13)"
| "i_code Do_ori = (0x6, 0x13)"
| "i_code Do_andi = (0x7, 0x13)"
| "i_code Do_addiw = (0x0, 0x1b)"
| "i_code Do_slli = (0x1, 0x13)"
| "i_code Do_srli = (0x5, 0x13)"
| "i_code Do_srai = (0x5, 0x13)"
| "i_code Do_slliw = (0x1, 0x1b)"
| "i_code Do_srliw = (0x5, 0x1b)"
| "i_code Do_sraiw = (0x5, 0x1b)"

text \<open>A shift has the bits above its amount fixed: the width of the amount and those bits.\<close>

fun shift_code :: "i_handler \<Rightarrow> (nat \<times> u32) option" where
  "shift_code Do_slli = Some (6, 0x0)"
| "shift_code Do_srli = Some (6, 0x0)"
| "shift_code Do_srai = Some (6, 0x400)"
| "shift_code Do_slliw = Some (5, 0x0)"
| "shift_code Do_srliw = Some (5, 0x0)"
| "shift_code Do_sraiw = Some (5, 0x400)"
| "shift_code _ = None"

definition i_imm :: "i_handler \<Rightarrow> u32 \<Rightarrow> u32" where
  "i_imm h im = (case shift_code h of None \<Rightarrow> im | Some (w, hi) \<Rightarrow> hi OR take_bit w im)"

fun s_code :: "s_handler \<Rightarrow> u32" where
  "s_code Do_sb = 0"
| "s_code Do_sh = 1"
| "s_code Do_sw = 2"
| "s_code Do_sd = 3"

fun b_code :: "b_handler \<Rightarrow> u32" where
  "b_code Do_beq = 0"
| "b_code Do_bne = 1"
| "b_code Do_blt = 4"
| "b_code Do_bge = 5"
| "b_code Do_bltu = 6"
| "b_code Do_bgeu = 7"
| "b_code _ = 2"

fun csr_code :: "csr_handler \<Rightarrow> u32" where
  "csr_code Do_csrrw = 1"
| "csr_code Do_csrrs = 2"
| "csr_code Do_csrrc = 3"
| "csr_code Do_csrrwi = 5"
| "csr_code Do_csrrsi = 6"
| "csr_code Do_csrrci = 7"

text \<open>\<open>funct5\<close> and \<open>funct3\<close>; the two bits below \<open>funct5\<close> are \<open>aq\<close> and \<open>rl\<close>, which the decoder ignores.\<close>

fun atom_code :: "atom_handler \<Rightarrow> u32 \<times> u32" where
  "atom_code Do_lr_w = (0x2, 2)"
| "atom_code Do_sc_w = (0x3, 2)"
| "atom_code Do_amoadd_w = (0x0, 2)"
| "atom_code Do_amoswap_w = (0x1, 2)"
| "atom_code Do_amoxor_w = (0x4, 2)"
| "atom_code Do_amoor_w = (0x8, 2)"
| "atom_code Do_amoand_w = (0xc, 2)"
| "atom_code Do_amomin_w = (0x10, 2)"
| "atom_code Do_amomax_w = (0x14, 2)"
| "atom_code Do_amominu_w = (0x18, 2)"
| "atom_code Do_amomaxu_w = (0x1c, 2)"
| "atom_code Do_lr_d = (0x2, 3)"
| "atom_code Do_sc_d = (0x3, 3)"
| "atom_code Do_amoadd_d = (0x0, 3)"
| "atom_code Do_amoswap_d = (0x1, 3)"
| "atom_code Do_amoxor_d = (0x4, 3)"
| "atom_code Do_amoor_d = (0x8, 3)"
| "atom_code Do_amoand_d = (0xc, 3)"
| "atom_code Do_amomin_d = (0x10, 3)"
| "atom_code Do_amomax_d = (0x14, 3)"
| "atom_code Do_amominu_d = (0x18, 3)"
| "atom_code Do_amomaxu_d = (0x1c, 3)"


section \<open>Round trips\<close>

lemmas dispatch_defs = decode_insn32_def decode_load_def decode_misc_mem_def decode_op_imm_def
  decode_op_imm_32_def decode_store_def decode_amo_def decode_amo_w_def decode_amo_d_def decode_op_def
  decode_op_32_def decode_branch_def decode_jalr_def decode_system_def

lemma decode_GEN_R:
  assumes "r_code h = (f7, f3, opc)"
  shows "decode_insn32 c i (GEN_R f7 r2 r1 f3 d opc) = gen_trans_r h c i (GEN_R f7 r2 r1 f3 d opc)"
  using assms by (cases h) (auto simp: dispatch_defs GEN_R_masks)

lemma decode_GEN_I:
  assumes "i_code h = (f3, opc)"
  shows "decode_insn32 c i (GEN_I (i_imm h im) r1 f3 d opc) = gen_trans_i h c i (GEN_I (i_imm h im) r1 f3 d opc)"
proof -
  have z: "drop_bit 5 (take_bit 5 im) = 0" "drop_bit 6 (take_bit 6 im) = 0"
    "drop_bit 1 (drop_bit 5 (take_bit 6 im)) = 0"
    by (rule bit_word_eqI; auto simp: bit_iffs)+
  show ?thesis
    using assms unfolding GEN_I_R
    by (cases h) (auto simp: dispatch_defs GEN_R_masks i_imm_def z)
qed

lemma decode_GEN_S:
  "decode_insn32 c i (GEN_S im r2 r1 (s_code h) 0x23) = gen_trans_s h c i (GEN_S im r2 r1 (s_code h) 0x23)"
  by (cases h) (simp_all add: dispatch_defs GEN_S_def GEN_R_masks)

lemma decode_GEN_B:
  assumes "h \<noteq> Do_c_beq" and "h \<noteq> Do_c_bne"
  shows "decode_insn32 c i (GEN_B im r2 r1 (b_code h) 0x63) = gen_trans_b h c i (GEN_B im r2 r1 (b_code h) 0x63)"
  using assms by (cases h) (simp_all add: dispatch_defs GEN_B_def GEN_R_masks)

lemma decode_GEN_csr:
  "decode_insn32 c i (GEN_I im r1 (csr_code h) d 0x73) = gen_trans_csr h c i (GEN_I im r1 (csr_code h) d 0x73)"
  unfolding GEN_I_R by (cases h) (simp_all add: dispatch_defs GEN_R_masks)

lemma decode_GEN_U_J:
  "decode_insn32 c i (GEN_U im d 0x37) = trans_lui c i (GEN_U im d 0x37)"
  "decode_insn32 c i (GEN_U im d 0x17) = trans_auipc c i (GEN_U im d 0x17)"
  "decode_insn32 c i (GEN_J im d 0x6f) = trans_jal c i (GEN_J im d 0x6f)"
  "decode_insn32 c i (GEN_I im r1 0 d 0x67) = trans_jalr c i (GEN_I im r1 0 d 0x67)"
  unfolding GEN_I_R by (simp_all add: dispatch_defs GEN_U_masks GEN_J_masks GEN_R_masks)

lemma decode_GEN_atom:
  assumes "atom_code h = (f5, f3)" and "h = Do_lr_w \<or> h = Do_lr_d \<longrightarrow> take_bit 5 r2 = 0"
    and "take_bit 5 (drop_bit 2 f7) = f5"
  shows "decode_insn32 c i (GEN_R f7 r2 r1 f3 d 0x2f) = trans_atom h c i (GEN_R f7 r2 r1 f3 d 0x2f)"
proof -
  have m: "GEN_R f7 r2 r1 f3 d 0x2f AND OP_27_31_MASK = push_bit 27 f5"
    by (simp add: GEN_R_masks assms(3))
  show ?thesis
    using assms(1,2) unfolding dispatch_defs m
    by (cases h) (simp_all add: GEN_R_masks)
qed

end
