(* ===== verification/Rvc_Spec.thy ===== *)
theory Rvc_Spec
  imports Encode
begin

text \<open>
  The compressed instructions as the tables of the RISC-V manual give them: one row per instruction,
  with the register fields and, for every bit of the immediate, the bit of the opcode it comes from.
  The decoder's nested \<open>deposit32\<close> calls and masks are shown to compute the row of every 16-bit opcode.
\<close>

section \<open>Rows\<close>

text \<open>A register operand: fixed, a five-bit field, or a three-bit field that counts from \<open>x8\<close>.\<close>

datatype rvc_operand = Fixed nat | Full nat | Prime nat

definition field :: "u16 \<Rightarrow> nat \<Rightarrow> nat \<Rightarrow> nat" where
  "field op s l = unat (take_bit l (drop_bit s op))"

fun rvc_reg :: "rvc_operand \<Rightarrow> u16 \<Rightarrow> c_int" where
  "rvc_reg (Fixed n) op = of_nat n"
| "rvc_reg (Full s) op = of_nat (field op s 5)"
| "rvc_reg (Prime s) op = of_nat (8 + field op s 3)"

text \<open>The immediate: a pair \<open>(t, f)\<close> puts bit \<open>f\<close> of the opcode at bit \<open>t\<close>; then the sign is extended.\<close>

fun scatter :: "(nat \<times> nat) list \<Rightarrow> u16 \<Rightarrow> c_int" where
  "scatter [] op = 0"
| "scatter ((t, f) # bs) op = push_bit t (of_bool (bit op f)) OR scatter bs op"

datatype rvc_immediate = No_imm | Unsigned "(nat \<times> nat) list" | Signed nat "(nat \<times> nat) list"

fun rvc_imm :: "rvc_immediate \<Rightarrow> u16 \<Rightarrow> c_int" where
  "rvc_imm No_imm op = 0"
| "rvc_imm (Unsigned bs) op = scatter bs op"
| "rvc_imm (Signed s bs) op = signed_take_bit s (scatter bs op)"

text \<open>
  A row names the handler of the base instruction that it stands for; \<open>c.ebreak\<close> stands for \<open>ebreak\<close>, for which
  the program has no handler.
\<close>

datatype rvc_row = Row (row_handler: handler) (row_rd: rvc_operand) (row_rs1: rvc_operand) (row_rs2: rvc_operand)
  (row_imm: rvc_immediate) | Ebreak

text \<open>The immediate of the CI format, and its shifted form in \<open>c.lui\<close>.\<close>

abbreviation (input) ci_bits :: "(nat \<times> nat) list" where
  "ci_bits \<equiv> [(5, 12), (4, 6), (3, 5), (2, 4), (1, 3), (0, 2)]"

text \<open>Quadrant 0: loads and stores relative to a register, and \<open>c.addi4spn\<close>.\<close>

definition rvc_q0 :: "nat \<Rightarrow> u16 \<Rightarrow> rvc_row option" where
  "rvc_q0 f3 op =
    (if f3 = 0 then Some (Row (H_i Do_addi) (Prime 2) (Fixed 2) (Fixed 0)
       (Unsigned [(5, 12), (4, 11), (9, 10), (8, 9), (7, 8), (6, 7), (2, 6), (3, 5)]))
     else if f3 = 2 then Some (Row (H_i Do_lw) (Prime 2) (Prime 7) (Fixed 0)
       (Unsigned [(5, 12), (4, 11), (3, 10), (2, 6), (6, 5)]))
     else if f3 = 3 then Some (Row (H_i Do_ld) (Prime 2) (Prime 7) (Fixed 0)
       (Unsigned [(5, 12), (4, 11), (3, 10), (7, 6), (6, 5)]))
     else if f3 = 6 then Some (Row (H_s Do_sw) (Fixed 0) (Prime 7) (Prime 2)
       (Unsigned [(5, 12), (4, 11), (3, 10), (2, 6), (6, 5)]))
     else if f3 = 7 then Some (Row (H_s Do_sd) (Fixed 0) (Prime 7) (Prime 2)
       (Unsigned [(5, 12), (4, 11), (3, 10), (7, 6), (6, 5)]))
     else None)"

text \<open>Quadrant 1: immediates, arithmetic, jumps and branches.\<close>

definition rvc_ca :: "u16 \<Rightarrow> r_handler option" where
  "rvc_ca op =
    (if bit op 12 then [Some Do_subw, Some Do_addw, None, None] ! field op 5 2
     else [Some Do_sub, Some Do_xor, Some Do_or, Some Do_and] ! field op 5 2)"

definition rvc_alu :: "u16 \<Rightarrow> rvc_row option" where
  "rvc_alu op =
    (if field op 10 2 = 0 then Some (Row (H_i Do_srli) (Prime 7) (Prime 7) (Fixed 0) (Unsigned ci_bits))
     else if field op 10 2 = 1 then Some (Row (H_i Do_srai) (Prime 7) (Prime 7) (Fixed 0) (Unsigned ci_bits))
     else if field op 10 2 = 2 then Some (Row (H_i Do_andi) (Prime 7) (Prime 7) (Fixed 0) (Signed 5 ci_bits))
     else map_option (\<lambda>h. Row (H_r h) (Prime 7) (Prime 7) (Prime 2) No_imm) (rvc_ca op))"

definition rvc_q1 :: "nat \<Rightarrow> u16 \<Rightarrow> rvc_row option" where
  "rvc_q1 f3 op =
    (if f3 = 0 then Some (Row (if field op 7 5 = 0 then Do_empty else H_i Do_addi) (Full 7) (Full 7) (Fixed 0)
       (Signed 5 ci_bits))
     else if f3 = 1 then Some (Row (H_i Do_addiw) (Full 7) (Full 7) (Fixed 0) (Signed 5 ci_bits))
     else if f3 = 2 then Some (Row (H_i Do_addi) (Full 7) (Fixed 0) (Fixed 0) (Signed 5 ci_bits))
     else if f3 = 3 \<and> field op 7 5 = 2 then Some (Row (H_i Do_addi) (Fixed 2) (Fixed 2) (Fixed 0)
       (Signed 9 [(9, 12), (4, 6), (6, 5), (8, 4), (7, 3), (5, 2)]))
     else if f3 = 3 then Some (Row Do_lui (Full 7) (Fixed 0) (Fixed 0)
       (Signed 17 [(17, 12), (16, 6), (15, 5), (14, 4), (13, 3), (12, 2)]))
     else if f3 = 4 then rvc_alu op
     else if f3 = 5 then Some (Row (H_jump Do_c_jal) (Fixed 0) (Fixed 0) (Fixed 0)
       (Signed 11 [(11, 12), (4, 11), (9, 10), (8, 9), (10, 8), (6, 7), (7, 6), (3, 5), (2, 4), (1, 3), (5, 2)]))
     else Some (Row (H_b (if f3 = 6 then Do_c_beq else Do_c_bne)) (Fixed 0) (Prime 7) (Fixed 0)
       (Signed 8 [(8, 12), (4, 11), (3, 10), (7, 6), (6, 5), (2, 4), (1, 3), (5, 2)])))"

text \<open>Quadrant 2: the stack forms, \<open>c.slli\<close> and the register forms.\<close>

definition rvc_cr :: "u16 \<Rightarrow> rvc_row option" where
  "rvc_cr op =
    (if field op 2 5 = 0 then
       (if \<not> bit op 12 then Some (Row (H_jump Do_c_jalr) (Fixed 0) (Full 7) (Fixed 0) No_imm)
        else if field op 7 5 = 0 then Some Ebreak
        else Some (Row (H_jump Do_c_jalr) (Fixed 1) (Full 7) (Fixed 0) No_imm))
     else if \<not> bit op 12 then Some (Row (H_i Do_addi) (Full 7) (Full 2) (Fixed 0) No_imm)
     else Some (Row (H_r Do_add) (Full 7) (Full 7) (Full 2) No_imm))"

definition rvc_q2 :: "nat \<Rightarrow> u16 \<Rightarrow> rvc_row option" where
  "rvc_q2 f3 op =
    (if f3 = 0 then Some (Row (H_i Do_slli) (Full 7) (Full 7) (Fixed 0) (Unsigned ci_bits))
     else if f3 = 2 then Some (Row (H_i Do_lw) (Full 7) (Fixed 2) (Fixed 0)
       (Unsigned [(5, 12), (4, 6), (3, 5), (2, 4), (7, 3), (6, 2)]))
     else if f3 = 3 then Some (Row (H_i Do_ld) (Full 7) (Fixed 2) (Fixed 0)
       (Unsigned [(5, 12), (4, 6), (3, 5), (8, 4), (7, 3), (6, 2)]))
     else if f3 = 4 then rvc_cr op
     else if f3 = 6 then Some (Row (H_s Do_sw) (Fixed 0) (Fixed 2) (Full 2)
       (Unsigned [(5, 12), (4, 11), (3, 10), (2, 9), (7, 8), (6, 7)]))
     else if f3 = 7 then Some (Row (H_s Do_sd) (Fixed 0) (Fixed 2) (Full 2)
       (Unsigned [(5, 12), (4, 11), (3, 10), (8, 9), (7, 8), (6, 7)]))
     else None)"

definition rvc_lookup :: "u16 \<Rightarrow> rvc_row option" where
  "rvc_lookup op =
    (let f3 = field op 13 3; q = field op 0 2 in
     if q = 0 then rvc_q0 f3 op else if q = 1 then rvc_q1 f3 op else if q = 2 then rvc_q2 f3 op else None)"

text \<open>
  The opcodes the manual reserves in their row: \<open>c.addi4spn\<close> of zero bytes (with it the word of zeros), \<open>c.addiw\<close> and the
  loads from the stack into \<open>x0\<close>, \<open>c.lui\<close> and \<open>c.addi16sp\<close> with a zero immediate, and \<open>c.jr x0\<close>.
\<close>

definition rvc_reserved :: "u16 \<Rightarrow> bool" where
  "rvc_reserved op \<longleftrightarrow>
    (let q = field op 0 2; f3 = field op 13 3; r = field op 7 5; low = field op 2 5 in
     q = 0 \<and> f3 = 0 \<and> field op 5 8 = 0 \<or>
     q = 1 \<and> f3 = 1 \<and> r = 0 \<or>
     q = 1 \<and> f3 = 3 \<and> low = 0 \<and> \<not> bit op 12 \<or>
     q = 2 \<and> (f3 = 2 \<or> f3 = 3) \<and> r = 0 \<or>
     q = 2 \<and> f3 = 4 \<and> low = 0 \<and> r = 0 \<and> \<not> bit op 12)"

text \<open>The hints: \<open>c.li\<close>, \<open>c.lui\<close>, \<open>c.slli\<close>, \<open>c.mv\<close> and \<open>c.add\<close> with the destination \<open>x0\<close>, no-operations in the manual.\<close>

definition rvc_hint :: "u16 \<Rightarrow> bool" where
  "rvc_hint op \<longleftrightarrow>
    (let q = field op 0 2; f3 = field op 13 3 in
     field op 7 5 = 0 \<and> (q = 1 \<and> (f3 = 2 \<or> f3 = 3) \<or> q = 2 \<and> (f3 = 0 \<or> f3 = 4 \<and> field op 2 5 \<noteq> 0)))"

text \<open>The reserved opcode that the program executes: \<open>c.addi16sp\<close> by zero.\<close>

definition rvc_addi16sp_0 :: "u16 \<Rightarrow> bool" where
  "rvc_addi16sp_0 op \<longleftrightarrow>
    field op 0 2 = 1 \<and> field op 13 3 = 3 \<and> field op 7 5 = 2 \<and> field op 2 5 = 0 \<and> \<not> bit op 12"

text \<open>The instruction of a row: every field of the fresh slot, with the address where a block may end.\<close>

definition row_insn :: "u64 \<Rightarrow> u16 \<Rightarrow> rvc_row \<Rightarrow> insn_t" where
  "row_insn pc op r =
     \<lparr>rs1 = rvc_reg (row_rs1 r) op, rs2 = rvc_reg (row_rs2 r) op, rd = rvc_reg (row_rd r) op,
      imm = rvc_imm (row_imm r) op,
      insn_pc = (case row_handler r of H_jump _ \<Rightarrow> pc | H_b _ \<Rightarrow> pc | _ \<Rightarrow> 0),
      insn_handler = row_handler r\<rparr>"

section \<open>Bits\<close>

lemma bit_scatter: "bit (scatter bs op) n \<longleftrightarrow> n < 32 \<and> (\<exists>f. (n, f) \<in> set bs \<and> bit op f)"
  by (induction bs op rule: scatter.induct) (auto simp: bit_or_iff bit_push_bit_iff bit_of_bool_iff)

lemma bit_16: "bit (op :: u16) n \<Longrightarrow> n < 16"
  using bit_imp_le_length by fastforce

lemma bit_ucast16 [bits]: "bit (ucast (op :: u16) :: u32) n \<longleftrightarrow> bit op n"
  by (auto simp: bit_ucast_iff dest: bit_16)

lemma word32_eqI:
  fixes a b :: u32
  assumes "list_all (\<lambda>n. bit a n = bit b n) [0..<32]"
  shows "a = b"
  using assms by (auto simp: list_all_iff intro: bit_word_eqI)

lemma upt_32: "[0..<32] = [0, 1, 2, 3, 4, 5, 6, 7, 8, 9, 10, 11, 12, 13, 14, 15, 16, 17, 18, 19,
    20, 21, 22, 23, 24, 25, 26, 27, 28, 29, 30, 31]"
  by (simp add: upt_rec)

text \<open>The immediate of every format, bit by bit.\<close>

lemmas word32_bitsI = word32_eqI [unfolded upt_32 list.pred_inject]

lemmas imm_simps = extract_defs bits field_ok_def bit_scatter bit_signed_take_bit_iff min_def

lemma extract_imms:
  "imm (decode_insn16_extract_c_addi4spn i op) =
     rvc_imm (Unsigned [(5, 12), (4, 11), (9, 10), (8, 9), (7, 8), (6, 7), (2, 6), (3, 5)]) op"
  "imm (decode_insn16_extract_c_lw i op) =
     rvc_imm (Unsigned [(5, 12), (4, 11), (3, 10), (2, 6), (6, 5)]) op"
  "imm (decode_insn16_extract_c_ld i op) =
     rvc_imm (Unsigned [(5, 12), (4, 11), (3, 10), (7, 6), (6, 5)]) op"
  "imm (decode_insn16_extract_c_sw i op) =
     rvc_imm (Unsigned [(5, 12), (4, 11), (3, 10), (2, 6), (6, 5)]) op"
  "imm (decode_insn16_extract_c_sd i op) =
     rvc_imm (Unsigned [(5, 12), (4, 11), (3, 10), (7, 6), (6, 5)]) op"
  "imm (decode_insn16_extract_c_addi i op) =
     rvc_imm (Signed 5 ci_bits) op"
  "imm (decode_insn16_extract_c_li i op) =
     rvc_imm (Signed 5 ci_bits) op"
  "imm (decode_insn16_extract_c_addi16sp i op) =
     rvc_imm (Signed 9 [(9, 12), (4, 6), (6, 5), (8, 4), (7, 3), (5, 2)]) op"
  "imm (decode_insn16_extract_c_lui i op) =
     rvc_imm (Signed 17 [(17, 12), (16, 6), (15, 5), (14, 4), (13, 3), (12, 2)]) op"
  "imm (decode_insn16_extract_c_srli i op) =
     rvc_imm (Unsigned ci_bits) op"
  "imm (decode_insn16_extract_c_andi i op) =
     rvc_imm (Signed 5 ci_bits) op"
  "imm (decode_insn16_extract_c_j i op) =
     rvc_imm (Signed 11 [(11, 12), (4, 11), (9, 10), (8, 9), (10, 8), (6, 7), (7, 6), (3, 5), (2, 4), (1, 3), (5, 2)]) op"
  "imm (decode_insn16_extract_c_beqz i op) =
     rvc_imm (Signed 8 [(8, 12), (4, 11), (3, 10), (7, 6), (6, 5), (2, 4), (1, 3), (5, 2)]) op"
  "imm (decode_insn16_extract_c_ldsp i op) =
     rvc_imm (Unsigned [(5, 12), (4, 6), (3, 5), (8, 4), (7, 3), (6, 2)]) op"
  "imm (decode_insn16_extract_c_slli i op) =
     rvc_imm (Unsigned ci_bits) op"
  "imm (decode_insn16_extract_c_lwsp i op) =
     rvc_imm (Unsigned [(5, 12), (4, 6), (3, 5), (2, 4), (7, 3), (6, 2)]) op"
  "imm (decode_insn16_extract_c_swsp i op) =
     rvc_imm (Unsigned [(5, 12), (4, 11), (3, 10), (2, 9), (7, 8), (6, 7)]) op"
  "imm (decode_insn16_extract_c_sdsp i op) =
     rvc_imm (Unsigned [(5, 12), (4, 11), (3, 10), (8, 9), (7, 8), (6, 7)]) op"
  by (rule word32_bitsI; simp add: imm_simps del: bit_0 scatter.simps)+

lemma extract_field:
  assumes "field_ok s l"
  shows "extract32 (ucast op) s l = of_nat (field op s l)"
proof -
  have "extract32 (ucast op) s l = ucast (take_bit l (drop_bit s op))"
    by (rule bit_word_eqI)
      (auto simp: bit_extract32 [OF assms] bit_ucast16 bit_take_bit_iff bit_drop_bit_eq)
  then show ?thesis by (simp add: field_def)
qed

lemma extract_regs:
  "rd (decode_insn16_extract_c_addi4spn i op) = rvc_reg (Prime 2) op"
  "rs1 (decode_insn16_extract_c_addi4spn i op) = rvc_reg (Fixed 2) op"
  "rd (decode_insn16_extract_c_lw i op) = rvc_reg (Prime 2) op"
  "rs1 (decode_insn16_extract_c_lw i op) = rvc_reg (Prime 7) op"
  "rd (decode_insn16_extract_c_ld i op) = rvc_reg (Prime 2) op"
  "rs1 (decode_insn16_extract_c_ld i op) = rvc_reg (Prime 7) op"
  "rs1 (decode_insn16_extract_c_sw i op) = rvc_reg (Prime 7) op"
  "rs2 (decode_insn16_extract_c_sw i op) = rvc_reg (Prime 2) op"
  "rs1 (decode_insn16_extract_c_sd i op) = rvc_reg (Prime 7) op"
  "rs2 (decode_insn16_extract_c_sd i op) = rvc_reg (Prime 2) op"
  "rd (decode_insn16_extract_c_addi i op) = rvc_reg (Full 7) op"
  "rs1 (decode_insn16_extract_c_addi i op) = rvc_reg (Full 7) op"
  "rd (decode_insn16_extract_c_li i op) = rvc_reg (Full 7) op"
  "rs1 (decode_insn16_extract_c_li i op) = rvc_reg (Fixed 0) op"
  "rd (decode_insn16_extract_c_addi16sp i op) = rvc_reg (Fixed 2) op"
  "rs1 (decode_insn16_extract_c_addi16sp i op) = rvc_reg (Fixed 2) op"
  "rd (decode_insn16_extract_c_lui i op) = rvc_reg (Full 7) op"
  "rd (decode_insn16_extract_c_srli i op) = rvc_reg (Prime 7) op"
  "rs1 (decode_insn16_extract_c_srli i op) = rvc_reg (Prime 7) op"
  "rd (decode_insn16_extract_c_andi i op) = rvc_reg (Prime 7) op"
  "rs1 (decode_insn16_extract_c_andi i op) = rvc_reg (Prime 7) op"
  "rd (decode_insn16_extract_c_sub i op) = rvc_reg (Prime 7) op"
  "rs1 (decode_insn16_extract_c_sub i op) = rvc_reg (Prime 7) op"
  "rs2 (decode_insn16_extract_c_sub i op) = rvc_reg (Prime 2) op"
  "rd (decode_insn16_extract_c_j i op) = rvc_reg (Fixed 0) op"
  "rs1 (decode_insn16_extract_c_beqz i op) = rvc_reg (Prime 7) op"
  "rs2 (decode_insn16_extract_c_beqz i op) = rvc_reg (Fixed 0) op"
  "rd (decode_insn16_extract_c_mv i op) = rvc_reg (Full 7) op"
  "rs1 (decode_insn16_extract_c_mv i op) = rvc_reg (Full 2) op"
  "rd (decode_insn16_extract_c_ldsp i op) = rvc_reg (Full 7) op"
  "rs1 (decode_insn16_extract_c_ldsp i op) = rvc_reg (Fixed 2) op"
  "rd (decode_insn16_extract_c_slli i op) = rvc_reg (Full 7) op"
  "rs1 (decode_insn16_extract_c_slli i op) = rvc_reg (Full 7) op"
  "rd (decode_insn16_extract_c_lwsp i op) = rvc_reg (Full 7) op"
  "rs1 (decode_insn16_extract_c_lwsp i op) = rvc_reg (Fixed 2) op"
  "rd (decode_insn16_extract_c_jalr i op) = rvc_reg (Fixed 1) op"
  "rs1 (decode_insn16_extract_c_jalr i op) = rvc_reg (Full 7) op"
  "rd (decode_insn16_extract_c_jr i op) = rvc_reg (Fixed 0) op"
  "rs1 (decode_insn16_extract_c_jr i op) = rvc_reg (Full 7) op"
  "rd (decode_insn16_extract_c_add i op) = rvc_reg (Full 7) op"
  "rs1 (decode_insn16_extract_c_add i op) = rvc_reg (Full 7) op"
  "rs2 (decode_insn16_extract_c_add i op) = rvc_reg (Full 2) op"
  "rs1 (decode_insn16_extract_c_swsp i op) = rvc_reg (Fixed 2) op"
  "rs2 (decode_insn16_extract_c_swsp i op) = rvc_reg (Full 2) op"
  "rs1 (decode_insn16_extract_c_sdsp i op) = rvc_reg (Fixed 2) op"
  "rs2 (decode_insn16_extract_c_sdsp i op) = rvc_reg (Full 2) op"
  by (simp_all add: extract_defs extract_field field_ok_def ex_rvc_register_def)

lemma extract_rest:
  "rs2 (decode_insn16_extract_c_addi4spn i op) = rs2 i"
  "rs2 (decode_insn16_extract_c_lw i op) = rs2 i"
  "rs2 (decode_insn16_extract_c_ld i op) = rs2 i"
  "rd (decode_insn16_extract_c_sw i op) = rd i"
  "rd (decode_insn16_extract_c_sd i op) = rd i"
  "rs2 (decode_insn16_extract_c_addi i op) = rs2 i"
  "rs2 (decode_insn16_extract_c_li i op) = rs2 i"
  "rs2 (decode_insn16_extract_c_addi16sp i op) = rs2 i"
  "rs1 (decode_insn16_extract_c_lui i op) = rs1 i"
  "rs2 (decode_insn16_extract_c_lui i op) = rs2 i"
  "rs2 (decode_insn16_extract_c_srli i op) = rs2 i"
  "rs2 (decode_insn16_extract_c_andi i op) = rs2 i"
  "imm (decode_insn16_extract_c_sub i op) = imm i"
  "rs1 (decode_insn16_extract_c_j i op) = rs1 i"
  "rs2 (decode_insn16_extract_c_j i op) = rs2 i"
  "rd (decode_insn16_extract_c_beqz i op) = rd i"
  "rs2 (decode_insn16_extract_c_mv i op) = rs2 i"
  "rs2 (decode_insn16_extract_c_ldsp i op) = rs2 i"
  "rs2 (decode_insn16_extract_c_slli i op) = rs2 i"
  "rs2 (decode_insn16_extract_c_lwsp i op) = rs2 i"
  "rs2 (decode_insn16_extract_c_jalr i op) = rs2 i"
  "rs2 (decode_insn16_extract_c_jr i op) = rs2 i"
  "imm (decode_insn16_extract_c_add i op) = imm i"
  "rd (decode_insn16_extract_c_swsp i op) = rd i"
  "rd (decode_insn16_extract_c_sdsp i op) = rd i"
  by (simp_all add: extract_defs)

lemma extract_pc:
  "insn_pc (decode_insn16_extract_c_addi4spn i op) = insn_pc i"
  "insn_pc (decode_insn16_extract_c_lw i op) = insn_pc i"
  "insn_pc (decode_insn16_extract_c_ld i op) = insn_pc i"
  "insn_pc (decode_insn16_extract_c_sw i op) = insn_pc i"
  "insn_pc (decode_insn16_extract_c_sd i op) = insn_pc i"
  "insn_pc (decode_insn16_extract_c_addi i op) = insn_pc i"
  "insn_pc (decode_insn16_extract_c_li i op) = insn_pc i"
  "insn_pc (decode_insn16_extract_c_addi16sp i op) = insn_pc i"
  "insn_pc (decode_insn16_extract_c_lui i op) = insn_pc i"
  "insn_pc (decode_insn16_extract_c_srli i op) = insn_pc i"
  "insn_pc (decode_insn16_extract_c_andi i op) = insn_pc i"
  "insn_pc (decode_insn16_extract_c_sub i op) = insn_pc i"
  "insn_pc (decode_insn16_extract_c_j i op) = insn_pc i"
  "insn_pc (decode_insn16_extract_c_beqz i op) = insn_pc i"
  "insn_pc (decode_insn16_extract_c_mv i op) = insn_pc i"
  "insn_pc (decode_insn16_extract_c_ldsp i op) = insn_pc i"
  "insn_pc (decode_insn16_extract_c_slli i op) = insn_pc i"
  "insn_pc (decode_insn16_extract_c_lwsp i op) = insn_pc i"
  "insn_pc (decode_insn16_extract_c_jalr i op) = insn_pc i"
  "insn_pc (decode_insn16_extract_c_jr i op) = insn_pc i"
  "insn_pc (decode_insn16_extract_c_add i op) = insn_pc i"
  "insn_pc (decode_insn16_extract_c_swsp i op) = insn_pc i"
  "insn_pc (decode_insn16_extract_c_sdsp i op) = insn_pc i"
  by (simp_all add: extract_defs)

lemma extract_no_imm:
  "imm (decode_insn16_extract_c_mv i op) = 0"
  "imm (decode_insn16_extract_c_jalr i op) = 0"
  "imm (decode_insn16_extract_c_jr i op) = 0"
  by (simp_all add: extract_defs)

lemmas extract_sels = extract_imms extract_regs extract_rest extract_pc extract_no_imm

section \<open>Dispatch\<close>

lemma of_nat_field: "of_nat (field op s l) = take_bit l (drop_bit s op)"
  by (simp add: field_def)

lemma mask16:
  "(0xe003 :: u16) = push_bit 13 (mask 3) OR push_bit 0 (mask 2)"
  "(0x1060 :: u16) = push_bit 12 (mask 1) OR push_bit 5 (mask 2)"
  "(0x0f80 :: u16) = push_bit 7 (mask 5)" "(0x007c :: u16) = push_bit 2 (mask 5)"
  "(0x0ffc :: u16) = push_bit 2 (mask 5) OR push_bit 7 (mask 5)" "(0x3 :: u16) = push_bit 0 (mask 2)"
  by (simp_all add: mask_eq_exp_minus_1)

lemma and_push_mask16: "op AND push_bit s (mask l) = push_bit s (of_nat (field op s l))" for op :: u16
  unfolding of_nat_field
  by (rule bit_word_eqI) (auto simp: bit_and_iff bit_push_bit_iff bit_mask_iff bit_take_bit_iff bit_drop_bit_eq)

lemma and_bit12: "drop_bit 12 op AND 0x1 = of_bool (bit op 12)" for op :: u16
  by (simp add: bit_iff_odd_drop_bit and_one_eq mod2_eq_if)

lemma field_bit12: "of_nat (field op 12 1) = (of_bool (bit op 12) :: u16)"
  by (simp add: of_nat_field bit_iff_odd_drop_bit mod2_eq_if)

lemma and_masks16:
  "op AND 0xe003 = push_bit 13 (of_nat (field op 13 3)) OR of_nat (field op 0 2)"
  "op AND 0x1060 = push_bit 12 (of_bool (bit op 12)) OR push_bit 5 (of_nat (field op 5 2))"
  "op AND 0x0f80 = push_bit 7 (of_nat (field op 7 5))" "op AND 0x007c = push_bit 2 (of_nat (field op 2 5))"
  "op AND 0x0ffc = push_bit 2 (of_nat (field op 2 5)) OR push_bit 7 (of_nat (field op 7 5))"
  "drop_bit 10 op AND 0x3 = of_nat (field op 10 2)"
  unfolding mask16 bit.conj_disj_distrib and_push_mask16 field_bit12
  by (simp_all add: of_nat_field)

lemma field_less: "field op s l < 2 ^ l"
proof -
  have "field op s l = take_bit l (unat (drop_bit s op))" by (simp add: field_def unsigned_take_bit_eq)
  then show ?thesis by simp
qed

lemma less_8: "n < 8 \<longleftrightarrow> n = 0 \<or> n = 1 \<or> n = 2 \<or> n = 3 \<or> n = 4 \<or> n = 5 \<or> n = 6 \<or> n = (7::nat)" by arith
lemma less_4: "n < 4 \<longleftrightarrow> n = 0 \<or> n = 1 \<or> n = 2 \<or> n = (3::nat)" by arith

lemma of_nat_word_inj:
  assumes "m < 2 ^ LENGTH('a)" and "n < 2 ^ LENGTH('a)"
  shows "(of_nat m :: 'a::len word) = of_nat n \<longleftrightarrow> m = n"
proof -
  have "unat (of_nat m :: 'a word) = m" "unat (of_nat n :: 'a word) = n"
    using assms by (simp_all add: unat_of_nat take_bit_nat_eq_self)
  then show ?thesis by metis
qed

lemma push_field_eq:
  assumes "f < 2 ^ l" and "g < 2 ^ l" and "s + l \<le> 16"
  shows "push_bit s (of_nat f :: u16) = push_bit s (of_nat g) \<longleftrightarrow> f = g"
proof -
  have b: "k * 2 ^ s < 2 ^ LENGTH(16)" if "k < 2 ^ l" for k :: nat
  proof -
    have "k * 2 ^ s < 2 ^ l * 2 ^ s" using that by simp
    also have "\<dots> = 2 ^ (l + s)" by (simp only: power_add)
    also have "\<dots> \<le> 2 ^ 16" using assms(3) power_increasing [of "l + s" 16 "2 :: nat"] by (simp add: add.commute)
    finally show ?thesis by simp
  qed
  have p: "push_bit s (of_nat k :: u16) = of_nat (k * 2 ^ s)" for k by (simp add: push_bit_eq_mult)
  show ?thesis unfolding p using of_nat_word_inj [OF b b] assms by auto
qed

lemma field_eqs:
  "op AND 0x0f80 = 0x0100 \<longleftrightarrow> field op 7 5 = 2" "op AND 0x007c = 0 \<longleftrightarrow> field op 2 5 = 0"
  using push_field_eq [OF field_less [of op 7 5], of 2 7] push_field_eq [OF field_less [of op 2 5], of 0 2]
  by (simp_all add: and_masks16)

lemma field_alu: "k < 4 \<Longrightarrow> drop_bit 10 op AND 0x3 = of_nat k \<longleftrightarrow> field op 10 2 = k"
  using push_field_eq [OF field_less [of op 10 2], of k 0] by (simp add: and_masks16)

lemma quadrant_eq:
  assumes "a < 8" and "b < 4"
  shows "op AND 0xe003 = of_nat (8192 * a + b) \<longleftrightarrow> field op 13 3 = a \<and> field op 0 2 = b"
proof -
  let ?f = "field op 13 3" and ?q = "field op 0 2"
  have b: "?f < 8" "?q < 4" using field_less [of op 13 3] field_less [of op 0 2] by simp_all
  have "push_bit 13 (take_bit 3 (drop_bit 13 op)) AND take_bit 2 (drop_bit 0 op) = 0"
    by (rule bit_word_eqI) (simp add: bit_iffs)
  then have "op AND 0xe003 = push_bit 13 (of_nat ?f) + of_nat ?q"
    unfolding and_masks16 by (simp add: disjunctive_add_eq_or of_nat_field)
  then have "op AND 0xe003 = of_nat (8192 * ?f + ?q)"
    by (simp add: push_bit_eq_mult mult.commute)
  moreover have "(of_nat (8192 * ?f + ?q) :: u16) = of_nat (8192 * a + b) \<longleftrightarrow> 8192 * ?f + ?q = 8192 * a + b"
    using assms b by (intro of_nat_word_inj) simp_all
  moreover have "8192 * ?f + ?q = 8192 * a + b \<longleftrightarrow> ?f = a \<and> ?q = b"
  proof
    have d: "(8192 * k + r) div 8192 = k" if "r < 4" for k r :: nat using that by simp
    assume e: "8192 * ?f + ?q = 8192 * a + b"
    with d [OF b(2), of ?f] d [OF assms(2), of a] have "?f = a" by metis
    with e show "?f = a \<and> ?q = b" by simp
  qed simp
  ultimately show ?thesis by simp
qed

lemmas quadrant_eqs = quadrant_eq [of 0 0, simplified]
  quadrant_eq [of 0 1, simplified]
  quadrant_eq [of 0 2, simplified]
  quadrant_eq [of 1 1, simplified]
  quadrant_eq [of 2 0, simplified]
  quadrant_eq [of 2 1, simplified]
  quadrant_eq [of 2 2, simplified]
  quadrant_eq [of 3 0, simplified]
  quadrant_eq [of 3 1, simplified]
  quadrant_eq [of 3 2, simplified]
  quadrant_eq [of 4 1, simplified]
  quadrant_eq [of 4 2, simplified]
  quadrant_eq [of 5 1, simplified]
  quadrant_eq [of 6 0, simplified]
  quadrant_eq [of 6 2, simplified]
  quadrant_eq [of 6 1, simplified]
  quadrant_eq [of 7 0, simplified]
  quadrant_eq [of 7 1, simplified]
  quadrant_eq [of 7 2, simplified]

lemma decode_insn16_cases:
  "decode_insn16 c i op =
    (let f3 = field op 13 3; q = field op 0 2 in
     if q = 0 then
       (if f3 = 0 then if op AND 0x1fe0 = 0 then trans_illegal c i else trans_c_addi4spn c i op
        else if f3 = 2 then trans_c_lw c i op else if f3 = 3 then trans_c_ld c i op
        else if f3 = 6 then trans_c_sw c i op else if f3 = 7 then trans_c_sd c i op else trans_illegal c i)
     else if q = 1 then
       (if f3 = 0 then trans_c_addi c i op else if f3 = 1 then trans_c_addiw c i op
        else if f3 = 2 then trans_c_li c i op
        else if f3 = 3 then if field op 7 5 = 2 then trans_c_addi16sp c i op else trans_c_lui c i op
        else if f3 = 4 then decode_c_alu c i op else if f3 = 5 then trans_c_j c i op
        else if f3 = 6 then trans_c_beqz c i op else trans_c_bnez c i op)
     else if q = 2 then
       (if f3 = 0 then trans_c_slli c i op else if f3 = 2 then trans_c_lwsp c i op
        else if f3 = 3 then trans_c_ldsp c i op else if f3 = 4 then decode_c_cr c i op
        else if f3 = 6 then trans_c_swsp c i op else if f3 = 7 then trans_c_sdsp c i op
        else trans_illegal c i)
     else trans_illegal c i)"
proof -
  have "field op 13 3 < 8" "field op 0 2 < 4"
    using field_less [of op 13 3] field_less [of op 0 2] by simp_all
  then show ?thesis
    unfolding decode_insn16_def field_eqs quadrant_eqs Let_def
    by simp
qed


lemma scatter_0: "scatter bs op = 0 \<longleftrightarrow> (\<forall>(t, f)\<in>set bs. t < 32 \<longrightarrow> \<not> bit op f)"
  by (auto simp: bit_eq_iff bit_scatter)

lemma field_0: "field op s l = 0 \<longleftrightarrow> (\<forall>n<l. \<not> bit op (s + n))"
proof -
  have "field op s l = 0 \<longleftrightarrow> take_bit l (drop_bit s op) = 0" by (simp add: field_def unsigned_eq_0_iff)
  also have "\<dots> \<longleftrightarrow> (\<forall>n<16. n < l \<longrightarrow> \<not> bit op (s + n))"
    by (auto simp: bit_eq_iff bit_take_bit_iff bit_drop_bit_eq)
  also have "\<dots> \<longleftrightarrow> (\<forall>n<l. \<not> bit op (s + n))"
  proof -
    have "n < 16" if "bit op (s + n)" for n using bit_16 [OF that] by simp
    then show ?thesis by blast
  qed
  finally show ?thesis .
qed

lemma and_addi4spn: "op AND 0x1fe0 = 0 \<longleftrightarrow> field op 5 8 = 0"
proof -
  have "(0x1fe0 :: u16) = push_bit 5 (mask 8)" by (simp add: mask_eq_exp_minus_1)
  then have "op AND 0x1fe0 = push_bit 5 (of_nat (field op 5 8))" by (simp only: and_push_mask16)
  then show ?thesis using push_field_eq [OF field_less [of op 5 8], of 0 5] by simp
qed

lemma all_less_5: "(\<forall>n<5. P n) \<longleftrightarrow> P 0 \<and> P 1 \<and> P 2 \<and> P 3 \<and> P (4 :: nat)"
  by (auto simp: numeral_eq_Suc less_Suc_eq)

lemma lui_imm_0:
  "rvc_imm (Signed 17 [(17, 12), (16, 6), (15, 5), (14, 4), (13, 3), (12, 2)]) op = 0 \<longleftrightarrow>
     field op 2 5 = 0 \<and> \<not> bit op 12"
proof -
  have s: "scatter [(17, 12), (16, 6), (15, 5), (14, 4), (13, 3), (12, 2)] op = 0 \<longleftrightarrow> field op 2 5 = 0 \<and> \<not> bit op 12"
    unfolding field_0 all_less_5 by (auto simp: scatter_0 simp del: scatter.simps)
  define v where "v = scatter [(17, 12), (16, 6), (15, 5), (14, 4), (13, 3), (12, 2)] op"
  have high: "\<not> bit v n" if "17 < n" for n using that by (auto simp: v_def bit_scatter simp del: scatter.simps)
  have "signed_take_bit 17 v = 0 \<longleftrightarrow> v = 0"
  proof
    assume "signed_take_bit 17 v = 0"
    then have z: "\<not> bit (signed_take_bit 17 v) n" for n by simp
    have "\<not> bit v n" if "n < 32" for n using z [of n] high [of n] that by (cases "n \<le> 17") (auto simp: bit_signed_take_bit_iff min_def)
    then show "v = 0" by (intro bit_word_eqI) simp
  qed simp
  with s show ?thesis by (simp add: v_def del: scatter.simps)
qed

lemma rvc_reg_0:
  "rvc_reg (Full s) op = 0 \<longleftrightarrow> field op s 5 = 0" "rvc_reg (Full s) op = 2 \<longleftrightarrow> field op s 5 = 2"
proof -
  have f: "field op s 5 < 2 ^ LENGTH(32)" using field_less [of op s 5] by simp
  show "rvc_reg (Full s) op = 0 \<longleftrightarrow> field op s 5 = 0" "rvc_reg (Full s) op = 2 \<longleftrightarrow> field op s 5 = 2"
    using of_nat_word_inj [OF f, of 0] of_nat_word_inj [OF f, of 2] by simp_all
qed

lemma decode_c_alu_cases:
  "decode_c_alu c i op =
    (let k = field op 10 2; g = field op 5 2 in
     if k = 0 then trans_c_srli c i op else if k = 1 then trans_c_srai c i op
     else if k = 2 then trans_c_andi c i op
     else if \<not> bit op 12 then
       (if g = 0 then trans_c_sub c i op else if g = 1 then trans_c_xor c i op
        else if g = 2 then trans_c_or c i op else trans_c_and c i op)
     else if g = 0 then trans_c_subw c i op else if g = 1 then trans_c_addw c i op else trans_illegal c i)"
proof -
  have k: "field op 10 2 < 4" and "field op 5 2 < 4"
    using field_less [of op 10 2] field_less [of op 5 2] by simp_all
  from this(2) have "op AND 0x1060 = of_nat (4096 * of_bool (bit op 12) + 32 * field op 5 2)"
    unfolding and_masks16 less_4 by (elim disjE; cases "bit op 12"; simp)
  with \<open>field op 5 2 < 4\<close> k show ?thesis
    unfolding decode_c_alu_def less_4 Let_def
      field_alu [of 0, simplified] field_alu [of 1, simplified] field_alu [of 2, simplified] field_alu [of 3, simplified]
    by (elim disjE; cases "bit op 12"; simp)
qed

lemma decode_c_cr_cases:
  "decode_c_cr c i op =
    (if field op 2 5 = 0 then
       (if \<not> bit op 12 then trans_c_jr c i op
        else if field op 7 5 = 0 then trans_c_ebreak c i op else trans_c_jalr c i op)
     else if \<not> bit op 12 then trans_c_mv c i op else trans_c_add c i op)"
proof -
  have "op AND 0x0ffc = 0 \<longleftrightarrow> field op 2 5 = 0 \<and> field op 7 5 = 0"
    using push_field_eq [OF field_less [of op 7 5], of 0 7] push_field_eq [OF field_less [of op 2 5], of 0 2]
    by (simp add: and_masks16 or_eq_0_iff)
  then show ?thesis
    by (simp add: decode_c_cr_def and_bit12 field_eqs)
qed

lemma insn_eq_iff:
  "i = \<lparr>rs1 = a, rs2 = b, rd = d, imm = k, insn_pc = p, insn_handler = h\<rparr> \<longleftrightarrow>
     rs1 i = a \<and> rs2 i = b \<and> rd i = d \<and> imm i = k \<and> insn_pc i = p \<and> insn_handler i = h"
  by (cases i) simp

section \<open>The decoder computes the rows\<close>

definition illegal_insn :: "trans_t \<Rightarrow> insn_t \<Rightarrow> bool" where
  "illegal_insn c i \<longleftrightarrow> insn_handler i = Do_illegal \<and> insn_pc i = tc_pc c"

definition rvc_ok :: "trans_t \<Rightarrow> u16 \<Rightarrow> rvc_row option \<Rightarrow> insn_t \<Rightarrow> bool" where
  "rvc_ok c op row i = (case row of
     None \<Rightarrow> illegal_insn c i
   | Some Ebreak \<Rightarrow> i = zero_insn\<lparr>insn_handler := Do_empty\<rparr>
   | Some r \<Rightarrow>
       if rvc_reserved op \<and> \<not> rvc_addi16sp_0 op \<or> rvc_hint op then illegal_insn c i else i = row_insn (tc_pc c) op r)"

lemmas rvc_simps = rvc_ok_def row_insn_def insn_eq_iff illegal_insn_def extract_sels trans_defs Let_def zero_insn_def
  rvc_reserved_def rvc_hint_def rvc_addi16sp_0_def rvc_reg_0

lemma rvc_q0_ok:
  assumes "field op 0 2 = 0"
  shows "rvc_ok c op (rvc_q0 (field op 13 3) op) (snd (decode_insn16 c zero_insn op))"
  using assms
  by (simp add: decode_insn16_cases rvc_q0_def rvc_simps and_addi4spn del: rvc_imm.simps rvc_reg.simps(2))

lemma rvc_q1_ok:
  assumes "field op 0 2 = 1"
  shows "rvc_ok c op (rvc_q1 (field op 13 3) op) (snd (decode_insn16 c zero_insn op))"
proof -
  have f: "field op 13 3 < 8" "field op 10 2 < 4" "field op 5 2 < 4"
    using field_less [of op 13 3] field_less [of op 10 2] field_less [of op 5 2] by simp_all
  show ?thesis
  proof (cases "field op 13 3 = 4")
    case True
    with assms have e: "decode_insn16 c zero_insn op = decode_c_alu c zero_insn op" "rvc_q1 (field op 13 3) op = rvc_alu op"
      by (simp_all add: decode_insn16_cases rvc_q1_def)
    show ?thesis
      using f(2,3) True assms unfolding less_4 e decode_c_alu_cases rvc_alu_def rvc_ca_def
      by (elim disjE; cases "bit op 12"; simp add: rvc_simps del: rvc_imm.simps(2,3) rvc_reg.simps(2))
  next
    case False
    with f(1) assms show ?thesis
      unfolding less_8
      by (elim disjE; simp add: decode_insn16_cases rvc_q1_def rvc_simps lui_imm_0 del: rvc_imm.simps rvc_reg.simps(2))
  qed
qed

lemma rvc_q2_ok:
  assumes "field op 0 2 = 2"
  shows "rvc_ok c op (rvc_q2 (field op 13 3) op) (snd (decode_insn16 c zero_insn op))"
proof (cases "field op 13 3 = 4")
  case True
  with assms have e: "decode_insn16 c zero_insn op = decode_c_cr c zero_insn op" "rvc_q2 (field op 13 3) op = rvc_cr op"
    by (simp_all add: decode_insn16_cases rvc_q2_def)
  show ?thesis
    using True assms unfolding e decode_c_cr_cases rvc_cr_def
    by (simp add: rvc_simps del: rvc_imm.simps(2,3) rvc_reg.simps(2))
next
  case False
  with assms show ?thesis
    by (simp add: decode_insn16_cases rvc_q2_def rvc_simps del: rvc_imm.simps rvc_reg.simps(2))
qed

lemma decode_insn16_rvc: "rvc_ok c op (rvc_lookup op) (snd (decode_insn16 c zero_insn op))"
proof -
  have "field op 0 2 < 4" using field_less [of op 0 2] by simp
  then show ?thesis
    unfolding less_4
    by (elim disjE; simp add: rvc_lookup_def rvc_q0_ok rvc_q1_ok rvc_q2_ok Let_def)
      (simp add: decode_insn16_cases rvc_ok_def illegal_insn_def trans_defs)
qed

end
