(* ===== verification/Rv32_Spec.thy ===== *)
theory Rv32_Spec
  imports Rvc_Spec
begin

text \<open>
  The 32-bit instructions of RV64IMA and Zicsr as the opcode tables of the RISC-V manual give them: a row
  has the mask of the fixed bits, their value, and the format with the operation.  The nested
  switches of \<open>decode_insn32\<close> are shown to find the row of every word.
\<close>

section \<open>The table\<close>

datatype rv_format =
    As_r r_handler | As_i i_handler | As_s s_handler | As_b b_handler
  | As_lui | As_auipc | As_jal | As_jalr
  | As_csr csr_handler | As_lr atom_handler | As_amo atom_handler | As_fence | As_ecall

definition rv_loads :: "(u32 \<times> u32 \<times> rv_format) list" where
  "rv_loads = [
     (0x0000707f, 0x00000003, As_i Do_lb),
     (0x0000707f, 0x00001003, As_i Do_lh),
     (0x0000707f, 0x00002003, As_i Do_lw),
     (0x0000707f, 0x00003003, As_i Do_ld),
     (0x0000707f, 0x00004003, As_i Do_lbu),
     (0x0000707f, 0x00005003, As_i Do_lhu),
     (0x0000707f, 0x00006003, As_i Do_lwu)]"

definition rv_fences :: "(u32 \<times> u32 \<times> rv_format) list" where
  "rv_fences = [
     (0x0000707f, 0x0000000f, As_fence),
     (0x0000707f, 0x0000100f, As_fence)]"

definition rv_op_imm :: "(u32 \<times> u32 \<times> rv_format) list" where
  "rv_op_imm = [
     (0x0000707f, 0x00000013, As_i Do_addi),
     (0x0000707f, 0x00002013, As_i Do_slti),
     (0x0000707f, 0x00003013, As_i Do_sltiu),
     (0x0000707f, 0x00004013, As_i Do_xori),
     (0x0000707f, 0x00006013, As_i Do_ori),
     (0x0000707f, 0x00007013, As_i Do_andi),
     (0xfc00707f, 0x00001013, As_i Do_slli),
     (0xfc00707f, 0x00005013, As_i Do_srli),
     (0xfc00707f, 0x40005013, As_i Do_srai)]"

definition rv_auipc :: "(u32 \<times> u32 \<times> rv_format) list" where
  "rv_auipc = [
     (0x0000007f, 0x00000017, As_auipc)]"

definition rv_op_imm_32 :: "(u32 \<times> u32 \<times> rv_format) list" where
  "rv_op_imm_32 = [
     (0x0000707f, 0x0000001b, As_i Do_addiw),
     (0xfe00707f, 0x0000101b, As_i Do_slliw),
     (0xfe00707f, 0x0000501b, As_i Do_srliw),
     (0xfe00707f, 0x4000501b, As_i Do_sraiw)]"

definition rv_stores :: "(u32 \<times> u32 \<times> rv_format) list" where
  "rv_stores = [
     (0x0000707f, 0x00000023, As_s Do_sb),
     (0x0000707f, 0x00001023, As_s Do_sh),
     (0x0000707f, 0x00002023, As_s Do_sw),
     (0x0000707f, 0x00003023, As_s Do_sd)]"

definition rv_atomics :: "(u32 \<times> u32 \<times> rv_format) list" where
  "rv_atomics = [
     (0xf800707f, 0x0000202f, As_amo Do_amoadd_w),
     (0xf800707f, 0x0800202f, As_amo Do_amoswap_w),
     (0xf9f0707f, 0x1000202f, As_lr Do_lr_w),
     (0xf800707f, 0x1800202f, As_amo Do_sc_w),
     (0xf800707f, 0x2000202f, As_amo Do_amoxor_w),
     (0xf800707f, 0x4000202f, As_amo Do_amoor_w),
     (0xf800707f, 0x6000202f, As_amo Do_amoand_w),
     (0xf800707f, 0x8000202f, As_amo Do_amomin_w),
     (0xf800707f, 0xa000202f, As_amo Do_amomax_w),
     (0xf800707f, 0xc000202f, As_amo Do_amominu_w),
     (0xf800707f, 0xe000202f, As_amo Do_amomaxu_w),
     (0xf800707f, 0x0000302f, As_amo Do_amoadd_d),
     (0xf800707f, 0x0800302f, As_amo Do_amoswap_d),
     (0xf9f0707f, 0x1000302f, As_lr Do_lr_d),
     (0xf800707f, 0x1800302f, As_amo Do_sc_d),
     (0xf800707f, 0x2000302f, As_amo Do_amoxor_d),
     (0xf800707f, 0x4000302f, As_amo Do_amoor_d),
     (0xf800707f, 0x6000302f, As_amo Do_amoand_d),
     (0xf800707f, 0x8000302f, As_amo Do_amomin_d),
     (0xf800707f, 0xa000302f, As_amo Do_amomax_d),
     (0xf800707f, 0xc000302f, As_amo Do_amominu_d),
     (0xf800707f, 0xe000302f, As_amo Do_amomaxu_d)]"

definition rv_op :: "(u32 \<times> u32 \<times> rv_format) list" where
  "rv_op = [
     (0xfe00707f, 0x00000033, As_r Do_add),
     (0xfe00707f, 0x40000033, As_r Do_sub),
     (0xfe00707f, 0x00001033, As_r Do_sll),
     (0xfe00707f, 0x00002033, As_r Do_slt),
     (0xfe00707f, 0x00003033, As_r Do_sltu),
     (0xfe00707f, 0x00004033, As_r Do_xor),
     (0xfe00707f, 0x00005033, As_r Do_srl),
     (0xfe00707f, 0x40005033, As_r Do_sra),
     (0xfe00707f, 0x00006033, As_r Do_or),
     (0xfe00707f, 0x00007033, As_r Do_and),
     (0xfe00707f, 0x02000033, As_r Do_mul),
     (0xfe00707f, 0x02001033, As_r Do_mulh),
     (0xfe00707f, 0x02002033, As_r Do_mulhsu),
     (0xfe00707f, 0x02003033, As_r Do_mulhu),
     (0xfe00707f, 0x02004033, As_r Do_div),
     (0xfe00707f, 0x02005033, As_r Do_divu),
     (0xfe00707f, 0x02006033, As_r Do_rem),
     (0xfe00707f, 0x02007033, As_r Do_remu)]"

definition rv_lui :: "(u32 \<times> u32 \<times> rv_format) list" where
  "rv_lui = [
     (0x0000007f, 0x00000037, As_lui)]"

definition rv_op_32 :: "(u32 \<times> u32 \<times> rv_format) list" where
  "rv_op_32 = [
     (0xfe00707f, 0x0000003b, As_r Do_addw),
     (0xfe00707f, 0x4000003b, As_r Do_subw),
     (0xfe00707f, 0x0000103b, As_r Do_sllw),
     (0xfe00707f, 0x0000503b, As_r Do_srlw),
     (0xfe00707f, 0x4000503b, As_r Do_sraw),
     (0xfe00707f, 0x0200003b, As_r Do_mulw),
     (0xfe00707f, 0x0200403b, As_r Do_divw),
     (0xfe00707f, 0x0200503b, As_r Do_divuw),
     (0xfe00707f, 0x0200603b, As_r Do_remw),
     (0xfe00707f, 0x0200703b, As_r Do_remuw)]"

definition rv_branches :: "(u32 \<times> u32 \<times> rv_format) list" where
  "rv_branches = [
     (0x0000707f, 0x00000063, As_b Do_beq),
     (0x0000707f, 0x00001063, As_b Do_bne),
     (0x0000707f, 0x00004063, As_b Do_blt),
     (0x0000707f, 0x00005063, As_b Do_bge),
     (0x0000707f, 0x00006063, As_b Do_bltu),
     (0x0000707f, 0x00007063, As_b Do_bgeu)]"

definition rv_jalr :: "(u32 \<times> u32 \<times> rv_format) list" where
  "rv_jalr = [
     (0x0000707f, 0x00000067, As_jalr)]"

definition rv_jal :: "(u32 \<times> u32 \<times> rv_format) list" where
  "rv_jal = [
     (0x0000007f, 0x0000006f, As_jal)]"

definition rv_system :: "(u32 \<times> u32 \<times> rv_format) list" where
  "rv_system = [
     (0xffffffff, 0x00000073, As_ecall),
     (0x0000707f, 0x00001073, As_csr Do_csrrw),
     (0x0000707f, 0x00002073, As_csr Do_csrrs),
     (0x0000707f, 0x00003073, As_csr Do_csrrc),
     (0x0000707f, 0x00005073, As_csr Do_csrrwi),
     (0x0000707f, 0x00006073, As_csr Do_csrrsi),
     (0x0000707f, 0x00007073, As_csr Do_csrrci)]"

definition rv32_table :: "(u32 \<times> u32 \<times> rv_format) list" where
  "rv32_table = rv_loads @ rv_fences @ rv_op_imm @ rv_auipc @ rv_op_imm_32 @ rv_stores @ rv_atomics @ rv_op @ rv_lui @ rv_op_32 @ rv_branches @ rv_jalr @ rv_jal @ rv_system"

definition rv32_lookup :: "u32 \<Rightarrow> rv_format option" where
  "rv32_lookup op = map_option (snd \<circ> snd) (find (\<lambda>(m, v, f). op AND m = v) rv32_table)"

section \<open>Operands\<close>

text \<open>
  A piece \<open>(t, f, l)\<close> of an immediate puts \<open>l\<close> bits of the word, from bit \<open>f\<close> on, at bit \<open>t\<close>.
\<close>

definition rv_field :: "u32 \<Rightarrow> nat \<Rightarrow> nat \<Rightarrow> c_int" where
  "rv_field op s l = take_bit l (drop_bit s op)"

fun pieces_of :: "(nat \<times> nat \<times> nat) list \<Rightarrow> u32 \<Rightarrow> c_int" where
  "pieces_of [] op = 0"
| "pieces_of ((t, f, l) # ps) op = push_bit t (rv_field op f l) OR pieces_of ps op"

definition imm_i :: "u32 \<Rightarrow> c_int" where
  "imm_i op = signed_take_bit 11 (pieces_of [(0, 20, 12)] op)"

definition imm_s :: "u32 \<Rightarrow> c_int" where
  "imm_s op = signed_take_bit 11 (pieces_of [(5, 25, 7), (0, 7, 5)] op)"

definition imm_b :: "u32 \<Rightarrow> c_int" where
  "imm_b op = signed_take_bit 12 (pieces_of [(12, 31, 1), (11, 7, 1), (5, 25, 6), (1, 8, 4)] op)"

definition imm_u :: "u32 \<Rightarrow> c_int" where
  "imm_u op = pieces_of [(12, 12, 20)] op"

definition imm_j :: "u32 \<Rightarrow> c_int" where
  "imm_j op = signed_take_bit 20 (pieces_of [(20, 31, 1), (12, 12, 8), (11, 20, 1), (1, 21, 10)] op)"

text \<open>The decoded instruction of a row; an instruction that would write \<open>x0\<close> from the R or I format is empty.\<close>

fun rv32_insn :: "u64 \<Rightarrow> u32 \<Rightarrow> rv_format \<Rightarrow> insn_t" where
  "rv32_insn pc op (As_r h) = zero_insn\<lparr>rd := rv_field op 7 5, rs1 := rv_field op 15 5, rs2 := rv_field op 20 5,
     insn_handler := if rv_field op 7 5 = 0 then Do_empty else H_r h\<rparr>"
| "rv32_insn pc op (As_i h) = zero_insn\<lparr>rd := rv_field op 7 5, rs1 := rv_field op 15 5, imm := imm_i op,
     insn_handler := if rv_field op 7 5 = 0 then Do_empty else H_i h\<rparr>"
| "rv32_insn pc op (As_s h) = zero_insn\<lparr>rs1 := rv_field op 15 5, rs2 := rv_field op 20 5, imm := imm_s op,
     insn_handler := H_s h\<rparr>"
| "rv32_insn pc op (As_b h) = zero_insn\<lparr>rs1 := rv_field op 15 5, rs2 := rv_field op 20 5, imm := imm_b op,
     insn_pc := pc, insn_handler := H_b h\<rparr>"
| "rv32_insn pc op As_lui = zero_insn\<lparr>rd := rv_field op 7 5, imm := imm_u op, insn_handler := Do_lui\<rparr>"
| "rv32_insn pc op As_auipc = zero_insn\<lparr>rd := rv_field op 7 5, imm := imm_u op, insn_pc := pc, insn_handler := Do_auipc\<rparr>"
| "rv32_insn pc op As_jal = zero_insn\<lparr>rd := rv_field op 7 5, imm := imm_j op, insn_pc := pc, insn_handler := H_jump Do_jal\<rparr>"
| "rv32_insn pc op As_jalr = zero_insn\<lparr>rd := rv_field op 7 5, rs1 := rv_field op 15 5, imm := imm_i op,
     insn_pc := pc, insn_handler := H_jump Do_jalr\<rparr>"
| "rv32_insn pc op (As_csr h) = zero_insn\<lparr>rd := rv_field op 7 5, rs1 := rv_field op 15 5, imm := rv_field op 20 12,
     insn_handler := H_csr h\<rparr>"
| "rv32_insn pc op (As_lr h) = zero_insn\<lparr>rd := rv_field op 7 5, rs1 := rv_field op 15 5, insn_handler := H_atom h\<rparr>"
| "rv32_insn pc op (As_amo h) = zero_insn\<lparr>rd := rv_field op 7 5, rs1 := rv_field op 15 5, rs2 := rv_field op 20 5,
     insn_handler := H_atom h\<rparr>"
| "rv32_insn pc op As_fence = zero_insn\<lparr>insn_handler := Do_empty\<rparr>"
| "rv32_insn pc op As_ecall = zero_insn\<lparr>insn_pc := pc, insn_handler := Do_ecall\<rparr>"

section \<open>Extraction\<close>

lemma bit_rv_field: "bit (rv_field op s l) n \<longleftrightarrow> n < l \<and> bit op (s + n)"
  by (simp add: rv_field_def bit_take_bit_iff bit_drop_bit_eq)

lemma extract_rv_field: "field_ok s l \<Longrightarrow> extract32 op s l = rv_field op s l"
  by (simp add: extract32_take_bit rv_field_def)

lemma extract_rv_fields [simp]:
  "extract32 op 7 5 = rv_field op 7 5" "extract32 op 15 5 = rv_field op 15 5"
  "extract32 op 20 5 = rv_field op 20 5" "extract32 op 20 12 = rv_field op 20 12"
  by (simp_all add: extract_rv_field field_ok_def)

lemma bit_pieces_of: "bit (pieces_of ps op) n \<longleftrightarrow>
    n < 32 \<and> (\<exists>(t, f, l)\<in>set ps. t \<le> n \<and> n - t < l \<and> bit op (f + (n - t)))"
  by (induction ps op rule: pieces_of.induct)
    (auto simp: bit_or_iff bit_push_bit_iff bit_rv_field)

lemmas imm32_simps = extract_defs bits field_ok_def bit_pieces_of bit_signed_take_bit_iff min_def
  imm_i_def imm_s_def imm_b_def imm_u_def imm_j_def

lemma extract32_imms:
  "sextract32 op 20 12 = imm_i op"
  "imm (decode_insn32_extract_i i op) = imm_i op"
  "imm (decode_insn32_extract_s i op) = imm_s op"
  "imm (decode_insn32_extract_b i op) = imm_b op"
  "imm (decode_insn32_extract_u i op) = imm_u op"
  "imm (decode_insn32_extract_j i op) = imm_j op"
  by (rule word32_bitsI; simp add: imm32_simps del: bit_0 pieces_of.simps extract_rv_fields)+

section \<open>Masks\<close>

text \<open>A test against a mask tests the opcode, the function code and the rest of the mask.\<close>

lemma and_mask_split:
  fixes op v m1 m2 :: u32
  assumes "v AND NOT (m1 OR m2) = 0"
  shows "op AND (m1 OR m2) = v \<longleftrightarrow> op AND m1 = v AND m1 \<and> op AND m2 = v AND m2"
proof -
  have v: "bit v n \<Longrightarrow> bit m1 n \<or> bit m2 n" for n
    using assms bit_imp_le_length [of v n] unfolding bit_eq_iff
    by (auto simp: bit_and_iff bit_not_iff bit_or_iff)
  show ?thesis
    unfolding bit_eq_iff by (auto simp: bit_and_iff bit_or_iff dest: v)
qed

lemma and_mask_or:
  fixes op v m1 m2 m :: u32
  assumes "m = m1 OR m2" and "v AND NOT m = 0"
  shows "op AND m = v \<longleftrightarrow> op AND m1 = v AND m1 \<and> op AND m2 = v AND m2"
  using assms and_mask_split by simp

lemma mask_707f:
  "v AND NOT 0x707f = 0 \<Longrightarrow> op AND 0x707f = v \<longleftrightarrow> op AND OPCODE_MASK = v AND 0x7f \<and> op AND FUNCT3_MASK = v AND 0x7000"
  unfolding OPCODE_MASK_def FUNCT3_MASK_def
  by (rule and_mask_or) simp_all

lemma mask_fe: "v AND NOT 0xfe00707f = 0 \<Longrightarrow>
    op AND 0xfe00707f = v \<longleftrightarrow> op AND 0x707f = v AND 0x707f \<and> op AND FUNCT7_MASK = v AND 0xfe000000"
  unfolding FUNCT7_MASK_def
  by (rule and_mask_or) simp_all

lemma mask_fc: "v AND NOT 0xfc00707f = 0 \<Longrightarrow>
    op AND 0xfc00707f = v \<longleftrightarrow> op AND 0x707f = v AND 0x707f \<and> op AND I_11_X_MASK = v AND 0xfc000000"
  unfolding I_11_X_MASK_def
  by (rule and_mask_or) simp_all
lemma mask_f8: "v AND NOT 0xf800707f = 0 \<Longrightarrow>
    op AND 0xf800707f = v \<longleftrightarrow> op AND 0x707f = v AND 0x707f \<and> op AND OP_27_31_MASK = v AND 0xf8000000"
  unfolding OP_27_31_MASK_def
  by (rule and_mask_or) simp_all
lemma mask_f9: "v AND NOT 0xf9f0707f = 0 \<Longrightarrow>
    op AND 0xf9f0707f = v \<longleftrightarrow> op AND 0xf800707f = v AND 0xf800707f \<and> op AND OP_20_24_MASK = v AND 0x01f00000"
  unfolding OP_20_24_MASK_def
  by (rule and_mask_or) simp_all

lemma mask_7f: "op AND 0x7f = v \<longleftrightarrow> op AND OPCODE_MASK = v"
  by (simp add: OPCODE_MASK_def)

lemma mask_ecall: "(op :: u32) AND 0xffffffff = 0x73 \<longleftrightarrow> op = 0x73"
proof -
  have "(0xffffffff :: u32) = - 1" by simp
  then show ?thesis by (simp only: and.right_neutral)
qed

lemmas mask_simps = mask_707f mask_fe mask_fc mask_f8 mask_f9 mask_7f mask_ecall

section \<open>Rows of a group\<close>

lemma find_append: "find P (xs @ ys) = (case find P xs of None \<Rightarrow> find P ys | Some x \<Rightarrow> Some x)"
  by (induction xs) auto

text \<open>The first row of a list that matches.\<close>

definition row_of :: "u32 \<Rightarrow> (u32 \<times> u32 \<times> rv_format) list \<Rightarrow> rv_format option" where
  "row_of op rows = map_option (snd \<circ> snd) (find (\<lambda>(m, v, f). op AND m = v) rows)"

lemma row_of_append: "row_of op (xs @ ys) = (case row_of op xs of None \<Rightarrow> row_of op ys | Some f \<Rightarrow> Some f)"
  by (simp add: row_of_def find_append split: option.split)

lemma row_of_simps [simp]:
  "row_of op [] = None"
  "row_of op ((m, v, f) # rows) = (if op AND m = v then Some f else row_of op rows)"
  by (simp_all add: row_of_def)

lemmas rv_rows = rv_loads_def rv_fences_def rv_op_imm_def rv_auipc_def rv_op_imm_32_def rv_stores_def
  rv_atomics_def rv_op_def rv_lui_def rv_op_32_def rv_branches_def rv_jalr_def rv_jal_def rv_system_def

lemma row_of_other:
  assumes "op AND OPCODE_MASK \<noteq> k" and "list_all (\<lambda>(m, v, f). m AND 0x7f = 0x7f \<and> v AND 0x7f = k) rows"
  shows "row_of op rows = None"
  using assms(2)
proof (induction rows)
  case (Cons r rows)
  obtain m v f where r: "r = (m, v, f)" by (cases r)
  have "op AND m \<noteq> v"
  proof
    assume "op AND m = v"
    then have "op AND (m AND 0x7f) = v AND 0x7f" by (metis and.assoc)
    with Cons.prems r assms(1) show False by (simp add: OPCODE_MASK_def)
  qed
  with Cons r show ?case by simp
qed simp

lemma other_rows:
  "op AND OPCODE_MASK \<noteq> 0x03 \<Longrightarrow> row_of op rv_loads = None"
  "op AND OPCODE_MASK \<noteq> 0x0f \<Longrightarrow> row_of op rv_fences = None"
  "op AND OPCODE_MASK \<noteq> 0x13 \<Longrightarrow> row_of op rv_op_imm = None"
  "op AND OPCODE_MASK \<noteq> 0x17 \<Longrightarrow> row_of op rv_auipc = None"
  "op AND OPCODE_MASK \<noteq> 0x1b \<Longrightarrow> row_of op rv_op_imm_32 = None"
  "op AND OPCODE_MASK \<noteq> 0x23 \<Longrightarrow> row_of op rv_stores = None"
  "op AND OPCODE_MASK \<noteq> 0x2f \<Longrightarrow> row_of op rv_atomics = None"
  "op AND OPCODE_MASK \<noteq> 0x33 \<Longrightarrow> row_of op rv_op = None"
  "op AND OPCODE_MASK \<noteq> 0x37 \<Longrightarrow> row_of op rv_lui = None"
  "op AND OPCODE_MASK \<noteq> 0x3b \<Longrightarrow> row_of op rv_op_32 = None"
  "op AND OPCODE_MASK \<noteq> 0x63 \<Longrightarrow> row_of op rv_branches = None"
  "op AND OPCODE_MASK \<noteq> 0x67 \<Longrightarrow> row_of op rv_jalr = None"
  "op AND OPCODE_MASK \<noteq> 0x6f \<Longrightarrow> row_of op rv_jal = None"
  "op AND OPCODE_MASK \<noteq> 0x73 \<Longrightarrow> row_of op rv_system = None"
  by (rule row_of_other, assumption, simp add: rv_rows)+

text \<open>
  What the decoder makes of a word: its row, \<open>ecall\<close> for every other SYSTEM word with the function code 0, an
  illegal instruction otherwise.
\<close>

definition rv32_ok :: "trans_t \<Rightarrow> u32 \<Rightarrow> rv_format option \<Rightarrow> insn_t \<Rightarrow> bool" where
  "rv32_ok c op row i = (case row of
     Some f \<Rightarrow> i = rv32_insn (tc_pc c) op f
   | None \<Rightarrow> if op AND 0x707f = 0x73 then i = rv32_insn (tc_pc c) op As_ecall else illegal_insn c i)"

lemma extract32_records:
  "decode_insn32_extract_r i op = i\<lparr>rs1 := rv_field op 15 5, rd := rv_field op 7 5, rs2 := rv_field op 20 5\<rparr>"
  "decode_insn32_extract_i i op = i\<lparr>rs1 := rv_field op 15 5, rd := rv_field op 7 5, imm := imm_i op\<rparr>"
  "decode_insn32_extract_s i op = i\<lparr>rs1 := rv_field op 15 5, imm := imm_s op, rs2 := rv_field op 20 5\<rparr>"
  "decode_insn32_extract_b i op = i\<lparr>rs1 := rv_field op 15 5, imm := imm_b op, rs2 := rv_field op 20 5\<rparr>"
  "decode_insn32_extract_u i op = i\<lparr>rd := rv_field op 7 5, imm := imm_u op\<rparr>"
  "decode_insn32_extract_j i op = i\<lparr>rd := rv_field op 7 5, imm := imm_j op\<rparr>"
  "decode_insn32_extract_csr i op = i\<lparr>rs1 := rv_field op 15 5, rd := rv_field op 7 5, imm := rv_field op 20 12\<rparr>"
  "decode_insn32_extract_atom_ld i op = i\<lparr>rd := rv_field op 7 5, rs1 := rv_field op 15 5\<rparr>"
  "decode_insn32_extract_atom_st i op = i\<lparr>rs2 := rv_field op 20 5, rd := rv_field op 7 5, rs1 := rv_field op 15 5\<rparr>"
  unfolding extract32_imms(3-6) [of i, symmetric] by (simp_all add: extract_defs extract32_imms(1))

lemma trans32_insn:
  "snd (gen_trans_r hr c zero_insn op) = rv32_insn (tc_pc c) op (As_r hr)"
  "snd (gen_trans_i hi c zero_insn op) = rv32_insn (tc_pc c) op (As_i hi)"
  "snd (gen_trans_s hs c zero_insn op) = rv32_insn (tc_pc c) op (As_s hs)"
  "snd (gen_trans_b hb c zero_insn op) = rv32_insn (tc_pc c) op (As_b hb)"
  "snd (trans_lui c zero_insn op) = rv32_insn (tc_pc c) op As_lui"
  "snd (trans_auipc c zero_insn op) = rv32_insn (tc_pc c) op As_auipc"
  "snd (trans_jal c zero_insn op) = rv32_insn (tc_pc c) op As_jal"
  "snd (trans_jalr c zero_insn op) = rv32_insn (tc_pc c) op As_jalr"
  "snd (gen_trans_csr hc c zero_insn op) = rv32_insn (tc_pc c) op (As_csr hc)"
  "snd (trans_fence c zero_insn op) = rv32_insn (tc_pc c) op As_fence"
  "snd (trans_fence_i c zero_insn op) = rv32_insn (tc_pc c) op As_fence"
  "snd (trans_ecall c zero_insn op) = rv32_insn (tc_pc c) op As_ecall"
  by (simp_all add: trans_defs Let_def extract32_records zero_insn_def)

lemma trans_atom_insn:
  "snd (trans_atom h c zero_insn op) =
     rv32_insn (tc_pc c) op (if h = Do_lr_w \<or> h = Do_lr_d then As_lr h else As_amo h)"
  by (cases h) (simp_all add: extract32_records zero_insn_def)

lemma if_snd: "snd (if b then x else y) = (if b then snd x else snd y)" by simp

section \<open>The decoder finds the rows\<close>

lemmas group_simps = rv32_ok_def rv_rows mask_simps if_snd trans32_insn trans_illegal_def illegal_insn_def

lemma load_rows:
  "op AND OPCODE_MASK = 0x03 \<Longrightarrow> rv32_ok c op (row_of op rv_loads) (snd (decode_load c zero_insn op))"
  by (auto simp: group_simps decode_load_def)

lemma op_imm_rows:
  "op AND OPCODE_MASK = 0x13 \<Longrightarrow> rv32_ok c op (row_of op rv_op_imm) (snd (decode_op_imm c zero_insn op))"
  by (auto simp: group_simps decode_op_imm_def)

lemma op_imm_32_rows:
  "op AND OPCODE_MASK = 0x1b \<Longrightarrow> rv32_ok c op (row_of op rv_op_imm_32) (snd (decode_op_imm_32 c zero_insn op))"
  by (auto simp: group_simps decode_op_imm_32_def)

lemma store_rows:
  "op AND OPCODE_MASK = 0x23 \<Longrightarrow> rv32_ok c op (row_of op rv_stores) (snd (decode_store c zero_insn op))"
  by (auto simp: group_simps decode_store_def)

lemma fence_rows:
  "op AND OPCODE_MASK = 0x0f \<Longrightarrow> rv32_ok c op (row_of op rv_fences) (snd (decode_misc_mem c zero_insn op))"
  by (auto simp: group_simps decode_misc_mem_def trans_pause_def trans_fence_def trans_fence_i_def)

lemma op_rows:
  "op AND OPCODE_MASK = 0x33 \<Longrightarrow> rv32_ok c op (row_of op rv_op) (snd (decode_op c zero_insn op))"
  by (auto simp: group_simps decode_op_def)

lemma op_32_rows:
  "op AND OPCODE_MASK = 0x3b \<Longrightarrow> rv32_ok c op (row_of op rv_op_32) (snd (decode_op_32 c zero_insn op))"
  by (auto simp: group_simps decode_op_32_def)

lemma branch_rows:
  "op AND OPCODE_MASK = 0x63 \<Longrightarrow> rv32_ok c op (row_of op rv_branches) (snd (decode_branch c zero_insn op))"
  by (auto simp: group_simps decode_branch_def)

lemma jalr_rows:
  "op AND OPCODE_MASK = 0x67 \<Longrightarrow> rv32_ok c op (row_of op rv_jalr) (snd (decode_jalr c zero_insn op))"
  by (auto simp: group_simps decode_jalr_def)

lemma system_rows:
  assumes "op AND OPCODE_MASK = 0x73"
  shows "rv32_ok c op (row_of op rv_system) (snd (decode_system c zero_insn op))"
proof (cases "op = 0x73")
  case True
  then have "op AND FUNCT3_MASK = 0" by (simp add: FUNCT3_MASK_def)
  with True show ?thesis
    by (simp add: rv32_ok_def rv_rows decode_system_def if_snd trans32_insn)
next
  case False
  then have "op AND 0xffffffff \<noteq> 0x73" by (simp only: mask_ecall not_False_eq_True)
  with assms show ?thesis
    by (simp add: rv32_ok_def rv_rows mask_707f if_snd trans32_insn trans_illegal_def illegal_insn_def decode_system_def)
qed

lemma atomic_rows_w:
  assumes "op AND OPCODE_MASK = 0x2f" "op AND FUNCT3_MASK = 0x2000"
  shows "rv32_ok c op (row_of op rv_atomics) (snd (decode_amo_w c zero_insn op))"
  using assms by (auto simp: rv32_ok_def rv_rows mask_simps if_snd trans_atom_insn trans_illegal_def illegal_insn_def decode_amo_w_def
      simp del: trans_atom.simps rv32_insn.simps)

lemma atomic_rows_d:
  assumes "op AND OPCODE_MASK = 0x2f" "op AND FUNCT3_MASK = 0x3000"
  shows "rv32_ok c op (row_of op rv_atomics) (snd (decode_amo_d c zero_insn op))"
  using assms by (auto simp: rv32_ok_def rv_rows mask_simps if_snd trans_atom_insn trans_illegal_def illegal_insn_def decode_amo_d_def
      simp del: trans_atom.simps rv32_insn.simps)

lemma atomic_rows:
  assumes "op AND OPCODE_MASK = 0x2f"
  shows "rv32_ok c op (row_of op rv_atomics) (snd (decode_amo c zero_insn op))"
proof -
  consider "op AND FUNCT3_MASK = 0x2000" | "op AND FUNCT3_MASK = 0x3000"
    | "op AND FUNCT3_MASK \<noteq> 0x2000" "op AND FUNCT3_MASK \<noteq> 0x3000" by blast
  then show ?thesis
  proof cases
    case 3
    then have "row_of op rv_atomics = None" by (simp add: rv_rows mask_simps)
    with 3 assms show ?thesis
      by (simp add: decode_amo_def rv32_ok_def mask_simps trans_illegal_def illegal_insn_def)
  qed (use assms atomic_rows_w [of op c] atomic_rows_d [of op c] in \<open>simp_all add: decode_amo_def\<close>)
qed

text \<open>Every word: at most one group has rows for its opcode field.\<close>

lemma lookup_groups:
  "rv32_lookup op =
    (let k = op AND OPCODE_MASK in
     if k = 0x03 then row_of op rv_loads else if k = 0x0f then row_of op rv_fences
     else if k = 0x13 then row_of op rv_op_imm else if k = 0x17 then row_of op rv_auipc
     else if k = 0x1b then row_of op rv_op_imm_32 else if k = 0x23 then row_of op rv_stores
     else if k = 0x2f then row_of op rv_atomics else if k = 0x33 then row_of op rv_op
     else if k = 0x37 then row_of op rv_lui else if k = 0x3b then row_of op rv_op_32
     else if k = 0x63 then row_of op rv_branches else if k = 0x67 then row_of op rv_jalr
     else if k = 0x6f then row_of op rv_jal else if k = 0x73 then row_of op rv_system
     else None)"
proof -
  have l: "rv32_lookup op = row_of op rv32_table" by (simp add: rv32_lookup_def row_of_def)
  have same: "(case x of None \<Rightarrow> None | Some y \<Rightarrow> Some y) = x" for x :: "rv_format option"
    by (cases x) simp_all
  consider "op AND OPCODE_MASK \<in> set [0x03, 0x0f, 0x13, 0x17, 0x1b, 0x23, 0x2f, 0x33, 0x37, 0x3b, 0x63, 0x67, 0x6f, 0x73]"
    | "op AND OPCODE_MASK \<notin> set [0x03, 0x0f, 0x13, 0x17, 0x1b, 0x23, 0x2f, 0x33, 0x37, 0x3b, 0x63, 0x67, 0x6f, 0x73]"
    by blast
  then show ?thesis
  proof cases
    case 1
    then show ?thesis
      unfolding l rv32_table_def row_of_append Let_def list.set insert_iff empty_iff
      by (elim disjE FalseE; simp add: other_rows same cong: option.case_cong)
  next
    case 2
    then show ?thesis
      unfolding l rv32_table_def row_of_append Let_def by (simp add: other_rows cong: option.case_cong)
  qed
qed

lemma decode_insn32_rows: "rv32_ok c op (rv32_lookup op) (snd (decode_insn32 c zero_insn op))"
proof -
  have u: "row_of op rv_auipc = Some As_auipc" if "op AND OPCODE_MASK = 0x17"
    using that by (simp add: rv_rows mask_7f)
  have l: "row_of op rv_lui = Some As_lui" if "op AND OPCODE_MASK = 0x37"
    using that by (simp add: rv_rows mask_7f)
  have j: "row_of op rv_jal = Some As_jal" if "op AND OPCODE_MASK = 0x6f"
    using that by (simp add: rv_rows mask_7f)
  show ?thesis
    unfolding lookup_groups decode_insn32_def Let_def if_snd
    using load_rows fence_rows op_imm_rows op_imm_32_rows store_rows atomic_rows op_rows op_32_rows branch_rows
      jalr_rows system_rows
    by (simp add: u l j) (simp add: rv32_ok_def trans32_insn mask_707f trans_illegal_def illegal_insn_def del: rv32_insn.simps)
qed

end
