(* ===== verification/Translate.thy ===== *)
theory Translate
  imports Decode_Props
begin

text \<open>
  The translation loop of \<open>arch/riscv/translate.c\<close> and the code cache it fills: the buffer of translated
  instructions, the \<open>trans_block_t\<close> blocks and their hash table.  \<open>decode\<close> is related to \<open>fetch_block\<close>,
  which reads a block straight from memory into a list.
\<close>

section \<open>The code cache\<close>

text \<open>
  A pointer to a block is its position in the list of all blocks, which \<open>malloc\<close> only extends.  The
  instruction buffer is addressed by the byte offset from its start; a slot that was never written
  holds the zero bytes of the fresh mapping.
\<close>

record trans_block_t =
  blk_pc :: u64
  blk_insn :: nat
  blk_count :: nat
  jmp_pc0 :: u64
  jmp_blk0 :: "nat option"
  jmp_pc1 :: u64
  jmp_blk1 :: "nat option"
  hash_next :: "nat option"

record code_cache =
  insn_buf :: "nat \<Rightarrow> insn_t"
  insn_buffer_ptr :: nat
  trans_blocks :: "trans_block_t list"
  block_hash_table :: "nat option list"

definition TRANS_MAX :: nat where "TRANS_MAX = 512"

text \<open>\<open>sizeof (insn_t)\<close> and \<open>INSN_BUFFER_SIZE\<close>.\<close>

definition SIZEOF_INSN :: nat where "SIZEOF_INSN = 32"

definition INSN_BUFFER_SIZE :: nat where "INSN_BUFFER_SIZE = 2 ^ 30"

section \<open>The translation loop\<close>

text \<open>The switch on the length.\<close>

definition decode_one :: "trans_t \<Rightarrow> insn_t \<Rightarrow> u32 \<Rightarrow> trans_t \<times> insn_t" where
  "decode_one c i opcode =
     (if insn_len opcode = 2 then decode_insn16 c i (ucast opcode) else decode_insn32 c i opcode)"

text \<open>
  One call per round of the \<open>while (1)\<close> loop, with the address of the current slot and \<open>block->count\<close>.  The
  first access to a slot past the end of the buffer is a fault.
\<close>

function decode ::
  "host_mem \<Rightarrow> u64 \<Rightarrow> trans_t \<Rightarrow> nat \<Rightarrow> nat \<Rightarrow> (nat \<Rightarrow> insn_t) \<Rightarrow> (trans_t \<times> nat \<times> (nat \<Rightarrow> insn_t)) result"
where
  "decode hm gb c insn count buf =
    (case cpu_lduw hm gb (tc_pc c) 0 of
       None \<Rightarrow> Inl (Segv Guest_access)
     | Some opcode \<Rightarrow>
         if insn + SIZEOF_INSN > INSN_BUFFER_SIZE then Inl (Segv Insn_buffer)
         else
           (let len = insn_len opcode;
                (c, i) = decode_one c (buf insn) opcode;
                buf = buf(insn := i);
                count = count + 1
            in if tc_exit c then Inr (c, count, buf)
               else if count \<ge> TRANS_MAX
               then Inr (c\<lparr>tc_link := True, pc_next0 := tc_pc c + of_nat len\<rparr>, count, buf)
               else decode hm gb (c\<lparr>tc_pc := tc_pc c + of_nat len\<rparr>) (insn + SIZEOF_INSN) count buf))"
  by pat_completeness auto
termination
  by (relation "measure (\<lambda>(hm, gb, c, insn, count, buf). TRANS_MAX - count)") auto

declare decode.simps [simp del]

definition init_ctx :: "trans_block_t \<Rightarrow> trans_t" where
  "init_ctx block =
     \<lparr>tc_pc = blk_pc block, tc_count = 0, tc_link = False, pc_next0 = jmp_pc0 block,
      pc_next1 = jmp_pc1 block, tc_exit = False\<rparr>"

text \<open>
  \<open>translate\<close> returns the block when the context asks for a link and \<open>NULL\<close> otherwise; the block is
  updated in place and the buffer pointer moves past its instructions.
\<close>

definition translate :: "machine \<Rightarrow> code_cache \<Rightarrow> nat \<Rightarrow> (code_cache \<times> nat option) result" where
  "translate m cc b =
    (let block = trans_blocks cc ! b in
     bind_result
       (decode (mem m) (guest_base m) (init_ctx block) (blk_insn block) (blk_count block)
          (insn_buf cc))
       (\<lambda>(c, count, buf).
          Inr (cc\<lparr>insn_buf := buf,
                  trans_blocks := (trans_blocks cc)
                    [b := block\<lparr>blk_count := count, jmp_pc0 := pc_next0 c, jmp_pc1 := pc_next1 c\<rparr>],
                  insn_buffer_ptr := insn_buffer_ptr cc +
                    unat (ROUND_UP (of_nat (count * SIZEOF_INSN)) 64)\<rparr>,
               if tc_link c then Some b else None)))"

section \<open>A block as a list\<close>

text \<open>
  What the loop reads, without the buffer: the instructions of the block at the context's program
  counter, from a source of opcodes.
\<close>

function fetch_block :: "(u64 \<Rightarrow> u32 option) \<Rightarrow> trans_t \<Rightarrow> nat \<Rightarrow> (insn_t list \<times> trans_t) option" where
  "fetch_block ld c count =
    (case ld (tc_pc c) of
       None \<Rightarrow> None
     | Some opcode \<Rightarrow>
         (let len = insn_len opcode;
              (c, i) = decode_one c zero_insn opcode;
              count = count + 1
          in if tc_exit c then Some ([i], c)
             else if count \<ge> TRANS_MAX
             then Some ([i], c\<lparr>tc_link := True, pc_next0 := tc_pc c + of_nat len\<rparr>)
             else map_option (\<lambda>(is, c). (i # is, c))
                    (fetch_block ld (c\<lparr>tc_pc := tc_pc c + of_nat len\<rparr>) count)))"
  by pat_completeness auto
termination
  by (relation "measure (\<lambda>(ld, c, count). TRANS_MAX - count)") auto

declare fetch_block.simps [simp del]

fun write_insns :: "(nat \<Rightarrow> insn_t) \<Rightarrow> nat \<Rightarrow> insn_t list \<Rightarrow> nat \<Rightarrow> insn_t" where
  "write_insns buf off [] = buf"
| "write_insns buf off (i # is) = write_insns (buf(off := i)) (off + SIZEOF_INSN) is"

definition read_insns :: "(nat \<Rightarrow> insn_t) \<Rightarrow> nat \<Rightarrow> nat \<Rightarrow> insn_t list" where
  "read_insns buf off n = map (\<lambda>k. buf (off + SIZEOF_INSN * k)) [0..<n]"

lemma write_insns_outside:
  "a < off \<or> off + SIZEOF_INSN * length is \<le> a \<Longrightarrow> write_insns buf off is a = buf a"
  by (induction buf off "is" rule: write_insns.induct) (auto simp: SIZEOF_INSN_def)

lemma read_write_insns: "read_insns (write_insns buf off is) off (length is) = is"
proof (induction buf off "is" rule: write_insns.induct)
  case (1 buf off)
  then show ?case by (simp add: read_insns_def)
next
  case (2 buf off i "is")
  have "read_insns (write_insns buf off (i # is)) off (length (i # is))
      = write_insns buf off (i # is) off
        # read_insns (write_insns buf off (i # is)) (off + SIZEOF_INSN) (length is)"
    by (simp add: read_insns_def upt_conv_Cons map_Suc_upt [symmetric] algebra_simps
        del: upt_Suc)
  also have "write_insns buf off (i # is) off = i"
    by (simp add: write_insns_outside SIZEOF_INSN_def)
  finally show ?case using 2 by simp
qed

lemma read_insns_cong:
  "(\<And>k. k < n \<Longrightarrow> buf' (off + SIZEOF_INSN * k) = buf (off + SIZEOF_INSN * k)) \<Longrightarrow>
   read_insns buf' off n = read_insns buf off n"
  by (simp add: read_insns_def)

end
