(* ===== verification/Translate_Props.thy ===== *)
theory Translate_Props
  imports Translate Cpu_Run
begin

text \<open>
  What the translation loop guarantees: a block has between one and \<open>TRANS_MAX\<close> instructions, only the
  last one ends it, the successors the block records are the ones its last instruction can reach,
  and filling the buffer writes exactly the list that \<open>fetch_block\<close> reads.
\<close>

section \<open>One round\<close>

lemma zero_insn_regs [simp]: "regs_ok zero_insn"
  by (simp add: regs_ok_def zero_insn_def)

lemma decode_one_ok:
  assumes "regs_ok i"
  shows "decode_ok (insn_len opcode) c (decode_one c i opcode)"
  using assms decode_insn16_ok decode_insn32_ok by (auto simp: decode_one_def insn_len_def)

definition straight :: "insn_t \<Rightarrow> bool" where
  "straight i \<longleftrightarrow> \<not> ends_block (insn_handler i)"

lemma context_after_straight [simp]: "straight i \<Longrightarrow> context_after len i c = c"
  by (auto simp: context_after_def straight_def split: handler.split)

lemma context_after_exit [simp]:
  "\<not> tc_exit c \<Longrightarrow> tc_exit (context_after len i c) \<longleftrightarrow> \<not> straight i"
  by (auto simp: context_after_def straight_def split: handler.split)

text \<open>The rounds of \<open>fetch_block\<close> with the context eliminated.\<close>

lemma fetch_block_cases:
  assumes "fetch_block ld c n = Some (is, c')" and "\<not> tc_exit c"
  obtains (last) opcode i where "ld (tc_pc c) = Some opcode"
      "decode_one c zero_insn opcode = (c', i)" "is = [i]" "\<not> straight i"
      "c' = context_after (insn_len opcode) i c"
    | (full) opcode i where "ld (tc_pc c) = Some opcode"
      "decode_one c zero_insn opcode = (c, i)" "is = [i]" "straight i" "TRANS_MAX \<le> n + 1"
      "c' = c\<lparr>tc_link := True, pc_next0 := tc_pc c + of_nat (insn_len opcode)\<rparr>"
    | (more) opcode i is' where "ld (tc_pc c) = Some opcode"
      "decode_one c zero_insn opcode = (c, i)" "is = i # is'" "straight i" "n + 1 < TRANS_MAX"
      "fetch_block ld (c\<lparr>tc_pc := tc_pc c + of_nat (insn_len opcode)\<rparr>) (n + 1) = Some (is', c')"
proof (cases "ld (tc_pc c)")
  case None
  with assms(1) show ?thesis by (simp add: fetch_block.simps [of ld c])
next
  case (Some opcode)
  obtain c1 i where d: "decode_one c zero_insn opcode = (c1, i)" by fastforce
  with decode_one_ok [OF zero_insn_regs, of opcode c] have c1: "c1 = context_after (insn_len opcode) i c"
    by (simp add: decode_ok_def)
  show ?thesis
  proof (cases "straight i")
    case True
    with c1 d have d: "decode_one c zero_insn opcode = (c, i)" by simp
    show ?thesis
    proof (cases "TRANS_MAX \<le> n + 1")
      case True
      with assms Some d \<open>straight i\<close> show ?thesis
        by (intro full) (auto simp: fetch_block.simps [of ld c])
    next
      case False
      with assms Some d have "map_option (\<lambda>(is, c). (i # is, c))
          (fetch_block ld (c\<lparr>tc_pc := tc_pc c + of_nat (insn_len opcode)\<rparr>) (n + 1)) = Some (is, c')"
        by (simp add: fetch_block.simps [of ld c] Let_def)
      with False Some d \<open>straight i\<close> show ?thesis
        by (auto intro: more)
    qed
  next
    case False
    with c1 assms(2) have "tc_exit c1" by simp
    with assms(1) Some d have "is = [i]" "c' = c1"
      by (simp_all add: fetch_block.simps [of ld c])
    with Some d False c1 show ?thesis by (intro last) auto
  qed
qed

section \<open>The shape of a block\<close>

lemma fetch_block_shape:
  assumes "fetch_block ld c n = Some (is, c')" and "\<not> tc_exit c"
  shows "is \<noteq> [] \<and> (\<forall>i\<in>set (butlast is). straight i) \<and>
    (\<forall>i\<in>set is. regs_ok i \<and> insn_handler i \<noteq> Null_handler)"
  using assms
proof (induction ld c n arbitrary: "is" rule: fetch_block.induct)
  case (1 ld c n)
  have ok: "decode_one c zero_insn opcode = (c1, i) \<Longrightarrow> regs_ok i \<and> insn_handler i \<noteq> Null_handler"
    for opcode c1 i
    using decode_one_ok [OF zero_insn_regs, of opcode c] by (simp add: decode_ok_def)
  from 1(2,3) show ?case
  proof (cases rule: fetch_block_cases)
    case (more opcode i is')
    with 1(3) have "is' \<noteq> [] \<and> (\<forall>i\<in>set (butlast is'). straight i) \<and>
        (\<forall>i\<in>set is'. regs_ok i \<and> insn_handler i \<noteq> Null_handler)"
      by (intro 1(1) [of opcode "insn_len opcode" "(c, i)" c i "n + 1"]) auto
    with more ok show ?thesis by auto
  qed (use ok in auto)
qed

lemma fetch_block_length:
  assumes "fetch_block ld c n = Some (is, c')" and "\<not> tc_exit c" and "n < TRANS_MAX"
  shows "n + length is \<le> TRANS_MAX"
  using assms
proof (induction ld c n arbitrary: "is" rule: fetch_block.induct)
  case (1 ld c n)
  from 1(2,3) show ?case
  proof (cases rule: fetch_block_cases)
    case (more opcode i is')
    with 1(3) have "n + 1 + length is' \<le> TRANS_MAX"
      by (intro 1(1) [of opcode "insn_len opcode" "(c, i)" c i "n + 1"]) auto
    with more show ?thesis by simp
  qed (use 1(4) in auto)
qed

text \<open>
  The successors: what the last instruction says, or, when the block was cut at \<open>TRANS_MAX\<close>
  instructions, the address after it.
\<close>

definition block_end :: "nat \<Rightarrow> trans_t \<Rightarrow> insn_t list \<Rightarrow> trans_t \<Rightarrow> bool" where
  "block_end n c is c' \<longleftrightarrow> (let i = last is in
     if straight i
     then n + length is = TRANS_MAX \<and> tc_link c' \<and> \<not> tc_exit c' \<and> pc_next1 c' = pc_next1 c
     else tc_exit c' \<and> (case insn_handler i of
         H_b h \<Rightarrow> tc_link c' \<and> pc_next0 c' = insn_pc i + simm i \<and> pc_next1 c' = insn_pc i + b_len h
       | H_jump h \<Rightarrow> pc_next1 c' = pc_next1 c \<and>
           (if h = Do_jal \<or> h = Do_c_jal then tc_link c' \<and> pc_next0 c' = insn_pc i + simm i
            else tc_link c' = tc_link c \<and> pc_next0 c' = pc_next0 c)
       | _ \<Rightarrow> tc_link c' = tc_link c \<and> pc_next0 c' = pc_next0 c \<and> pc_next1 c' = pc_next1 c))"

lemma b_len_of_handler_len:
  "handler_len (H_b h) = Some n \<Longrightarrow> b_len h = of_nat n"
  by (cases h) auto

lemma block_end_Cons:
  "is \<noteq> [] \<Longrightarrow> block_end (Suc n) (c\<lparr>tc_pc := p\<rparr>) is c' \<longleftrightarrow> block_end n c (i # is) c'"
  by (simp add: block_end_def Let_def cong: handler.case_cong)

lemma fetch_block_end:
  assumes "fetch_block ld c n = Some (is, c')" and "\<not> tc_exit c" and "n < TRANS_MAX"
  shows "block_end n c is c'"
  using assms
proof (induction ld c n arbitrary: "is" rule: fetch_block.induct)
  case (1 ld c n)
  from 1(2,3) show ?case
  proof (cases rule: fetch_block_cases)
    case (last opcode i)
    have "handler_len (insn_handler i) = None \<or> handler_len (insn_handler i) = Some (insn_len opcode)"
      "insn_pc i = tc_pc c"
      using last decode_one_ok [OF zero_insn_regs, of opcode c]
      by (auto simp: decode_ok_def straight_def split: option.splits)
    with last show ?thesis
      by (cases "insn_handler i")
        (auto simp: block_end_def context_after_def straight_def dest: b_len_of_handler_len
           elim: handler_len.elims)
  next
    case (full opcode i)
    with 1(3,4) show ?thesis by (simp add: block_end_def)
  next
    case (more opcode i is')
    with 1(3) have "block_end (n + 1) (c\<lparr>tc_pc := tc_pc c + of_nat (insn_len opcode)\<rparr>) is' c'"
      by (intro 1(1) [of opcode "insn_len opcode" "(c, i)" c i "n + 1"]) auto
    moreover have "is' \<noteq> []" using fetch_block_shape [OF more(6)] 1(3) by simp
    ultimately show ?thesis
      using more block_end_Cons [where c = c and n = n and c' = c' and i = i
          and p = "tc_pc c + of_nat (insn_len opcode)"] by simp
  qed
qed

text \<open>A source that knows more opcodes yields the same block.\<close>

lemma fetch_block_mono:
  assumes "fetch_block ld c n = Some (is, c')" and "\<not> tc_exit c"
    and "\<And>a v. ld a = Some v \<Longrightarrow> ld' a = Some v"
  shows "fetch_block ld' c n = Some (is, c')"
  using assms
proof (induction ld c n arbitrary: "is" rule: fetch_block.induct)
  case (1 ld c n)
  from 1(2,3) show ?case
  proof (cases rule: fetch_block_cases)
    case (more opcode i is')
    with 1(3,4) have "fetch_block ld' (c\<lparr>tc_pc := tc_pc c + of_nat (insn_len opcode)\<rparr>) (n + 1) = Some (is', c')"
      by (intro 1(1) [of opcode "insn_len opcode" "(c, i)" c i "n + 1"]) auto
    with more 1(3) 1(4) [OF more(1)] show ?thesis
      by (simp add: fetch_block.simps [of ld' c n] Let_def)
  qed (use 1(3) in \<open>auto simp: fetch_block.simps [of ld' c n] Let_def dest: 1(4)\<close>)
qed

section \<open>Filling the buffer\<close>

definition guest_code :: "host_mem \<Rightarrow> u64 \<Rightarrow> u64 \<Rightarrow> u32 option" where
  "guest_code hm gb pc = cpu_lduw hm gb pc 0"

lemma decode_fetch:
  assumes "fetch_block (guest_code hm gb) c n = Some (is, c')" and "\<not> tc_exit c"
    and "\<forall>k<TRANS_MAX - n. buf (off + SIZEOF_INSN * k) = zero_insn" and "n < TRANS_MAX"
  shows "decode hm gb c off n buf =
    (if off + SIZEOF_INSN * length is \<le> INSN_BUFFER_SIZE
     then Inr (c', n + length is, write_insns buf off is) else Inl (Segv Insn_buffer))"
  using assms
proof (induction "guest_code hm gb" c n arbitrary: "is" off buf rule: fetch_block.induct)
  case (1 c n)
  have z: "buf off = zero_insn" using 1(4) [rule_format, of 0] 1(5) by simp
  note s = decode.simps [of hm gb c off n buf]
  from 1(2,3) show ?case
  proof (cases rule: fetch_block_cases)
    case (last opcode i)
    with z 1(3) show ?thesis by (simp add: s guest_code_def Let_def)
  next
    case (full opcode i)
    with z 1(3) show ?thesis by (simp add: s guest_code_def Let_def)
  next
    case (more opcode i is')
    let ?c = "c\<lparr>tc_pc := tc_pc c + of_nat (insn_len opcode)\<rparr>"
      and ?buf = "buf(off := i)" and ?off = "off + SIZEOF_INSN"
    have "\<forall>k<TRANS_MAX - (n + 1). ?buf (?off + SIZEOF_INSN * k) = zero_insn"
    proof (intro allI impI)
      fix k assume "k < TRANS_MAX - (n + 1)"
      then have "buf (off + SIZEOF_INSN * (k + 1)) = zero_insn"
        by (intro 1(4) [rule_format]) simp
      then show "?buf (?off + SIZEOF_INSN * k) = zero_insn"
        by (simp add: SIZEOF_INSN_def algebra_simps)
    qed
    with more 1(3) have ih: "decode hm gb ?c ?off (n + 1) ?buf =
      (if ?off + SIZEOF_INSN * length is' \<le> INSN_BUFFER_SIZE
       then Inr (c', n + 1 + length is', write_insns ?buf ?off is') else Inl (Segv Insn_buffer))"
      by (intro 1(1) [of opcode "insn_len opcode" "(c, i)" c i "n + 1"]) auto
    with more z 1(3) show ?thesis
      by (auto simp: s guest_code_def Let_def SIZEOF_INSN_def)
  qed
qed

end
