(* ===== verification/Block_Cache.thy ===== *)
theory Block_Cache
  imports Translate_Props
begin

text \<open>
  The table of translated blocks of \<open>arch/riscv/cpu.c\<close>: \<open>fibhash\<close>, \<open>find_block\<close>, \<open>new_block\<close> and \<open>patch_block\<close>.
  The two loops over a collision chain follow pointers, so nothing in them says that they end; each
  is a partial function here, and the invariant \<open>table_ok\<close>, which every operation preserves, gives
  their termination.  \<open>new_block\<close> does not look at the result of its \<open>malloc\<close>; the model is that of the runs in which these
  allocations succeed.  The locale \<open>block_table\<close> is the contract the execution loop relies on.
\<close>

section \<open>The hash function\<close>

definition FAST_TABLE_SIZE :: nat where "FAST_TABLE_SIZE = 4096"

definition FIBONACCI_HASH_64 :: u64 where "FIBONACCI_HASH_64 = 11400714819323198485"

definition fibhash :: "u64 \<Rightarrow> u64" where
  "fibhash k = (let k = k XOR drop_bit (64 - 12) k in drop_bit (64 - 12) (FIBONACCI_HASH_64 * k))"

lemma fibhash_bound: "unat (fibhash k) < FAST_TABLE_SIZE"
proof -
  have "unat (drop_bit 52 w) < 2 ^ 12" for w :: u64
    by (rule word_less_bits) (auto simp: bit_drop_bit_eq dest: bit_imp_le_length)
  then show ?thesis by (simp add: fibhash_def Let_def FAST_TABLE_SIZE_def)
qed

section \<open>Operations\<close>

partial_function (option) find_chain ::
  "trans_block_t list \<Rightarrow> u64 \<Rightarrow> nat option \<Rightarrow> nat option option" where
  "find_chain bs pc block =
    (case block of
       None \<Rightarrow> Some None
     | Some b \<Rightarrow> if blk_pc (bs ! b) = pc then Some (Some b)
         else find_chain bs pc (hash_next (bs ! b)))"

definition find_block :: "code_cache \<Rightarrow> u64 \<Rightarrow> nat option option" where
  "find_block cc pc =
     find_chain (trans_blocks cc) pc (block_hash_table cc ! unat (fibhash pc))"

partial_function (option) chain_tail :: "trans_block_t list \<Rightarrow> nat \<Rightarrow> nat option" where
  "chain_tail bs b =
    (case hash_next (bs ! b) of None \<Rightarrow> Some b | Some b' \<Rightarrow> chain_tail bs b')"

definition fresh_block :: "u64 \<Rightarrow> nat \<Rightarrow> trans_block_t" where
  "fresh_block pc insn =
     \<lparr>blk_pc = pc, blk_insn = insn, blk_count = 0, jmp_pc0 = 0, jmp_blk0 = None,
      jmp_pc1 = 0, jmp_blk1 = None, hash_next = None\<rparr>"

definition new_block :: "code_cache \<Rightarrow> u64 \<Rightarrow> (code_cache \<times> nat) option" where
  "new_block cc pc =
    (let n = length (trans_blocks cc);
         bs = trans_blocks cc @ [fresh_block pc (insn_buffer_ptr cc)];
         hash = unat (fibhash pc)
     in case block_hash_table cc ! hash of
          None \<Rightarrow>
            Some (cc\<lparr>trans_blocks := bs,
                     block_hash_table := (block_hash_table cc)[hash := Some n]\<rparr>, n)
        | Some b \<Rightarrow>
            (case chain_tail bs b of
               None \<Rightarrow> None
             | Some t \<Rightarrow>
                 Some (cc\<lparr>trans_blocks := bs[t := (bs ! t)\<lparr>hash_next := Some n\<rparr>]\<rparr>, n)))"

definition patch_block :: "trans_block_t list \<Rightarrow> nat \<Rightarrow> nat \<Rightarrow> trans_block_t list" where
  "patch_block bs prev now =
    (if jmp_pc0 (bs ! prev) = blk_pc (bs ! now)
     then bs[prev := (bs ! prev)\<lparr>jmp_blk0 := Some now\<rparr>]
     else if jmp_pc1 (bs ! prev) = blk_pc (bs ! now)
     then bs[prev := (bs ! prev)\<lparr>jmp_blk1 := Some now\<rparr>]
     else bs)"

section \<open>The contract\<close>

locale block_table =
  fixes find :: "'c \<Rightarrow> u64 \<Rightarrow> 'b option option"
    and new :: "'c \<Rightarrow> u64 \<Rightarrow> ('c \<times> 'b) option"
    and ok :: "'c \<Rightarrow> bool"
  assumes find_returns: "ok c \<Longrightarrow> \<exists>r. find c pc = Some r"
    and new_returns: "ok c \<Longrightarrow> find c pc = Some None \<Longrightarrow> \<exists>c' b. new c pc = Some (c', b)"
    and new_ok: "ok c \<Longrightarrow> find c pc = Some None \<Longrightarrow> new c pc = Some (c', b) \<Longrightarrow> ok c'"
    and find_new: "ok c \<Longrightarrow> find c pc = Some None \<Longrightarrow> new c pc = Some (c', b) \<Longrightarrow>
          find c' pc' = (if pc' = pc then Some (Some b) else find c pc')"
begin

text \<open>Looking a block up and adding it when it is missing: it is found afterwards, nothing is lost.\<close>

lemma find_or_new:
  assumes "ok c"
  obtains c' b where "ok c'" "find c' pc = Some (Some b)"
    "find c pc = Some (Some b) \<and> c' = c \<or> find c pc = Some None \<and> new c pc = Some (c', b)"
    "\<And>pc' b'. find c pc' = Some (Some b') \<Longrightarrow> find c' pc' = Some (Some b')"
proof (cases "find c pc = Some None")
  case True
  with assms obtain c' b where n: "new c pc = Some (c', b)" using new_returns by blast
  show ?thesis
    using that [of c' b] new_ok [OF assms True n] find_new [OF assms True n] True n by force
next
  case False
  with assms obtain b where "find c pc = Some (Some b)"
    using find_returns by (metis option.exhaust)
  with assms that [of c b] show ?thesis by blast
qed

text \<open>A block once added is found for good.\<close>

lemma added_stays:
  assumes "ok c" and "find c pc = Some None" and "new c pc = Some (c1, b1)"
    and "find c1 pc' = Some None" and "new c1 pc' = Some (c2, b2)"
  shows "find c2 pc = Some (Some b1) \<and> find c2 pc' = Some (Some b2) \<and> pc' \<noteq> pc"
  using assms new_ok [OF assms(1-3)] find_new [OF assms(1-3)] find_new [of c1 pc' c2 b2]
  by (auto split: if_splits)

end

section \<open>The chains\<close>

fun chain :: "trans_block_t list \<Rightarrow> nat option \<Rightarrow> nat list \<Rightarrow> bool" where
  "chain bs p [] \<longleftrightarrow> p = None"
| "chain bs p (b # l) \<longleftrightarrow> p = Some b \<and> b < length bs \<and> chain bs (hash_next (bs ! b)) l"

text \<open>The blocks of a bucket, in the order of their creation.\<close>

definition bucket :: "trans_block_t list \<Rightarrow> nat \<Rightarrow> nat list" where
  "bucket bs h = filter (\<lambda>b. unat (fibhash (blk_pc (bs ! b))) = h) [0..<length bs]"

definition table_ok :: "code_cache \<Rightarrow> bool" where
  "table_ok cc \<longleftrightarrow> length (block_hash_table cc) = FAST_TABLE_SIZE \<and>
     (\<forall>h<FAST_TABLE_SIZE. chain (trans_blocks cc) (block_hash_table cc ! h) (bucket (trans_blocks cc) h))"

lemma find_chain_eq:
  "chain bs p l \<Longrightarrow> find_chain bs pc p = Some (List.find (\<lambda>b. blk_pc (bs ! b) = pc) l)"
proof (induction l arbitrary: p)
  case Nil
  then show ?case by (simp add: find_chain.simps)
next
  case (Cons b l)
  then show ?case by (simp add: find_chain.simps [of bs pc "Some b"])
qed

lemma chain_tail_eq:
  "chain bs (Some b) (l @ [t]) \<Longrightarrow> chain_tail bs b = Some t"
proof (induction l arbitrary: b)
  case Nil
  then show ?case by (simp add: chain_tail.simps)
next
  case (Cons a l)
  then have "b = a" and c: "chain bs (hash_next (bs ! a)) (l @ [t])" by auto
  obtain b' where b': "hash_next (bs ! a) = Some b'"
    using c by (cases l) auto
  with c Cons.IH have "chain_tail bs b' = Some t" by simp
  with b' \<open>b = a\<close> show ?case by (simp add: chain_tail.simps [of bs a])
qed

lemma chain_cong:
  assumes "\<And>b. b \<in> set l \<Longrightarrow> hash_next (bs' ! b) = hash_next (bs ! b)" and "length bs \<le> length bs'"
  shows "chain bs p l \<Longrightarrow> chain bs' p l"
  using assms(1)
proof (induction l arbitrary: p)
  case (Cons b l)
  then show ?case using assms(2) by auto
qed simp

lemma bucket_mem: "b \<in> set (bucket bs h) \<longleftrightarrow> b < length bs \<and> unat (fibhash (blk_pc (bs ! b))) = h"
  by (auto simp: bucket_def)

lemma bucket_append:
  "bucket (bs @ [x]) h = bucket bs h @ (if unat (fibhash (blk_pc x)) = h then [length bs] else [])"
proof -
  have "filter (\<lambda>b. unat (fibhash (blk_pc ((bs @ [x]) ! b))) = h) [0..<length bs] = bucket bs h"
    unfolding bucket_def by (rule filter_cong) (simp_all add: nth_append)
  then show ?thesis by (simp add: bucket_def)
qed

lemma bucket_cong:
  assumes "length bs' = length bs" and "\<And>b. b < length bs \<Longrightarrow> blk_pc (bs' ! b) = blk_pc (bs ! b)"
  shows "bucket bs' h = bucket bs h"
  using assms by (auto simp: bucket_def intro: filter_cong)

text \<open>The search sees the blocks with the wanted counter, oldest first.\<close>

lemma find_bucket:
  "List.find (\<lambda>b. blk_pc (bs ! b) = pc) (bucket bs (unat (fibhash pc)))
     = List.find (\<lambda>b. blk_pc (bs ! b) = pc) [0..<length bs]"
proof -
  have "List.find P (filter Q l) = List.find P l" if "\<And>x. P x \<Longrightarrow> Q x" for P Q and l :: "nat list"
    using that by (induction l) auto
  from this [of "\<lambda>b. blk_pc (bs ! b) = pc" "\<lambda>b. unat (fibhash (blk_pc (bs ! b))) = unat (fibhash pc)"]
  show ?thesis by (simp add: bucket_def)
qed

lemma find_block_eq:
  assumes "table_ok cc"
  shows "find_block cc pc =
    Some (List.find (\<lambda>b. blk_pc (trans_blocks cc ! b) = pc) [0..<length (trans_blocks cc)])"
proof -
  have "chain (trans_blocks cc) (block_hash_table cc ! unat (fibhash pc))
      (bucket (trans_blocks cc) (unat (fibhash pc)))"
    using assms fibhash_bound [of pc] by (simp add: table_ok_def)
  from find_chain_eq [OF this, of pc] show ?thesis
    by (simp add: find_block_def find_bucket)
qed

lemma chain_snoc:
  assumes "chain bs p (l @ [t])" and "distinct (l @ [t])" and "t < length bs"
    and "bs' = (bs @ [x])[t := (bs ! t)\<lparr>hash_next := Some (length bs)\<rparr>]" and "hash_next x = None"
  shows "chain bs' p (l @ [t, length bs])"
  using assms(1,2)
proof (induction l arbitrary: p)
  case Nil
  then show ?case using assms(3-5) by (simp add: nth_append)
next
  case (Cons a l)
  then have "hash_next (bs' ! a) = hash_next (bs ! a)"
    using assms(4) by (auto simp: nth_append)
  with Cons show ?case using assms(4) by auto
qed

lemma bucket_distinct: "distinct (bucket bs h)"
  by (simp add: bucket_def)

text \<open>Two lists of blocks that differ only in the chain pointers.\<close>

definition same_but_chain :: "trans_block_t list \<Rightarrow> trans_block_t list \<Rightarrow> bool" where
  "same_but_chain bs bs' \<longleftrightarrow> length bs = length bs' \<and>
     (\<forall>b<length bs. bs' ! b = (bs ! b)\<lparr>hash_next := hash_next (bs' ! b)\<rparr>)"

lemma same_but_chain_pc: "same_but_chain bs bs' \<Longrightarrow> b < length bs \<Longrightarrow> blk_pc (bs' ! b) = blk_pc (bs ! b)"
  unfolding same_but_chain_def by (metis trans_block_t.select_convs(1) trans_block_t.surjective trans_block_t.update_convs(8))

lemma new_block_spec:
  assumes "table_ok cc"
  obtains cc' where "new_block cc pc = Some (cc', length (trans_blocks cc))"
    "same_but_chain (trans_blocks cc @ [fresh_block pc (insn_buffer_ptr cc)]) (trans_blocks cc')"
    "insn_buf cc' = insn_buf cc" "insn_buffer_ptr cc' = insn_buffer_ptr cc" "table_ok cc'"
proof -
  let ?bs = "trans_blocks cc" and ?tb = "block_hash_table cc"
  let ?x = "fresh_block pc (insn_buffer_ptr cc)" and ?h = "unat (fibhash pc)"
  have x: "blk_pc ?x = pc" "hash_next ?x = None" by (simp_all add: fresh_block_def)
  have ok: "length ?tb = FAST_TABLE_SIZE"
    "\<And>h. h < FAST_TABLE_SIZE \<Longrightarrow> chain ?bs (?tb ! h) (bucket ?bs h)"
    using assms by (auto simp: table_ok_def)
  note h = fibhash_bound [of pc]
  have other: "chain bs' (?tb ! h) (bucket bs' h)"
    if "h < FAST_TABLE_SIZE" "h \<noteq> ?h" "same_but_chain (?bs @ [?x]) bs'"
      "\<And>b. b \<in> set (bucket ?bs h) \<Longrightarrow> hash_next (bs' ! b) = hash_next (?bs ! b)" for bs' h
  proof -
    have "bucket bs' h = bucket (?bs @ [?x]) h"
      using that(3) same_but_chain_pc [OF that(3)]
      by (intro bucket_cong) (auto simp: same_but_chain_def)
    with that(2) x have "bucket bs' h = bucket ?bs h" by (simp add: bucket_append)
    with chain_cong [OF that(4) _ ok(2) [OF that(1)]] that(3) show ?thesis
      by (simp add: same_but_chain_def)
  qed
  have same: "bucket bs' ?h = bucket ?bs ?h @ [length ?bs]" if "same_but_chain (?bs @ [?x]) bs'" for bs'
  proof -
    have "bucket bs' ?h = bucket (?bs @ [?x]) ?h"
      using that same_but_chain_pc [OF that] by (intro bucket_cong) (auto simp: same_but_chain_def)
    then show ?thesis by (simp add: bucket_append x)
  qed
  show ?thesis
  proof (cases "?tb ! ?h")
    case None
    let ?cc = "cc\<lparr>trans_blocks := ?bs @ [?x], block_hash_table := ?tb[?h := Some (length ?bs)]\<rparr>"
    have s: "same_but_chain (?bs @ [?x]) (?bs @ [?x])" by (simp add: same_but_chain_def)
    have e: "bucket ?bs ?h = []" using ok(2) [OF h] None by (cases "bucket ?bs ?h") auto
    have "table_ok ?cc"
      unfolding table_ok_def
    proof (intro conjI allI impI)
      fix h' assume h': "h' < FAST_TABLE_SIZE"
      show "chain (trans_blocks ?cc) (block_hash_table ?cc ! h') (bucket (trans_blocks ?cc) h')"
      proof (cases "h' = ?h")
        case True
        then show ?thesis using same [OF s] e x h ok(1) by (simp add: nth_append)
      next
        case False
        with other [OF h' False s] show ?thesis by (auto simp: bucket_mem nth_append)
      qed
    qed (simp add: ok(1))
    with None s that [of ?cc] show ?thesis by (simp add: new_block_def Let_def)
  next
    case (Some b)
    then obtain l t where lt: "bucket ?bs ?h = l @ [t]"
      using ok(2) [OF h] by (cases "bucket ?bs ?h" rule: rev_cases) auto
    let ?bs' = "(?bs @ [?x])[t := (?bs ! t)\<lparr>hash_next := Some (length ?bs)\<rparr>]"
    let ?cc = "cc\<lparr>trans_blocks := ?bs'\<rparr>"
    have t: "t < length ?bs" "unat (fibhash (blk_pc (?bs ! t))) = ?h"
      using lt bucket_mem [of t ?bs ?h] by auto
    have s: "same_but_chain (?bs @ [?x]) ?bs'"
      using t by (auto simp: same_but_chain_def nth_list_update nth_append)
    have c: "chain ?bs (?tb ! ?h) (l @ [t])" using ok(2) [OF h] lt by simp
    have tail: "chain_tail (?bs @ [?x]) b = Some t"
      using chain_cong [OF _ _ c, of "?bs @ [?x]"] Some chain_tail_eq
      by (metis append_Nil2 bucket_mem length_append lt nth_append trans_le_add1 le_refl)
    have "table_ok ?cc"
      unfolding table_ok_def
    proof (intro conjI allI impI)
      fix h' assume h': "h' < FAST_TABLE_SIZE"
      show "chain (trans_blocks ?cc) (block_hash_table ?cc ! h') (bucket (trans_blocks ?cc) h')"
      proof (cases "h' = ?h")
        case True
        have "distinct (l @ [t])" using bucket_distinct [of ?bs ?h] lt by simp
        with chain_snoc [OF c _ t(1) refl x(2)] True same [OF s] lt show ?thesis by simp
      next
        case False
        have "hash_next (?bs' ! c) = hash_next (?bs ! c)" if "c \<in> set (bucket ?bs h')" for c
          using that t False by (auto simp: bucket_mem nth_append nth_list_update)
        with other [OF h' False s] show ?thesis by simp
      qed
    qed (simp add: ok(1))
    with Some tail s t that [of ?cc] show ?thesis
      by (simp add: new_block_def Let_def nth_append)
  qed
qed

lemma find_upt_snoc:
  assumes "\<And>b. b < n \<Longrightarrow> P' b = P b"
  shows "List.find P' [0..<Suc n] =
    (case List.find P [0..<n] of Some b \<Rightarrow> Some b | None \<Rightarrow> if P' n then Some n else None)"
proof -
  have app: "List.find P' (l @ [n]) = (case List.find P l of Some b \<Rightarrow> Some b
      | None \<Rightarrow> if P' n then Some n else None)" if "\<forall>b\<in>set l. P' b = P b" for l
    using that by (induction l) auto
  show ?thesis using app [of "[0..<n]"] assms by simp
qed

lemma find_new_block:
  assumes "table_ok cc" and "find_block cc pc = Some None" and "new_block cc pc = Some (cc', b)"
  shows "find_block cc' pc' = (if pc' = pc then Some (Some b) else find_block cc pc')"
proof -
  let ?bs = "trans_blocks cc"
  obtain cc1 where n: "new_block cc pc = Some (cc1, length ?bs)"
    "same_but_chain (?bs @ [fresh_block pc (insn_buffer_ptr cc)]) (trans_blocks cc1)" "table_ok cc1"
    using new_block_spec [OF assms(1)] by blast
  with assms(3) have eq: "cc' = cc1" "b = length ?bs" by auto
  have len: "length (trans_blocks cc1) = Suc (length ?bs)"
    using n(2) by (simp add: same_but_chain_def)
  have pcs: "blk_pc (trans_blocks cc1 ! c) = (if c < length ?bs then blk_pc (?bs ! c) else pc)"
    if "c < Suc (length ?bs)" for c
    using same_but_chain_pc [OF n(2), of c] that by (auto simp: nth_append fresh_block_def)
  have "List.find (\<lambda>c. blk_pc (trans_blocks cc1 ! c) = pc') [0..<Suc (length ?bs)] =
      (case List.find (\<lambda>c. blk_pc (?bs ! c) = pc') [0..<length ?bs] of Some b \<Rightarrow> Some b
       | None \<Rightarrow> if blk_pc (trans_blocks cc1 ! length ?bs) = pc' then Some (length ?bs) else None)"
    by (rule find_upt_snoc) (simp add: pcs)
  moreover have "List.find (\<lambda>c. blk_pc (?bs ! c) = pc) [0..<length ?bs] = None"
    using assms(2) find_block_eq [OF assms(1)] by simp
  ultimately show ?thesis
    using find_block_eq [OF assms(1), of pc'] find_block_eq [OF n(3), of pc'] len
    by (auto simp: eq pcs split: option.splits)
qed

interpretation cache: block_table find_block new_block table_ok
proof unfold_locales
  fix cc pc
  assume "table_ok cc"
  then show "\<exists>r. find_block cc pc = Some r" by (simp add: find_block_eq)
next
  fix cc pc
  assume "table_ok cc"
  then show "\<exists>cc' b. new_block cc pc = Some (cc', b)" using new_block_spec by blast
next
  fix cc pc cc' b
  assume "table_ok cc" "new_block cc pc = Some (cc', b)"
  then show "table_ok cc'" using new_block_spec [of cc pc] by force
qed (rule find_new_block)

text \<open>The operations that leave the counters and the chains alone.\<close>

lemma table_ok_update:
  assumes "table_ok cc" and "block_hash_table cc' = block_hash_table cc"
    and "length (trans_blocks cc') = length (trans_blocks cc)"
    and "\<And>b. b < length (trans_blocks cc) \<Longrightarrow>
      blk_pc (trans_blocks cc' ! b) = blk_pc (trans_blocks cc ! b) \<and>
      hash_next (trans_blocks cc' ! b) = hash_next (trans_blocks cc ! b)"
  shows "table_ok cc'"
proof -
  have "bucket (trans_blocks cc') h = bucket (trans_blocks cc) h" for h
    using assms by (intro bucket_cong) auto
  moreover have "chain (trans_blocks cc') p (bucket (trans_blocks cc) h)"
    if "chain (trans_blocks cc) p (bucket (trans_blocks cc) h)" for p h
    using assms by (intro chain_cong [OF _ _ that]) (auto simp: bucket_mem)
  ultimately show ?thesis using assms(1,2) by (simp add: table_ok_def)
qed

lemma find_block_sound:
  assumes "table_ok cc" and "find_block cc pc = Some (Some b)"
  shows "b < length (trans_blocks cc) \<and> blk_pc (trans_blocks cc ! b) = pc"
  using assms find_block_eq [OF assms(1), of pc] by (auto simp: find_Some_iff)

lemma patch_block_length [simp]: "length (patch_block bs p b) = length bs"
  by (simp add: patch_block_def)

lemma patch_block_nth:
  assumes "p < length bs"
  shows "patch_block bs p b ! c =
    (if c \<noteq> p then bs ! c
     else if jmp_pc0 (bs ! p) = blk_pc (bs ! b) then (bs ! p)\<lparr>jmp_blk0 := Some b\<rparr>
     else if jmp_pc1 (bs ! p) = blk_pc (bs ! b) then (bs ! p)\<lparr>jmp_blk1 := Some b\<rparr>
     else bs ! p)"
  using assms by (simp add: patch_block_def)

end
