(* ===== verification/Cpu_Exec.thy ===== *)
theory Cpu_Exec
  imports Block_Cache
begin

text \<open>
  The execution loop of \<open>arch/riscv/cpu.c\<close>: running the instructions of a block, following the links
  between blocks, and \<open>cpu_exec\<close>, which finds or translates the block at the program counter, links
  it to the block that ran before and runs it until an exception is pending.  Both loops may run
  for ever, so they are partial functions.
\<close>

section \<open>Operations\<close>

text \<open>The \<open>for\<close> loop over the instructions, with the assertion that register zero is zero.\<close>

fun exec_insns :: "(nat \<Rightarrow> insn_t) \<Rightarrow> nat \<Rightarrow> nat \<Rightarrow> machine \<Rightarrow> machine result" where
  "exec_insns buf insn 0 m = Inr m"
| "exec_insns buf insn (Suc n) m =
     bind_result (run_insn (buf insn) m)
       (\<lambda>m. if gpr (env m) ! 0 = 0 then exec_insns buf (insn + SIZEOF_INSN) n m
             else Inl Assert_failed)"

definition next_block :: "trans_block_t \<Rightarrow> machine \<Rightarrow> nat option" where
  "next_block b m = (if env_pc (env m) = jmp_pc0 b then jmp_blk0 b else jmp_blk1 b)"

partial_function (option) block_exec ::
  "code_cache \<Rightarrow> nat \<Rightarrow> machine \<Rightarrow> (machine \<times> nat) result option" where
  "block_exec cc b m =
    (case exec_insns (insn_buf cc) (blk_insn (trans_blocks cc ! b)) (blk_count (trans_blocks cc ! b)) m of
       Inl e \<Rightarrow> Some (Inl e)
     | Inr m \<Rightarrow>
         (case next_block (trans_blocks cc ! b) m of
            None \<Rightarrow> Some (Inr (m, b))
          | Some b' \<Rightarrow> block_exec cc b' m))"

definition lookup_block :: "machine \<Rightarrow> code_cache \<Rightarrow> (code_cache \<times> nat) result option" where
  "lookup_block m cc =
    (case find_block cc (env_pc (env m)) of
       None \<Rightarrow> None
     | Some (Some b) \<Rightarrow> Some (Inr (cc, b))
     | Some None \<Rightarrow>
         (case new_block cc (env_pc (env m)) of
            None \<Rightarrow> None
          | Some (cc, b) \<Rightarrow> Some (bind_result (translate m cc b) (\<lambda>(cc, _). Inr (cc, b)))))"

definition link_prev :: "nat option \<Rightarrow> nat \<Rightarrow> code_cache \<Rightarrow> code_cache" where
  "link_prev prev b cc = (case prev of
     None \<Rightarrow> cc
   | Some p \<Rightarrow> cc\<lparr>trans_blocks := patch_block (trans_blocks cc) p b\<rparr>)"

partial_function (option) cpu_exec ::
  "nat option \<Rightarrow> code_cache \<Rightarrow> machine \<Rightarrow> (machine \<times> code_cache) result option" where
  "cpu_exec prev cc m =
    (if env_exception (env m) \<noteq> EXCP_NONE then Some (Inr (m, cc))
     else (case lookup_block m cc of
         None \<Rightarrow> None
       | Some (Inl e) \<Rightarrow> Some (Inl e)
       | Some (Inr (cc, b)) \<Rightarrow>
           (case block_exec (link_prev prev b cc) b m of
              None \<Rightarrow> None
            | Some (Inl e) \<Rightarrow> Some (Inl e)
            | Some (Inr (m, p)) \<Rightarrow> cpu_exec (Some p) (link_prev prev b cc) m)))"

end
