(* ===== verification/Exec_Refine.thy ===== *)
theory Exec_Refine
  imports Cpu_Exec
begin

text \<open>
  The code cache does not change what the guest computes.  \<open>ref_exec\<close> is the specification without a
  cache: fetch a block from memory, run it, repeat.  The invariant \<open>cache_inv\<close> says that every cached
  block is the block in memory and that a link leads to the block at the address it stands for; every
  step of \<open>cpu_exec\<close> keeps it, and with it \<open>cpu_exec\<close> returns what \<open>ref_exec\<close> returns.
\<close>

section \<open>A block at a time, straight from memory\<close>

text \<open>
  The specification of the loop: read the block at the program counter from memory, run it, repeat
  until an exception is pending.  There is no cache, so it is only given for code that cannot be
  written: a fetch from a writable byte has no result, and neither has a run out of fuel.
\<close>

definition fixed_code :: "host_mem \<Rightarrow> u64 \<Rightarrow> u64 \<Rightarrow> u32 option" where
  "fixed_code hm gb pc =
     (if list_all (\<lambda>k. \<not> hwrite hm (g2h gb pc + of_nat k)) [0..<4] then guest_code hm gb pc else None)"

definition start_ctx :: "u64 \<Rightarrow> trans_t" where
  "start_ctx pc = \<lparr>tc_pc = pc, tc_count = 0, tc_link = False, pc_next0 = 0, pc_next1 = 0, tc_exit = False\<rparr>"

definition block_at :: "machine \<Rightarrow> u64 \<Rightarrow> (insn_t list \<times> trans_t) option" where
  "block_at m pc = fetch_block (fixed_code (mem m) (guest_base m)) (start_ctx pc) 0"

fun exec_list :: "insn_t list \<Rightarrow> machine \<Rightarrow> machine result" where
  "exec_list [] m = Inr m"
| "exec_list (i # is) m =
     bind_result (run_insn i m)
       (\<lambda>m. if gpr (env m) ! 0 = 0 then exec_list is m else Inl Assert_failed)"

fun ref_exec :: "nat \<Rightarrow> machine \<Rightarrow> machine result option" where
  "ref_exec 0 m = None"
| "ref_exec (Suc n) m =
    (if env_exception (env m) \<noteq> EXCP_NONE then Some (Inr m)
     else (case block_at m (env_pc (env m)) of
         None \<Rightarrow> None
       | Some (is, c) \<Rightarrow>
           (case exec_list is m of
              Inl e \<Rightarrow> Some (Inl e)
            | Inr m \<Rightarrow> ref_exec n m)))"

text \<open>Where the blocks of a run start.\<close>

fun ref_starts :: "nat \<Rightarrow> machine \<Rightarrow> u64 list" where
  "ref_starts 0 m = []"
| "ref_starts (Suc n) m =
    (if env_exception (env m) \<noteq> EXCP_NONE then []
     else env_pc (env m) #
       (case block_at m (env_pc (env m)) of
          None \<Rightarrow> []
        | Some (is, c) \<Rightarrow> (case exec_list is m of Inl e \<Rightarrow> [] | Inr m \<Rightarrow> ref_starts n m)))"

lemma ref_starts_length: "length (ref_starts n m) \<le> n"
  by (induction n arbitrary: m) (auto split: option.split sum.split)

lemma exec_insns_list:
  "exec_insns buf off n m = exec_list (read_insns buf off n) m"
proof (induction n arbitrary: off m)
  case 0
  then show ?case by (simp add: read_insns_def)
next
  case (Suc n)
  have "read_insns buf off (Suc n) = buf off # read_insns buf (off + SIZEOF_INSN) n"
    by (simp add: read_insns_def upt_conv_Cons map_Suc_upt [symmetric] algebra_simps del: upt_Suc)
  with Suc show ?case by (simp add: bind_result_def split: sum.split)
qed

lemma exec_list_frame: "exec_list is m = Inr m' \<Longrightarrow> machine_frame m m'"
  by (induction "is" arbitrary: m)
    (auto simp: bind_result_Inr split: if_splits dest: run_insn_frame intro: machine_frame_trans)

lemma mem_frame_load:
  assumes "mem_frame m m'" and "\<forall>i<n. \<not> hwrite m (a + of_nat i)"
  shows "host_load m' a n = host_load m a n"
proof -
  have "load_bytes m' a n = load_bytes m a n"
    using assms by (auto simp: load_bytes_def mem_frame_def)
  then show ?thesis by (simp add: host_load_def)
qed

lemma fixed_code_frame:
  assumes "machine_frame m m'"
  shows "fixed_code (mem m') (guest_base m') = fixed_code (mem m) (guest_base m)"
proof
  fix pc
  have f: "mem_frame (mem m) (mem m')" "hwrite (mem m') = hwrite (mem m)" "guest_base m' = guest_base m"
    using assms by (auto simp: machine_frame_def mem_frame_def)
  show "fixed_code (mem m') (guest_base m') pc = fixed_code (mem m) (guest_base m) pc"
  proof (cases "\<forall>i<4. \<not> hwrite (mem m) (g2h (guest_base m) pc + of_nat i)")
    case True
    with mem_frame_load [OF f(1) True] show ?thesis
      by (simp add: fixed_code_def guest_code_def cpu_lduw_def f(2,3))
  next
    case False
    then show ?thesis by (simp only: fixed_code_def f(2,3) list_all_upt if_False)
  qed
qed

lemma block_at_frame: "machine_frame m m' \<Longrightarrow> block_at m' pc = block_at m pc"
  by (simp add: block_at_def fixed_code_frame)

section \<open>The invariant of the cache\<close>

text \<open>The instructions of a block, read out of the buffer.\<close>

definition block_insns :: "code_cache \<Rightarrow> trans_block_t \<Rightarrow> insn_t list" where
  "block_insns cc b = read_insns (insn_buf cc) (blk_insn b) (blk_count b)"

text \<open>A cached block is the block in memory, with its successors.\<close>

definition block_code_ok :: "machine \<Rightarrow> code_cache \<Rightarrow> trans_block_t \<Rightarrow> bool" where
  "block_code_ok m cc b \<longleftrightarrow>
     (\<exists>c. block_at m (blk_pc b) = Some (block_insns cc b, c) \<and>
        pc_next0 c = jmp_pc0 b \<and> pc_next1 c = jmp_pc1 b) \<and>
     blk_insn b + SIZEOF_INSN * blk_count b \<le> insn_buffer_ptr cc"

text \<open>
  A linked block raises no exception, its links lead to the blocks at its successors, and the second
  link is only there when the counter can end at the second successor.
\<close>

definition block_links_ok :: "code_cache \<Rightarrow> trans_block_t \<Rightarrow> bool" where
  "block_links_ok cc b \<longleftrightarrow>
     (\<forall>t. jmp_blk0 b = Some t \<longrightarrow> t < length (trans_blocks cc) \<and> blk_pc (trans_blocks cc ! t) = jmp_pc0 b) \<and>
     (\<forall>t. jmp_blk1 b = Some t \<longrightarrow> t < length (trans_blocks cc) \<and> blk_pc (trans_blocks cc ! t) = jmp_pc1 b \<and>
        ((\<exists>h. insn_handler (last (block_insns cc b)) = H_b h) \<or>
         straight (last (block_insns cc b)) \<and> jmp_pc1 b = blk_pc b)) \<and>
     (jmp_blk0 b \<noteq> None \<or> jmp_blk1 b \<noteq> None \<longrightarrow> (\<forall>i\<in>set (block_insns cc b). \<not> insn_raises i))"

definition buffer_ok :: "code_cache \<Rightarrow> bool" where
  "buffer_ok cc \<longleftrightarrow> (\<forall>a\<ge>insn_buffer_ptr cc. insn_buf cc a = zero_insn)"

definition cache_inv :: "machine \<Rightarrow> code_cache \<Rightarrow> bool" where
  "cache_inv m cc \<longleftrightarrow> table_ok cc \<and> buffer_ok cc \<and>
     (\<forall>b\<in>set (trans_blocks cc). block_code_ok m cc b \<and> block_links_ok cc b)"

lemma cache_inv_frame:
  assumes "cache_inv m cc" and "machine_frame m m'"
  shows "cache_inv m' cc"
  using assms by (auto simp: cache_inv_def block_code_ok_def block_at_frame)

section \<open>Where a block leaves the counter\<close>

definition leaves :: "trans_block_t \<Rightarrow> insn_t list \<Rightarrow> u64 \<Rightarrow> bool" where
  "leaves b is pc \<longleftrightarrow> (\<forall>i\<in>set is. \<not> insn_raises i) \<and>
     (case insn_handler (last is) of
        H_b h \<Rightarrow> pc = jmp_pc0 b \<or> pc = jmp_pc1 b
      | H_jump h \<Rightarrow> pc = jmp_pc0 b \<or> jmp_pc1 b = jmp_pc0 b
      | _ \<Rightarrow> straight (last is) \<and> pc = blk_pc b)"

lemma exec_list_exception_stays:
  assumes "exec_list is m = Inr m'" and "env_exception (env m) \<noteq> EXCP_NONE"
  shows "env_exception (env m') \<noteq> EXCP_NONE"
  using assms
  by (induction "is" arbitrary: m)
    (auto simp: bind_result_Inr split: if_splits dest: run_insn_exception_stays)

lemma exec_list_no_exception:
  assumes "exec_list is m = Inr m'" and "env_exception (env m') = EXCP_NONE"
  shows "\<forall>i\<in>set is. \<not> insn_raises i"
  using assms
proof (induction "is" arbitrary: m)
  case (Cons i "is")
  then obtain m1 where r: "run_insn i m = Inr m1" "exec_list is m1 = Inr m'"
    by (auto simp: bind_result_Inr split: if_splits)
  with Cons.prems(2) have "\<not> insn_raises i"
    using run_insn_raises exec_list_exception_stays by blast
  with Cons r show ?case by auto
qed simp

lemma exec_list_quiet:
  assumes "exec_list is m = Inr m'" and "\<forall>i\<in>set is. \<not> insn_raises i"
  shows "env_exception (env m') = env_exception (env m)"
  using assms
proof (induction "is" arbitrary: m)
  case (Cons i "is")
  then obtain m1 where r: "run_insn i m = Inr m1" "exec_list is m1 = Inr m'"
    by (auto simp: bind_result_Inr split: if_splits)
  with Cons have "env_exception (env m1) = env_exception (env m)"
    by (metis list.set_intros(1) run_insn_jump_exception run_insn_straight)
  with Cons r show ?case by auto
qed simp

lemma straight_not_jump: "straight i \<Longrightarrow> \<not> is_jump (insn_handler i)"
  by (auto simp: straight_def elim: is_jump.elims)

text \<open>Only the last instruction moves the counter.\<close>

lemma exec_list_pc:
  assumes "exec_list is m = Inr m'" and "is \<noteq> []" and "\<forall>i\<in>set (butlast is). straight i"
    and "\<forall>i\<in>set is. \<not> insn_raises i"
  obtains m1 where "run_insn (last is) m1 = Inr m'" "env_pc (env m1) = env_pc (env m)"
    "machine_frame m m1"
  using assms
proof (induction "is" arbitrary: m thesis)
  case (Cons i "is")
  then obtain m1 where r: "run_insn i m = Inr m1" "exec_list is m1 = Inr m'"
    by (auto simp: bind_result_Inr split: if_splits)
  show ?case
  proof (cases "is = []")
    case True
    with r Cons.prems(1) [of m] show ?thesis by auto
  next
    case False
    with Cons.prems have "straight i" "\<not> insn_raises i" by auto
    with r(1) have "env_pc (env m1) = env_pc (env m)" "machine_frame m m1"
      using run_insn_straight straight_not_jump run_insn_frame by auto
    with Cons r(2) False show ?thesis
      by (smt (verit) butlast.simps(2) last_ConsR list.set_intros(2) machine_frame_trans)
  qed
qed simp

lemma block_code_shape:
  assumes "block_code_ok m cc b"
  obtains c where "block_at m (blk_pc b) = Some (block_insns cc b, c)"
    "block_insns cc b \<noteq> []" "\<forall>i\<in>set (butlast (block_insns cc b)). straight i"
    "block_end 0 (start_ctx (blk_pc b)) (block_insns cc b) c"
    "pc_next0 c = jmp_pc0 b" "pc_next1 c = jmp_pc1 b"
proof -
  from assms obtain c where c: "block_at m (blk_pc b) = Some (block_insns cc b, c)"
    "pc_next0 c = jmp_pc0 b" "pc_next1 c = jmp_pc1 b"
    by (auto simp: block_code_ok_def)
  have "\<not> tc_exit (start_ctx (blk_pc b))" "0 < TRANS_MAX"
    by (simp_all add: start_ctx_def TRANS_MAX_def)
  with c that show ?thesis
    using fetch_block_shape fetch_block_end unfolding block_at_def by blast
qed

lemma exec_leaves:
  assumes "block_code_ok m cc b" and "env_pc (env m) = blk_pc b"
    and "exec_list (block_insns cc b) m = Inr m'" and "env_exception (env m') = EXCP_NONE"
  shows "leaves b (block_insns cc b) (env_pc (env m'))"
proof -
  let ?is = "block_insns cc b" and ?i = "last (block_insns cc b)"
  obtain c where c: "?is \<noteq> []" "\<forall>i\<in>set (butlast ?is). straight i"
      "block_end 0 (start_ctx (blk_pc b)) ?is c" "pc_next0 c = jmp_pc0 b" "pc_next1 c = jmp_pc1 b"
    using assms(1) by (rule block_code_shape)
  have quiet: "\<forall>i\<in>set ?is. \<not> insn_raises i"
    using exec_list_no_exception assms(3,4) by blast
  obtain m1 where m1: "run_insn ?i m1 = Inr m'" "env_pc (env m1) = env_pc (env m)"
    using exec_list_pc [OF assms(3) c(1,2) quiet] by blast
  have nr: "\<not> insn_raises ?i" using quiet c(1) by simp
  have line: "straight ?i \<Longrightarrow> env_pc (env m') = blk_pc b"
    using run_insn_straight [OF m1(1) nr] straight_not_jump m1(2) assms(2) by simp
  show ?thesis
  proof (cases "insn_handler ?i")
    case (H_b h)
    with m1(1) c(3-5) run_b_shape [of h ?i "env m1"] quiet show ?thesis
      by (auto simp: leaves_def block_end_def straight_def run_insn_def on_env_def Let_def reg_simps)
  next
    case (H_jump h)
    with m1(1) c(3-5) quiet show ?thesis
      by (cases h) (auto simp: leaves_def block_end_def straight_def start_ctx_def run_insn_def
          on_env_def do_jal_def do_c_jal_def Let_def reg_simps)
  qed (use nr line quiet in \<open>auto simp: leaves_def straight_def insn_raises_def\<close>)
qed

text \<open>Following a link leads to the block at the counter.\<close>

lemma next_block_pc:
  assumes "block_links_ok cc b" and "leaves b (block_insns cc b) (env_pc (env m))"
    and "next_block b m = Some t"
  shows "t < length (trans_blocks cc) \<and> blk_pc (trans_blocks cc ! t) = env_pc (env m)"
proof (cases "env_pc (env m) = jmp_pc0 b")
  case True
  with assms show ?thesis by (simp add: next_block_def block_links_ok_def)
next
  case False
  with assms(3) have t: "jmp_blk1 b = Some t" by (simp add: next_block_def)
  with assms(1) have *: "t < length (trans_blocks cc)" "blk_pc (trans_blocks cc ! t) = jmp_pc1 b"
    "(\<exists>h. insn_handler (last (block_insns cc b)) = H_b h) \<or>
      straight (last (block_insns cc b)) \<and> jmp_pc1 b = blk_pc b"
    by (auto simp: block_links_ok_def)
  with assms(2) False have "env_pc (env m) = jmp_pc1 b"
    by (auto simp: leaves_def straight_def split: handler.splits)
  with * show ?thesis by simp
qed

section \<open>Finding or translating a block\<close>

text \<open>Old blocks keep everything but their chain pointer, and their instructions.\<close>

definition keeps :: "code_cache \<Rightarrow> code_cache \<Rightarrow> bool" where
  "keeps cc cc' \<longleftrightarrow> length (trans_blocks cc) \<le> length (trans_blocks cc') \<and>
     insn_buffer_ptr cc \<le> insn_buffer_ptr cc' \<and>
     (\<forall>b<length (trans_blocks cc).
        trans_blocks cc' ! b = (trans_blocks cc ! b)\<lparr>hash_next := hash_next (trans_blocks cc' ! b)\<rparr> \<and>
        block_insns cc' (trans_blocks cc' ! b) = block_insns cc (trans_blocks cc ! b))"

lemma keeps_sel:
  assumes "keeps cc cc'" and "b < length (trans_blocks cc)"
  shows "blk_pc (trans_blocks cc' ! b) = blk_pc (trans_blocks cc ! b)"
    and "blk_insn (trans_blocks cc' ! b) = blk_insn (trans_blocks cc ! b)"
    and "blk_count (trans_blocks cc' ! b) = blk_count (trans_blocks cc ! b)"
    and "jmp_pc0 (trans_blocks cc' ! b) = jmp_pc0 (trans_blocks cc ! b)"
    and "jmp_pc1 (trans_blocks cc' ! b) = jmp_pc1 (trans_blocks cc ! b)"
    and "jmp_blk0 (trans_blocks cc' ! b) = jmp_blk0 (trans_blocks cc ! b)"
    and "jmp_blk1 (trans_blocks cc' ! b) = jmp_blk1 (trans_blocks cc ! b)"
    and "block_insns cc' (trans_blocks cc' ! b) = block_insns cc (trans_blocks cc ! b)"
proof -
  obtain h where "trans_blocks cc' ! b = (trans_blocks cc ! b)\<lparr>hash_next := h\<rparr>"
    and "block_insns cc' (trans_blocks cc' ! b) = block_insns cc (trans_blocks cc ! b)"
    using assms unfolding keeps_def by blast
  then show "blk_pc (trans_blocks cc' ! b) = blk_pc (trans_blocks cc ! b)"
    "blk_insn (trans_blocks cc' ! b) = blk_insn (trans_blocks cc ! b)"
    "blk_count (trans_blocks cc' ! b) = blk_count (trans_blocks cc ! b)"
    "jmp_pc0 (trans_blocks cc' ! b) = jmp_pc0 (trans_blocks cc ! b)"
    "jmp_pc1 (trans_blocks cc' ! b) = jmp_pc1 (trans_blocks cc ! b)"
    "jmp_blk0 (trans_blocks cc' ! b) = jmp_blk0 (trans_blocks cc ! b)"
    "jmp_blk1 (trans_blocks cc' ! b) = jmp_blk1 (trans_blocks cc ! b)"
    "block_insns cc' (trans_blocks cc' ! b) = block_insns cc (trans_blocks cc ! b)"
    by simp_all
qed

text \<open>A lookup adds nothing, or one block at a counter that had none.\<close>

definition grows :: "u64 \<Rightarrow> code_cache \<Rightarrow> code_cache \<Rightarrow> bool" where
  "grows pc cc cc' \<longleftrightarrow> cc' = cc \<or>
     pc \<notin> set (map blk_pc (trans_blocks cc)) \<and>
     map blk_pc (trans_blocks cc') = map blk_pc (trans_blocks cc) @ [pc] \<and>
     insn_buffer_ptr cc' \<le> insn_buffer_ptr cc + TRANS_MAX * SIZEOF_INSN"

lemma keeps_refl [simp]: "keeps cc cc"
  by (simp add: keeps_def)

lemma keeps_ok:
  assumes "keeps cc cc'" and "b < length (trans_blocks cc)"
    and "block_code_ok m cc (trans_blocks cc ! b) \<and> block_links_ok cc (trans_blocks cc ! b)"
  shows "block_code_ok m cc' (trans_blocks cc' ! b) \<and> block_links_ok cc' (trans_blocks cc' ! b)"
proof
  have len: "length (trans_blocks cc) \<le> length (trans_blocks cc')"
    "insn_buffer_ptr cc \<le> insn_buffer_ptr cc'"
    using assms(1) by (auto simp: keeps_def)
  show "block_code_ok m cc' (trans_blocks cc' ! b)"
    using assms(3) len by (auto simp: block_code_ok_def keeps_sel [OF assms(1,2)])
  have "t < length (trans_blocks cc') \<and> blk_pc (trans_blocks cc' ! t) = blk_pc (trans_blocks cc ! t)"
    if "t < length (trans_blocks cc)" for t
    using that len keeps_sel(1) [OF assms(1) that] by simp
  then show "block_links_ok cc' (trans_blocks cc' ! b)"
    using assms(3) by (simp add: block_links_ok_def keeps_sel [OF assms(1,2)])
qed

text \<open>The instructions of a block take 32 bytes each, and the next block starts at a multiple of 64.\<close>

lemma insns_round:
  assumes "n \<le> TRANS_MAX"
  shows "unat (ROUND_UP (of_nat (n * SIZEOF_INSN)) 64) = (32 * n + 63) div 64 * 64"
proof -
  have u: "unat (of_nat (n * SIZEOF_INSN) :: u64) = n * SIZEOF_INSN"
    using assms unfolding unat_of_nat by (simp add: take_bit_nat_eq_self SIZEOF_INSN_def TRANS_MAX_def)
  have "unat (of_nat (n * SIZEOF_INSN) :: u64) + 2 ^ 6 \<le> 2 ^ 64"
    using assms unfolding u by (simp add: SIZEOF_INSN_def TRANS_MAX_def)
  from unat_ROUND_UP [OF this] show ?thesis unfolding u by (simp add: SIZEOF_INSN_def mult.commute)
qed

lemma insns_size:
  assumes "n \<le> TRANS_MAX"
  shows "n * SIZEOF_INSN \<le> unat (ROUND_UP (of_nat (n * SIZEOF_INSN)) 64)"
    and "unat (ROUND_UP (of_nat (n * SIZEOF_INSN)) 64) \<le> TRANS_MAX * SIZEOF_INSN"
  unfolding insns_round [OF assms] using assms round_up_bounds(1) [of 64 "32 * n"]
  by (simp_all add: SIZEOF_INSN_def TRANS_MAX_def mult.commute)

lemma translate_fresh:
  assumes "block_at m pc = Some (is, c)" and "b < length (trans_blocks cc)"
    and "trans_blocks cc ! b = (fresh_block pc (insn_buffer_ptr cc))\<lparr>hash_next := h\<rparr>"
    and "buffer_ok cc"
  shows "translate m cc b = (if insn_buffer_ptr cc + SIZEOF_INSN * length is \<le> INSN_BUFFER_SIZE
    then Inr (cc\<lparr>insn_buf := write_insns (insn_buf cc) (insn_buffer_ptr cc) is,
        trans_blocks := (trans_blocks cc)[b := (trans_blocks cc ! b)
          \<lparr>blk_count := length is, jmp_pc0 := pc_next0 c, jmp_pc1 := pc_next1 c\<rparr>],
        insn_buffer_ptr := insn_buffer_ptr cc + unat (ROUND_UP (of_nat (length is * SIZEOF_INSN)) 64)\<rparr>,
      if tc_link c then Some b else None)
    else Inl (Segv Insn_buffer))"
proof -
  have "fetch_block (guest_code (mem m) (guest_base m)) (start_ctx pc) 0 = Some (is, c)"
    using assms(1) unfolding block_at_def
    by (rule fetch_block_mono) (auto simp: start_ctx_def fixed_code_def split: if_splits)
  moreover have "init_ctx (trans_blocks cc ! b) = start_ctx pc"
    by (simp add: assms(3) init_ctx_def start_ctx_def fresh_block_def)
  moreover have "\<not> tc_exit (start_ctx pc)" by (simp add: start_ctx_def)
  moreover have "\<forall>k<TRANS_MAX - 0. insn_buf cc (insn_buffer_ptr cc + SIZEOF_INSN * k) = zero_insn"
    using assms(4) by (simp add: buffer_ok_def)
  ultimately show ?thesis
    using decode_fetch [of "mem m" "guest_base m" "start_ctx pc" 0 "is" c "insn_buf cc" "insn_buffer_ptr cc"]
    by (simp add: translate_def Let_def assms(3) fresh_block_def TRANS_MAX_def)
qed

lemma lookup_block_spec:
  assumes "cache_inv m cc" and "block_at m (env_pc (env m)) = Some (is, c)"
  shows "lookup_block m cc = Some (Inl (Segv Insn_buffer)) \<and>
      INSN_BUFFER_SIZE < insn_buffer_ptr cc + SIZEOF_INSN * length is \<and>
      env_pc (env m) \<notin> set (map blk_pc (trans_blocks cc)) \<or>
    (\<exists>cc' b. lookup_block m cc = Some (Inr (cc', b)) \<and> cache_inv m cc' \<and> keeps cc cc' \<and>
       b < length (trans_blocks cc') \<and> blk_pc (trans_blocks cc' ! b) = env_pc (env m) \<and>
       block_insns cc' (trans_blocks cc' ! b) = is \<and> grows (env_pc (env m)) cc cc')"
proof -
  let ?pc = "env_pc (env m)" and ?bs = "trans_blocks cc" and ?ptr = "insn_buffer_ptr cc"
  have tok: "table_ok cc" and bok: "buffer_ok cc"
    and blocks: "\<And>b. b < length ?bs \<Longrightarrow> block_code_ok m cc (?bs ! b) \<and> block_links_ok cc (?bs ! b)"
    using assms(1) by (auto simp: cache_inv_def)
  obtain f where f: "find_block cc ?pc = Some f" using cache.find_returns [OF tok] by blast
  show ?thesis
  proof (cases f)
    case (Some b)
    with f find_block_sound [OF tok] have b: "b < length ?bs" "blk_pc (?bs ! b) = ?pc" by auto
    with blocks assms(2) have "block_insns cc (?bs ! b) = is" by (fastforce simp: block_code_ok_def)
    with b f Some assms(1) show ?thesis by (auto simp: lookup_block_def grows_def)
  next
    case None
    obtain cc1 where n: "new_block cc ?pc = Some (cc1, length ?bs)"
      "same_but_chain (?bs @ [fresh_block ?pc ?ptr]) (trans_blocks cc1)"
      "insn_buf cc1 = insn_buf cc" "insn_buffer_ptr cc1 = ?ptr" "table_ok cc1"
      using new_block_spec [OF tok] by blast
    let ?n = "length ?bs"
    have pc: "?pc \<notin> set (map blk_pc ?bs)"
      using f None find_block_eq [OF tok] by (auto simp: find_None_iff in_set_conv_nth)
    have len1: "length (trans_blocks cc1) = Suc ?n" using n(2) by (simp add: same_but_chain_def)
    have old: "trans_blocks cc1 ! b = (?bs ! b)\<lparr>hash_next := hash_next (trans_blocks cc1 ! b)\<rparr>"
      if "b < ?n" for b
    proof -
      have "b < length (?bs @ [fresh_block ?pc ?ptr])" using that by simp
      with n(2) have "trans_blocks cc1 ! b = ((?bs @ [fresh_block ?pc ?ptr]) ! b)
          \<lparr>hash_next := hash_next (trans_blocks cc1 ! b)\<rparr>"
        unfolding same_but_chain_def by blast
      then show ?thesis using that by (simp only: nth_append if_True)
    qed
    obtain h where new: "trans_blocks cc1 ! ?n = (fresh_block ?pc (insn_buffer_ptr cc1))\<lparr>hash_next := h\<rparr>"
      using n(2,4) unfolding same_but_chain_def by (metis length_append_singleton lessI nth_append_length)
    have bok1: "buffer_ok cc1" using bok n(3,4) by (simp add: buffer_ok_def)
    note tr = translate_fresh [OF assms(2) _ new bok1]
    show ?thesis
    proof (cases "?ptr + SIZEOF_INSN * length is \<le> INSN_BUFFER_SIZE")
      case False
      with tr f None n len1 pc show ?thesis by (simp add: lookup_block_def)
    next
      case True
      define nb where "nb = (trans_blocks cc1 ! ?n)
        \<lparr>blk_count := length is, jmp_pc0 := pc_next0 c, jmp_pc1 := pc_next1 c\<rparr>"
      define cc2 where "cc2 = cc1\<lparr>insn_buf := write_insns (insn_buf cc) ?ptr is,
        trans_blocks := (trans_blocks cc1)[?n := nb],
        insn_buffer_ptr := ?ptr + unat (ROUND_UP (of_nat (length is * SIZEOF_INSN)) 64)\<rparr>"
      have look: "lookup_block m cc = Some (Inr (cc2, ?n))"
        using tr f None n len1 True by (simp add: lookup_block_def cc2_def nb_def)
      have nbsel: "blk_pc nb = ?pc" "blk_insn nb = ?ptr" "blk_count nb = length is"
        "jmp_pc0 nb = pc_next0 c" "jmp_pc1 nb = pc_next1 c" "jmp_blk0 nb = None" "jmp_blk1 nb = None"
        using n(4) by (simp_all add: nb_def new fresh_block_def)
      have sel2: "trans_blocks cc2 ! ?n = nb" "length (trans_blocks cc2) = Suc ?n"
        "insn_buf cc2 = write_insns (insn_buf cc) ?ptr is"
        using len1 by (simp_all add: cc2_def)
      have "length is \<le> TRANS_MAX"
        using fetch_block_length [OF assms(2) [unfolded block_at_def]]
        by (simp add: start_ctx_def TRANS_MAX_def)
      then have ptr: "?ptr + length is * SIZEOF_INSN \<le> insn_buffer_ptr cc2"
        "insn_buffer_ptr cc2 \<le> ?ptr + TRANS_MAX * SIZEOF_INSN"
        using insns_size by (simp_all add: cc2_def)
      have "blk_pc (trans_blocks cc2 ! k) = (map blk_pc ?bs @ [?pc]) ! k" if "k < Suc ?n" for k
        using that same_but_chain_pc [OF n(2), of k] nbsel(1) len1
        by (cases "k = ?n") (simp_all add: cc2_def nth_append)
      then have "map blk_pc (trans_blocks cc2) = map blk_pc ?bs @ [?pc]"
        using sel2(2) by (intro nth_equalityI) simp_all
      with pc ptr(2) have grows: "grows ?pc cc cc2" by (simp add: grows_def)
      have keeps: "keeps cc cc2"
        unfolding keeps_def
      proof (intro conjI allI impI)
        fix b assume b: "b < ?n"
        show "trans_blocks cc2 ! b = (?bs ! b)\<lparr>hash_next := hash_next (trans_blocks cc2 ! b)\<rparr>"
          using old [OF b] b by (simp add: cc2_def)
        then have s: "blk_insn (trans_blocks cc2 ! b) = blk_insn (?bs ! b)"
          "blk_count (trans_blocks cc2 ! b) = blk_count (?bs ! b)"
          by (metis trans_block_t.select_convs(2) trans_block_t.surjective trans_block_t.update_convs(8),
              metis trans_block_t.select_convs(3) trans_block_t.surjective trans_block_t.update_convs(8))
        have "blk_insn (?bs ! b) + SIZEOF_INSN * blk_count (?bs ! b) \<le> ?ptr"
          using blocks [OF b] by (simp add: block_code_ok_def)
        then show "block_insns cc2 (trans_blocks cc2 ! b) = block_insns cc (?bs ! b)"
          unfolding block_insns_def s sel2(3)
          by (intro read_insns_cong write_insns_outside) (auto simp: SIZEOF_INSN_def)
      qed (use len1 ptr in \<open>auto simp: cc2_def\<close>)
      have bi: "block_insns cc2 nb = is"
        using read_write_insns [of "insn_buf cc" ?ptr "is"] by (simp add: block_insns_def nbsel sel2)
      have "block_code_ok m cc2 nb"
        using assms(2) bi ptr by (auto simp: block_code_ok_def nbsel algebra_simps)
      moreover have "block_links_ok cc2 nb" by (simp add: block_links_ok_def nbsel)
      ultimately have all: "block_code_ok m cc2 (trans_blocks cc2 ! b) \<and> block_links_ok cc2 (trans_blocks cc2 ! b)"
        if "b < length (trans_blocks cc2)" for b
        using that keeps_ok [OF keeps _ blocks, of b] sel2(1,2) by (cases "b = ?n") auto
      have "table_ok cc2"
        using n(5) len1 by (rule_tac table_ok_update [of cc1])
          (auto simp: cc2_def nb_def nth_list_update)
      moreover have "buffer_ok cc2"
        unfolding buffer_ok_def
      proof (intro allI impI)
        fix a assume "insn_buffer_ptr cc2 \<le> a"
        with ptr have "?ptr + SIZEOF_INSN * length is \<le> a" by (simp add: algebra_simps)
        with bok show "insn_buf cc2 a = zero_insn"
          by (simp add: sel2 write_insns_outside buffer_ok_def)
      qed
      ultimately have "cache_inv m cc2"
        using all by (auto simp: cache_inv_def in_set_conv_nth)
      with look keeps nbsel(1) bi sel2(1,2) grows show ?thesis by auto
    qed
  qed
qed

section \<open>Linking\<close>

text \<open>The block that ran before, as \<open>cpu_exec\<close> remembers it.\<close>

definition prev_ok :: "code_cache \<Rightarrow> u64 \<Rightarrow> nat option \<Rightarrow> bool" where
  "prev_ok cc pc prev \<longleftrightarrow> (\<forall>p. prev = Some p \<longrightarrow> p < length (trans_blocks cc) \<and>
     leaves (trans_blocks cc ! p) (block_insns cc (trans_blocks cc ! p)) pc)"

lemma prev_ok_keeps:
  assumes "keeps cc cc'" and "prev_ok cc pc prev"
  shows "prev_ok cc' pc prev"
proof -
  have "p < length (trans_blocks cc') \<and>
      leaves (trans_blocks cc' ! p) (block_insns cc' (trans_blocks cc' ! p)) pc" if "prev = Some p" for p
  proof -
    from that assms(2) have p: "p < length (trans_blocks cc)"
      "leaves (trans_blocks cc ! p) (block_insns cc (trans_blocks cc ! p)) pc"
      by (auto simp: prev_ok_def)
    then show ?thesis
      using assms(1) by (auto simp: leaves_def keeps_sel [OF assms(1) p(1)] keeps_def
          cong: handler.case_cong)
  qed
  then show ?thesis by (simp add: prev_ok_def)
qed

lemma block_insns_link [simp]:
  "block_insns (cc\<lparr>trans_blocks := bs\<rparr>) b = block_insns cc b"
  "block_insns cc (b\<lparr>jmp_blk0 := x\<rparr>) = block_insns cc b"
  "block_insns cc (b\<lparr>jmp_blk1 := x\<rparr>) = block_insns cc b"
  by (simp_all add: block_insns_def)

text \<open>What linking does to a block: at most its two links change.\<close>

lemma link_prev_nth:
  assumes "prev_ok cc pc prev"
  shows "blk_pc (trans_blocks (link_prev prev b cc) ! c) = blk_pc (trans_blocks cc ! c)"
    and "blk_insn (trans_blocks (link_prev prev b cc) ! c) = blk_insn (trans_blocks cc ! c)"
    and "blk_count (trans_blocks (link_prev prev b cc) ! c) = blk_count (trans_blocks cc ! c)"
    and "jmp_pc0 (trans_blocks (link_prev prev b cc) ! c) = jmp_pc0 (trans_blocks cc ! c)"
    and "jmp_pc1 (trans_blocks (link_prev prev b cc) ! c) = jmp_pc1 (trans_blocks cc ! c)"
    and "hash_next (trans_blocks (link_prev prev b cc) ! c) = hash_next (trans_blocks cc ! c)"
    and "block_insns cc (trans_blocks (link_prev prev b cc) ! c) = block_insns cc (trans_blocks cc ! c)"
  using assms by (auto simp: link_prev_def prev_ok_def patch_block_nth split: option.splits)

lemma link_prev_other [simp]:
  "length (trans_blocks (link_prev prev b cc)) = length (trans_blocks cc)"
  "insn_buf (link_prev prev b cc) = insn_buf cc"
  "insn_buffer_ptr (link_prev prev b cc) = insn_buffer_ptr cc"
  "block_hash_table (link_prev prev b cc) = block_hash_table cc"
  "block_insns (link_prev prev b cc) x = block_insns cc x"
  by (auto simp: link_prev_def split: option.splits)

lemma link_prev_links:
  assumes "block_links_ok cc (trans_blocks cc ! c)" and "prev_ok cc pc prev"
    and "b < length (trans_blocks cc)" and "blk_pc (trans_blocks cc ! b) = pc"
  shows "block_links_ok (link_prev prev b cc) (trans_blocks (link_prev prev b cc) ! c)"
proof (cases "prev = Some c")
  case False
  then have "trans_blocks (link_prev prev b cc) ! c = trans_blocks cc ! c"
    using assms(2) by (auto simp: link_prev_def prev_ok_def patch_block_nth split: option.splits)
  with assms(1) link_prev_nth(1,7) [OF assms(2), of b] show ?thesis
    by (simp add: block_links_ok_def)
next
  case True
  let ?p = "trans_blocks cc ! c"
  from True assms(2) have c: "c < length (trans_blocks cc)" and l: "leaves ?p (block_insns cc ?p) pc"
    by (auto simp: prev_ok_def)
  note eqs = link_prev_nth(1,4,5,7) [OF assms(2), of b]
  have quiet: "\<forall>i\<in>set (block_insns cc ?p). \<not> insn_raises i" using l by (simp add: leaves_def)
  consider (first) "jmp_pc0 ?p = pc" | (second) "jmp_pc0 ?p \<noteq> pc" "jmp_pc1 ?p = pc"
    | (none) "jmp_pc0 ?p \<noteq> pc" "jmp_pc1 ?p \<noteq> pc" by blast
  then show ?thesis
  proof cases
    case first
    then have "trans_blocks (link_prev prev b cc) ! c = ?p\<lparr>jmp_blk0 := Some b\<rparr>"
      using True c assms(4) by (simp add: link_prev_def patch_block_nth)
    with assms(1,3,4) quiet eqs first show ?thesis
      by (simp add: block_links_ok_def)
  next
    case second
    then have p': "trans_blocks (link_prev prev b cc) ! c = ?p\<lparr>jmp_blk1 := Some b\<rparr>"
      using True c assms(4) by (simp add: link_prev_def patch_block_nth)
    have "(\<exists>h. insn_handler (last (block_insns cc ?p)) = H_b h) \<or>
        straight (last (block_insns cc ?p)) \<and> jmp_pc1 ?p = blk_pc ?p"
      using l second by (auto simp: leaves_def split: handler.splits)
    with p' assms(1,3,4) quiet eqs second show ?thesis
      by (simp add: block_links_ok_def)
  next
    case none
    then have "trans_blocks (link_prev prev b cc) ! c = ?p"
      using True c assms(4) by (simp add: link_prev_def patch_block_nth)
    with assms(1) eqs show ?thesis by (simp add: block_links_ok_def)
  qed
qed

lemma link_prev_inv:
  assumes "cache_inv m cc" and "prev_ok cc pc prev"
    and "b < length (trans_blocks cc)" and "blk_pc (trans_blocks cc ! b) = pc"
  shows "cache_inv m (link_prev prev b cc)"
proof -
  note eqs = link_prev_nth [OF assms(2), of b]
  have inv: "table_ok cc" "buffer_ok cc"
    "\<And>c. c < length (trans_blocks cc) \<Longrightarrow>
      block_code_ok m cc (trans_blocks cc ! c) \<and> block_links_ok cc (trans_blocks cc ! c)"
    using assms(1) by (auto simp: cache_inv_def)
  have "table_ok (link_prev prev b cc)"
    by (rule table_ok_update [OF inv(1)]) (simp_all add: eqs)
  moreover have "buffer_ok (link_prev prev b cc)" using inv(2) by (simp add: buffer_ok_def)
  moreover have "block_code_ok m (link_prev prev b cc) (trans_blocks (link_prev prev b cc) ! c) \<and>
      block_links_ok (link_prev prev b cc) (trans_blocks (link_prev prev b cc) ! c)"
    if "c < length (trans_blocks cc)" for c
    using inv(3) [OF that] link_prev_links [OF _ assms(2-4)] by (simp add: block_code_ok_def eqs)
  ultimately show ?thesis by (auto simp: cache_inv_def in_set_conv_nth)
qed

section \<open>The refinement\<close>

lemma block_exec_ref:
  assumes "cache_inv m cc" and "b < length (trans_blocks cc)"
    and "blk_pc (trans_blocks cc ! b) = env_pc (env m)" and "env_exception (env m) = EXCP_NONE"
    and "ref_exec (Suc n) m = Some r"
  shows "(\<exists>e. block_exec cc b m = Some (Inl e) \<and> r = Inl e) \<or>
    (\<exists>m' p n'. block_exec cc b m = Some (Inr (m', p)) \<and> n' \<le> n \<and> ref_exec n' m' = Some r \<and>
       machine_frame m m' \<and> set (ref_starts n' m') \<subseteq> set (ref_starts (Suc n) m) \<and>
       (env_exception (env m') = EXCP_NONE \<longrightarrow> prev_ok cc (env_pc (env m')) (Some p)))"
  using assms
proof (induction n arbitrary: m b)
  let ?blk = "\<lambda>b. trans_blocks cc ! b" and ?is = "\<lambda>b. block_insns cc (trans_blocks cc ! b)"
  have unfold: "block_exec cc b m = (case exec_list (?is b) m of
       Inl e \<Rightarrow> Some (Inl e)
     | Inr m \<Rightarrow> (case next_block (?blk b) m of None \<Rightarrow> Some (Inr (m, b)) | Some b' \<Rightarrow> block_exec cc b' m))"
    for b m
    by (subst block_exec.simps) (simp add: exec_insns_list block_insns_def)
  have run: "ref_exec (Suc n) m = (case exec_list (?is b) m of Inl e \<Rightarrow> Some (Inl e) | Inr m \<Rightarrow> ref_exec n m)"
    and starts: "ref_starts (Suc n) m = env_pc (env m) # (case exec_list (?is b) m of Inl e \<Rightarrow> [] | Inr m \<Rightarrow> ref_starts n m)"
    and code: "block_code_ok m cc (?blk b)" and links: "block_links_ok cc (?blk b)"
    if "cache_inv m cc" "b < length (trans_blocks cc)" "blk_pc (?blk b) = env_pc (env m)"
      "env_exception (env m) = EXCP_NONE" for m b n
  proof -
    show "block_code_ok m cc (?blk b)" "block_links_ok cc (?blk b)"
      using that(1,2) by (auto simp: cache_inv_def)
    then show "ref_exec (Suc n) m = (case exec_list (?is b) m of Inl e \<Rightarrow> Some (Inl e) | Inr m \<Rightarrow> ref_exec n m)"
      "ref_starts (Suc n) m = env_pc (env m) # (case exec_list (?is b) m of Inl e \<Rightarrow> [] | Inr m \<Rightarrow> ref_starts n m)"
      using that(3,4) by (auto simp: block_code_ok_def)
  qed
  {
    case 0
    note r = run [OF 0(1-4), of 0]
    show ?case
    proof (cases "exec_list (?is b) m")
      case (Inl e)
      with r 0(5) have "r = Inl e" by (simp del: ref_exec.simps)
      with Inl show ?thesis by (simp add: unfold)
    next
      case (Inr m')
      with r 0(5) show ?thesis by simp
    qed
  next
    case (Suc n)
    note r = run [OF Suc.prems(1-4), of "Suc n"]
    show ?case
    proof (cases "exec_list (?is b) m")
      case (Inl e)
      with r Suc.prems(5) have "r = Inl e" by (simp del: ref_exec.simps)
      with Inl show ?thesis by (simp add: unfold)
    next
      case (Inr m1)
      with r Suc.prems(5) have r1: "ref_exec (Suc n) m1 = Some r" by simp
      have frame: "machine_frame m m1" using exec_list_frame [OF Inr] .
      have sub: "set (ref_starts (Suc n) m1) \<subseteq> set (ref_starts (Suc (Suc n)) m)"
        using starts [OF Suc.prems(1-4), of "Suc n"] Inr by (simp add: subset_insertI del: ref_starts.simps)
      have leaves: "leaves (?blk b) (?is b) (env_pc (env m1))" if "env_exception (env m1) = EXCP_NONE"
        using exec_leaves [OF code [OF Suc.prems(1-4)] _ Inr that] Suc.prems(3) by simp
      show ?thesis
      proof (cases "next_block (?blk b) m1")
        case None
        with Inr have "block_exec cc b m = Some (Inr (m1, b))" by (simp add: unfold)
        moreover have "env_exception (env m1) = EXCP_NONE \<longrightarrow> prev_ok cc (env_pc (env m1)) (Some b)"
          using leaves Suc.prems(2) by (simp add: prev_ok_def)
        ultimately show ?thesis using r1 frame sub by blast
      next
        case (Some t)
        note l = links [OF Suc.prems(1-4)]
        have "\<forall>i\<in>set (?is b). \<not> insn_raises i"
          using l Some by (auto simp: block_links_ok_def next_block_def split: if_splits)
        then have e1: "env_exception (env m1) = EXCP_NONE"
          using exec_list_quiet [OF Inr] Suc.prems(4) by simp
        have t: "t < length (trans_blocks cc) \<and> blk_pc (?blk t) = env_pc (env m1)"
          using next_block_pc [OF l leaves [OF e1] Some] .
        have step: "block_exec cc b m = block_exec cc t m1"
          using Inr Some by (subst unfold) simp
        consider (stop) e where "block_exec cc t m1 = Some (Inl e)" "r = Inl e"
          | (go) m' p n' where "block_exec cc t m1 = Some (Inr (m', p))" "n' \<le> n" "ref_exec n' m' = Some r"
              "machine_frame m1 m'" "set (ref_starts n' m') \<subseteq> set (ref_starts (Suc n) m1)"
              "env_exception (env m') = EXCP_NONE \<longrightarrow> prev_ok cc (env_pc (env m')) (Some p)"
          using Suc.IH [OF cache_inv_frame [OF Suc.prems(1) frame] _ _ e1 r1] t by blast
        then show ?thesis
        proof cases
          case go
          have "machine_frame m m'" "set (ref_starts n' m') \<subseteq> set (ref_starts (Suc (Suc n)) m)"
            using frame go(4) machine_frame_trans sub go(5) by (blast, blast)
          with go show ?thesis
            unfolding step by (intro disjI2 exI [of _ m'] exI [of _ p] exI [of _ n']) simp
        qed (simp add: step)
      qed
    qed
  }
qed

definition agrees :: "machine result \<Rightarrow> (machine \<times> code_cache) result \<Rightarrow> bool" where
  "agrees r r' \<longleftrightarrow> r' = Inl (Segv Insn_buffer) \<or>
     (case r of Inl e \<Rightarrow> r' = Inl e
      | Inr m \<Rightarrow> (\<exists>cc. r' = Inr (m, cc) \<and> cache_inv m cc))"

text \<open>
  A cache with room for the addresses of \<open>V\<close>: behind the pointer the buffer holds a block of full length for each of
  them that has no block yet.
\<close>

definition roomy :: "u64 set \<Rightarrow> code_cache \<Rightarrow> bool" where
  "roomy V cc \<longleftrightarrow> finite V \<and>
     insn_buffer_ptr cc + TRANS_MAX * SIZEOF_INSN * card (V - blk_pc ` set (trans_blocks cc)) \<le> INSN_BUFFER_SIZE"

lemma roomy_grows:
  assumes "roomy V cc" and "grows pc cc cc'" and "pc \<in> V"
  shows "roomy V cc'"
proof (cases "cc' = cc")
  case False
  let ?W = "V - blk_pc ` set (trans_blocks cc)"
  from False assms(2) have g: "pc \<notin> blk_pc ` set (trans_blocks cc)"
    "map blk_pc (trans_blocks cc') = map blk_pc (trans_blocks cc) @ [pc]"
    "insn_buffer_ptr cc' \<le> insn_buffer_ptr cc + TRANS_MAX * SIZEOF_INSN"
    by (auto simp: grows_def)
  from arg_cong [OF g(2), of set] have new: "V - blk_pc ` set (trans_blocks cc') = ?W - {pc}" by auto
  have "finite ?W" "pc \<in> ?W" using assms(1,3) g(1) by (simp_all add: roomy_def)
  then have "card ?W = Suc (card (?W - {pc}))" by (rule card.remove)
  with assms(1) g(3) show ?thesis by (simp add: roomy_def new)
qed (use assms in simp)

lemma roomy_fits:
  assumes "roomy V cc" and "pc \<in> V" and "pc \<notin> set (map blk_pc (trans_blocks cc))" and "k \<le> TRANS_MAX"
  shows "insn_buffer_ptr cc + SIZEOF_INSN * k \<le> INSN_BUFFER_SIZE"
proof -
  let ?W = "V - blk_pc ` set (trans_blocks cc)"
  have "finite ?W" "pc \<in> ?W" using assms(1-3) by (simp_all add: roomy_def)
  then have "1 \<le> card ?W" by (metis One_nat_def Suc_leI card_gt_0_iff empty_iff)
  then have "TRANS_MAX * SIZEOF_INSN \<le> TRANS_MAX * SIZEOF_INSN * card ?W" by simp
  moreover have "SIZEOF_INSN * k \<le> TRANS_MAX * SIZEOF_INSN" using assms(4) by (simp add: mult.commute)
  ultimately show ?thesis using assms(1) by (simp only: roomy_def) linarith
qed

lemma roomy_link:
  assumes "roomy V cc" and "prev_ok cc pc prev"
  shows "roomy V (link_prev prev b cc)"
proof -
  have "map blk_pc (trans_blocks (link_prev prev b cc)) = map blk_pc (trans_blocks cc)"
    by (rule nth_equalityI) (simp_all add: link_prev_nth(1) [OF assms(2)])
  from arg_cong [OF this, of set] assms(1) show ?thesis by (simp add: roomy_def)
qed

text \<open>
  The result is that of the run without a cache; and when there is room for all starts of the run, the buffer is not
  exhausted and there is room afterwards.
\<close>

definition fits :: "u64 set \<Rightarrow> machine result \<Rightarrow> (machine \<times> code_cache) result \<Rightarrow> bool" where
  "fits V r r' \<longleftrightarrow> (case r' of Inl e \<Rightarrow> r = Inl e | Inr (m, cc) \<Rightarrow> roomy V cc)"

lemma cpu_exec_fits:
  assumes "cache_inv m cc" and "env_exception (env m) = EXCP_NONE \<longrightarrow> prev_ok cc (env_pc (env m)) prev"
    and "ref_exec n m = Some r"
  shows "\<exists>r'. cpu_exec prev cc m = Some r' \<and> agrees r r' \<and>
    (roomy V cc \<and> set (ref_starts n m) \<subseteq> V \<longrightarrow> fits V r r')"
  using assms
proof (induction n arbitrary: m cc prev rule: less_induct)
  case (less n)
  show ?case
  proof (cases "env_exception (env m) = EXCP_NONE")
    case False
    with less.prems show ?thesis
      by (cases n) (auto simp: cpu_exec.simps agrees_def fits_def)
  next
    case True
    obtain k where k: "n = Suc k" using less.prems(3) by (cases n) auto
    obtain "is" c where blk: "block_at m (env_pc (env m)) = Some (is, c)"
      using less.prems(3) True k by (auto split: option.splits)
    have start: "env_pc (env m) \<in> set (ref_starts n m)" using True k by simp
    from lookup_block_spec [OF less.prems(1) blk] show ?thesis
    proof
      assume full: "lookup_block m cc = Some (Inl (Segv Insn_buffer)) \<and>
        INSN_BUFFER_SIZE < insn_buffer_ptr cc + SIZEOF_INSN * length is \<and>
        env_pc (env m) \<notin> set (map blk_pc (trans_blocks cc))"
      have "length is \<le> TRANS_MAX"
        using fetch_block_length [OF blk [unfolded block_at_def]] by (simp add: start_ctx_def TRANS_MAX_def)
      then have "\<not> (roomy V cc \<and> set (ref_starts n m) \<subseteq> V)"
        using full roomy_fits [of V cc "env_pc (env m)" "length is"] start by auto
      moreover have "cpu_exec prev cc m = Some (Inl (Segv Insn_buffer))"
        using True full by (simp add: cpu_exec.simps [of prev])
      ultimately show ?thesis by (auto simp: agrees_def)
    next
      assume "\<exists>cc' b. lookup_block m cc = Some (Inr (cc', b)) \<and> cache_inv m cc' \<and> keeps cc cc' \<and>
        b < length (trans_blocks cc') \<and> blk_pc (trans_blocks cc' ! b) = env_pc (env m) \<and>
        block_insns cc' (trans_blocks cc' ! b) = is \<and> grows (env_pc (env m)) cc cc'"
      then obtain cc' b where l: "lookup_block m cc = Some (Inr (cc', b))" "cache_inv m cc'" "keeps cc cc'"
        "b < length (trans_blocks cc')" "blk_pc (trans_blocks cc' ! b) = env_pc (env m)"
        "grows (env_pc (env m)) cc cc'"
        by blast
      let ?cc = "link_prev prev b cc'"
      have p: "prev_ok cc' (env_pc (env m)) prev"
        using prev_ok_keeps [OF l(3)] less.prems(2) True by simp
      have inv: "cache_inv m ?cc" "b < length (trans_blocks ?cc)"
        "blk_pc (trans_blocks ?cc ! b) = env_pc (env m)"
        using link_prev_inv [OF l(2) p l(4,5)] l(4,5) by (simp_all add: link_prev_nth(1) [OF p])
      have room: "roomy V ?cc" if "roomy V cc \<and> set (ref_starts n m) \<subseteq> V"
        using that roomy_link [OF roomy_grows [OF _ l(6)] p] start by blast
      from block_exec_ref [OF inv True] less.prems(3) k
      consider (stop) e where "block_exec ?cc b m = Some (Inl e)" "r = Inl e"
        | (go) m' q n' where "block_exec ?cc b m = Some (Inr (m', q))" "n' \<le> k" "ref_exec n' m' = Some r"
            "machine_frame m m'" "set (ref_starts n' m') \<subseteq> set (ref_starts n m)"
            "env_exception (env m') = EXCP_NONE \<longrightarrow> prev_ok ?cc (env_pc (env m')) (Some q)"
        by blast
      then show ?thesis
      proof cases
        case stop
        with True l(1) show ?thesis by (simp add: cpu_exec.simps [of prev] agrees_def fits_def)
      next
        case go
        have "\<exists>r'. cpu_exec (Some q) ?cc m' = Some r' \<and> agrees r r' \<and>
            (roomy V ?cc \<and> set (ref_starts n' m') \<subseteq> V \<longrightarrow> fits V r r')"
          using less.IH [of n' m' ?cc "Some q"] go k cache_inv_frame [OF inv(1) go(4)] by simp
        with True l(1) go(1,5) room show ?thesis by (simp add: cpu_exec.simps [of prev]) blast
      qed
    qed
  qed
qed

lemma cpu_exec_ref:
  assumes "cache_inv m cc" and "env_exception (env m) = EXCP_NONE \<longrightarrow> prev_ok cc (env_pc (env m)) prev"
    and "ref_exec n m = Some r"
  shows "\<exists>r'. cpu_exec prev cc m = Some r' \<and> agrees r r'"
  using cpu_exec_fits [OF assms] by blast

end
