(* ===== verification/Isa_Step.thy ===== *)
theory Isa_Step
  imports Isa_Spec Exec_Refine
begin

text \<open>
  Instructions one at a time: \<open>isa_step\<close> fetches the instruction at the program counter, decodes it, runs
  it and moves the counter past it unless it moved it itself.  A block of the emulator is a run of
  such steps: the emulator leaves the counter alone until the last instruction, and no other
  instruction looks at it.
\<close>

section \<open>The counter is not read\<close>

definition with_pc :: "u64 \<Rightarrow> machine \<Rightarrow> machine" where
  "with_pc p m = m\<lparr>env := set_pc p (env m)\<rparr>"

lemma with_pc_sel [simp]:
  "mem (with_pc p m) = mem m" "guest_base (with_pc p m) = guest_base m"
  "reg (env (with_pc p m)) r = reg (env m) r" "gpr (env (with_pc p m)) = gpr (env m)"
  "env_pc (env (with_pc p m)) = p" "env_exception (env (with_pc p m)) = env_exception (env m)"
  by (simp_all add: with_pc_def reg_simps)

lemma with_pc_twice [simp]: "with_pc p (with_pc q m) = with_pc p m"
  by (simp add: with_pc_def set_pc_def)

lemma with_pc_same [simp]: "with_pc (env_pc (env m)) m = m"
  by (simp add: with_pc_def set_pc_def)

lemma set_pc_set_reg: "set_reg r v (set_pc p e) = set_pc p (set_reg r v e)"
  by (simp add: set_pc_def set_reg_def)

lemma with_pc_update:
  "(with_pc p m)\<lparr>env := set_reg r v (env (with_pc p m))\<rparr> = with_pc p (m\<lparr>env := set_reg r v (env m)\<rparr>)"
  "(with_pc p m)\<lparr>mem := hm\<rparr> = with_pc p (m\<lparr>mem := hm\<rparr>)"
  "(with_pc p (m\<lparr>mem := hm\<rparr>))\<lparr>env := set_reg r v (env (with_pc p m))\<rparr> =
     with_pc p (m\<lparr>mem := hm, env := set_reg r v (env m)\<rparr>)"
  by (simp_all add: with_pc_def set_pc_set_reg)

lemma csr_set_pc:
  "read_csr (set_pc p e) c = read_csr e c"
  "write_csr (set_pc p e) c v = map_option (set_pc p) (write_csr e c v)"
  by (simp_all add: read_csr_def write_csr_def set_pc_def)

lemma rmw_csr_set_pc:
  "rmw_csr (set_pc p e) c v k = map_option (map_prod id (set_pc p)) (rmw_csr e c v k)"
  by (simp add: rmw_csr_def csr_set_pc Let_def split: option.split)

lemma reg_set_pc [simp]: "reg (set_pc p e) r = reg e r"
  by (simp add: reg_simps)

lemma run_csr_set_pc:
  assumes "csr_known (csr i)"
  shows "run_csr h i (set_pc p e) = set_pc p (run_csr h i e)"
proof -
  have "csr_to_rd i (set_pc p e) (rmw_csr (set_pc p e) (csr i) v k)
      = set_pc p (csr_to_rd i e (rmw_csr e (csr i) v k))" for v k
    using assms rmw_csr_known [of e "csr i" v k]
    by (auto simp: csr_to_rd_def rmw_csr_set_pc set_pc_set_reg split: option.split)
  then show ?thesis by (cases h) (simp_all add: do_csr_defs)
qed

lemma on_env_with_pc:
  "f (set_pc p (env m)) = set_pc p (f (env m)) \<Longrightarrow>
    on_env f (with_pc p m) = map_sum id (with_pc p) (on_env f m)"
  by (simp add: on_env_def with_pc_def)

lemma run_insn_with_pc:
  assumes "straight i" and "\<not> insn_raises i"
  shows "run_insn i (with_pc p m) = map_sum id (with_pc p) (run_insn i m)"
proof (cases "insn_handler i")
  case (H_r h)
  then show ?thesis
    by (simp add: run_insn_def on_env_result_def run_r_exact with_pc_update)
next
  case (H_i h)
  then show ?thesis
    by (cases "is_load h")
      (simp_all add: run_insn_def run_i_exact run_load_exact eff_addr_def with_pc_update split: option.split)
next
  case (H_s h)
  then show ?thesis
    by (simp add: run_insn_def run_store_exact eff_addr_def with_pc_update split: option.split)
next
  case (H_atom h)
  then show ?thesis
  proof (cases "is_amo h")
    case True
    with H_atom show ?thesis
      by (simp add: run_insn_def run_amo_exact Let_def with_pc_update split: option.split)
  next
    case False
    with H_atom show ?thesis
      by (auto simp: is_amo_def run_insn_def do_lr_w_def do_lr_d_def do_sc_w_def do_sc_d_def load_rd_def
          store_to_def bind_result_def of_access_def with_pc_update split: option.split)
  qed
next
  case (H_csr h)
  with assms(2) have "csr_known (csr i)" by (simp add: insn_raises_def)
  with H_csr show ?thesis
    by (simp add: run_insn_def on_env_with_pc run_csr_set_pc)
qed (use assms in \<open>simp_all add: run_insn_def straight_def do_empty_def do_auipc_def do_lui_def
      on_env_with_pc set_pc_set_reg\<close>)

text \<open>The instruction that ends a block sets the counter whatever it was.\<close>

lemma run_insn_end_with_pc:
  assumes "\<not> straight i"
  shows "run_insn i (with_pc p m) = run_insn i m"
proof -
  have set_pc_set_reg_if: "set_pc q (set_reg r v (set_pc p e)) = set_pc q (set_reg r v e)"
    "set_pc q (set_pc p e) = set_pc q e" for q r v e
    by (simp_all add: set_pc_def set_reg_def)
  have upd: "(with_pc p m)\<lparr>env := e\<rparr> = m\<lparr>env := e\<rparr>" for e by (simp add: with_pc_def)
  have env: "env (with_pc p m) = set_pc p (env m)" by (simp add: with_pc_def)
  show ?thesis
  proof (cases "insn_handler i")
    case (H_jump h)
    have "reg (set_reg r v (set_pc p e)) r' = reg (set_reg r v e) r'" for r v e r'
      by (simp add: reg_def set_reg_def set_pc_def)
    with H_jump show ?thesis
      by (cases h) (simp_all add: run_insn_def on_env_def upd env do_jal_def do_jalr_def do_c_jal_def
          do_c_jalr_def Let_def set_pc_set_reg_if)
  next
    case (H_b h)
    then show ?thesis
      by (simp add: run_insn_def on_env_def upd env run_b_exact set_pc_set_reg_if)
  qed (use assms in \<open>auto simp: straight_def run_insn_def on_env_def upd env do_illegal_def do_ecall_def
        set_pc_def\<close>)
qed

section \<open>One instruction at a time\<close>

definition isa_step :: "machine \<Rightarrow> machine result option" where
  "isa_step m =
    (let pc = env_pc (env m) in
     case fixed_code (mem m) (guest_base m) pc of
       None \<Rightarrow> None
     | Some opcode \<Rightarrow>
         (let (c, i) = decode_one (start_ctx pc) zero_insn opcode
          in Some (bind_result (run_insn i m) (\<lambda>m.
               if gpr (env m) ! 0 \<noteq> 0 then Inl Assert_failed
               else Inr (if straight i then with_pc (pc + of_nat (insn_len opcode)) m else m)))))"

fun isa_exec :: "nat \<Rightarrow> machine \<Rightarrow> machine result option" where
  "isa_exec 0 m = None"
| "isa_exec (Suc n) m =
    (if env_exception (env m) \<noteq> EXCP_NONE then Some (Inr m)
     else (case isa_step m of
         None \<Rightarrow> None
       | Some (Inl e) \<Rightarrow> Some (Inl e)
       | Some (Inr m) \<Rightarrow> isa_exec n m))"

text \<open>
  The blocks for which the two agree: the block was not cut at \<open>TRANS_MAX\<close>, and only its last
  instruction can raise an exception.
\<close>

definition clean_block :: "insn_t list \<Rightarrow> bool" where
  "clean_block is \<longleftrightarrow> \<not> straight (last is) \<and> (\<forall>i\<in>set is. straight i \<longrightarrow> \<not> insn_raises i)"

fun clean_exec :: "nat \<Rightarrow> machine \<Rightarrow> machine result option" where
  "clean_exec 0 m = None"
| "clean_exec (Suc n) m =
    (if env_exception (env m) \<noteq> EXCP_NONE then Some (Inr m)
     else (case block_at m (env_pc (env m)) of
         None \<Rightarrow> None
       | Some (is, c) \<Rightarrow>
           if \<not> clean_block is then None
           else (case exec_list is m of
              Inl e \<Rightarrow> Some (Inl e)
            | Inr m \<Rightarrow> clean_exec n m)))"

lemma clean_exec_ref: "clean_exec n m = Some r \<Longrightarrow> ref_exec n m = Some r"
  by (induction n arbitrary: m) (auto split: if_splits option.splits sum.splits)

lemma block_isa_exec:
  assumes "fetch_block (fixed_code (mem m) (guest_base m)) (start_ctx pc) n = Some (is, c)"
    and "clean_block is" and "env_exception (env m) = EXCP_NONE"
  shows "isa_exec (length is + k) (with_pc pc m) =
    (case exec_list is m of Inl e \<Rightarrow> Some (Inl e) | Inr m' \<Rightarrow> isa_exec k m')"
  using assms
proof (induction "is" arbitrary: m pc n)
  case Nil
  then show ?case using fetch_block_shape by (force simp: start_ctx_def)
next
  case (Cons i "is")
  have nex: "\<not> tc_exit (start_ctx pc)" by (simp add: start_ctx_def)
  have pcs: "tc_pc (start_ctx pc) = pc" by (simp add: start_ctx_def)
  from Cons.prems(1) nex show ?case
  proof (cases rule: fetch_block_cases)
    case (last opcode i')
    then have i: "i' = i" "is = []" by auto
    have step: "isa_step (with_pc pc m) = Some (bind_result (run_insn i m) (\<lambda>m.
        if gpr (env m) ! 0 \<noteq> 0 then Inl Assert_failed else Inr m))"
      using last i by (simp add: isa_step_def pcs run_insn_end_with_pc cong: if_cong)
    show ?thesis
      using Cons.prems(3) i by (simp add: step bind_result_def split: sum.split)
  next
    case (full opcode i')
    with Cons.prems(2) show ?thesis by (auto simp: clean_block_def)
  next
    case (more opcode i' is')
    then have i: "i' = i" "is' = is" by auto
    let ?pc = "pc + of_nat (insn_len opcode)"
    have ctx: "(start_ctx pc)\<lparr>tc_pc := ?pc\<rparr> = start_ctx ?pc" by (simp add: start_ctx_def)
    have ne: "is \<noteq> []" using fetch_block_shape [OF more(6)] nex i by (simp add: start_ctx_def)
    have quiet: "\<not> insn_raises i" using Cons.prems(2) more(4) i by (simp add: clean_block_def)
    have clean: "clean_block is" using Cons.prems(2) ne by (simp add: clean_block_def)
    have step: "isa_step (with_pc pc m) = Some (bind_result (run_insn i m) (\<lambda>m.
        if gpr (env m) ! 0 \<noteq> 0 then Inl Assert_failed else Inr (with_pc ?pc m)))"
    proof -
      have run: "run_insn i (with_pc pc m) = map_sum id (with_pc pc) (run_insn i m)"
        using run_insn_with_pc quiet more(4) i by simp
      show ?thesis
        using more(1,2,4) unfolding isa_step_def pcs i(1)
        by (cases "run_insn i m") (simp_all add: run cong: if_cong)
    qed
    show ?thesis
    proof (cases "run_insn i m")
      case (Inl e)
      with step Cons.prems(3) show ?thesis by simp
    next
      case (Inr m1)
      show ?thesis
      proof (cases "gpr (env m1) ! 0 = 0")
        case False
        with step Inr Cons.prems(3) show ?thesis by simp
      next
        case True
        have e1: "env_exception (env m1) = EXCP_NONE"
          using run_insn_straight [OF Inr quiet] straight_not_jump more i Cons.prems(3) by simp
        have "fetch_block (fixed_code (mem m1) (guest_base m1)) (start_ctx ?pc) (n + 1) = Some (is, c)"
          using more(6) i ctx fixed_code_frame [OF run_insn_frame [OF Inr]] by (simp add: pcs)
        from Cons.IH [OF this clean e1] step Inr True Cons.prems(3) show ?thesis by simp
      qed
    qed
  qed
qed

lemma clean_exec_isa:
  "clean_exec n m = Some r \<Longrightarrow> \<exists>k. isa_exec k m = Some r"
proof (induction n arbitrary: m)
  case (Suc n)
  show ?case
  proof (cases "env_exception (env m) = EXCP_NONE")
    case False
    with Suc.prems show ?thesis by (intro exI [of _ 1]) simp
  next
    case True
    with Suc.prems obtain "is" c where b: "block_at m (env_pc (env m)) = Some (is, c)" "clean_block is"
      by (auto split: option.splits if_splits)
    note steps = block_isa_exec [OF b(1) [unfolded block_at_def] b(2) True, simplified]
    show ?thesis
    proof (cases "exec_list is m")
      case (Inl e)
      with Suc.prems True b have "r = Inl e" by simp
      with steps [of 0] Inl show ?thesis by auto
    next
      case (Inr m')
      with Suc.prems True b have "clean_exec n m' = Some r" by simp
      with Suc.IH obtain k where "isa_exec k m' = Some r" by blast
      with steps [of k] Inr show ?thesis by auto
    qed
  qed
qed simp

text \<open>More fuel changes nothing, so the result of the specification is unique.\<close>

lemma isa_exec_mono: "isa_exec k m = Some r \<Longrightarrow> k \<le> k' \<Longrightarrow> isa_exec k' m = Some r"
proof (induction k arbitrary: m k')
  case (Suc k)
  then obtain j where "k' = Suc j" "k \<le> j" by (cases k') auto
  with Suc show ?case by (auto split: if_splits option.splits sum.splits)
qed simp

end
