(* ===== verification/Rv64_Arch.thy ===== *)
theory Rv64_Arch
  imports Rv32_Spec Isa_Step
begin

text \<open>
  A reference machine for RV64IMAC and Zicsr in user mode that owes nothing to the program: instructions as a datatype,
  decoded by the tables of \<open>Rv32_Spec\<close> and \<open>Rvc_Spec\<close>, with the effects of \<open>Isa_Spec\<close> on registers of which \<open>x0\<close> reads
  zero and cannot be written.  One step of the emulator is one step of it, except for the departures listed in
  \<open>departs\<close>.  Where the manual leaves a choice, the machine has made it as follows: plain loads and stores may be
  misaligned, atomic instructions may not and raise the misaligned exceptions; a reservation covers the bytes of its
  load-reserved, is lost in every trap, and a store-conditional succeeds if it stores to just these bytes; there is one hart.  There
  is no control register: the floating-point and vector ones come with extensions that RV64IMAC does not
  have, so that every CSR instruction is illegal.
\<close>

section \<open>Instructions\<close>

text \<open>The operands: destination, sources, immediate.\<close>

datatype rv_insn =
    Rv_alu r_handler c_int c_int c_int
  | Rv_alu_imm i_handler c_int c_int int
  | Rv_load i_handler c_int c_int int
  | Rv_store s_handler c_int c_int int
  | Rv_branch b_handler c_int c_int int
  | Rv_lui c_int int | Rv_auipc c_int int | Rv_jal c_int int | Rv_jalr c_int c_int int
  | Rv_csr csr_handler c_int c_int c_int
  | Rv_lr nat c_int c_int | Rv_sc nat c_int c_int c_int | Rv_amo atom_handler c_int c_int c_int
  | Rv_fence | Rv_ecall | Rv_ebreak | Rv_reserved

fun rv32_arch :: "u32 \<Rightarrow> rv_format \<Rightarrow> rv_insn" where
  "rv32_arch op (As_r h) = Rv_alu h (rv_field op 7 5) (rv_field op 15 5) (rv_field op 20 5)"
| "rv32_arch op (As_i h) = (if is_load h then Rv_load else Rv_alu_imm) h (rv_field op 7 5) (rv_field op 15 5) (sint (imm_i op))"
| "rv32_arch op (As_s h) = Rv_store h (rv_field op 15 5) (rv_field op 20 5) (sint (imm_s op))"
| "rv32_arch op (As_b h) = Rv_branch h (rv_field op 15 5) (rv_field op 20 5) (sint (imm_b op))"
| "rv32_arch op As_lui = Rv_lui (rv_field op 7 5) (sint (imm_u op))"
| "rv32_arch op As_auipc = Rv_auipc (rv_field op 7 5) (sint (imm_u op))"
| "rv32_arch op As_jal = Rv_jal (rv_field op 7 5) (sint (imm_j op))"
| "rv32_arch op As_jalr = Rv_jalr (rv_field op 7 5) (rv_field op 15 5) (sint (imm_i op))"
| "rv32_arch op (As_csr h) = Rv_csr h (rv_field op 7 5) (rv_field op 15 5) (rv_field op 20 12)"
| "rv32_arch op (As_lr h) = Rv_lr (amo_width h) (rv_field op 7 5) (rv_field op 15 5)"
| "rv32_arch op (As_amo h) = (if h = Do_sc_w \<or> h = Do_sc_d then Rv_sc (amo_width h) else Rv_amo h)
     (rv_field op 7 5) (rv_field op 15 5) (rv_field op 20 5)"
| "rv32_arch op As_fence = Rv_fence"
| "rv32_arch op As_ecall = Rv_ecall"

text \<open>
  A compressed instruction stands for an instruction of the base set; the row with the empty handler is \<open>c.nop\<close>.
\<close>

definition rvc_arch :: "u16 \<Rightarrow> rvc_row \<Rightarrow> rv_insn" where
  "rvc_arch op r =
    (if r = Ebreak then Rv_ebreak else let d = rvc_reg (row_rd r) op; a = rvc_reg (row_rs1 r) op; b = rvc_reg (row_rs2 r) op;
         k = sint (rvc_imm (row_imm r) op) in
     case row_handler r of
       H_r h \<Rightarrow> Rv_alu h d a b
     | H_i h \<Rightarrow> (if is_load h then Rv_load else Rv_alu_imm) h d a k
     | H_s h \<Rightarrow> Rv_store h a b k
     | H_b h \<Rightarrow> Rv_branch (if h = Do_c_beq then Do_beq else Do_bne) a b k
     | H_jump h \<Rightarrow> if h = Do_c_jal then Rv_jal d k else Rv_jalr d a k
     | Do_lui \<Rightarrow> Rv_lui d k
     | Do_empty \<Rightarrow> Rv_alu_imm Do_addi 0 0 k
     | _ \<Rightarrow> Rv_reserved)"

definition rv_decode :: "u32 \<Rightarrow> rv_insn" where
  "rv_decode op =
    (if insn_len op = 4 then
       (if op = 0x00100073 then Rv_ebreak
        else case rv32_lookup op of None \<Rightarrow> Rv_reserved | Some f \<Rightarrow> rv32_arch op f)
     else
       (case rvc_lookup (ucast op) of None \<Rightarrow> Rv_reserved
        | Some r \<Rightarrow> if rvc_reserved (ucast op) then Rv_reserved else rvc_arch (ucast op) r))"

section \<open>Effects\<close>

definition xreg :: "state_t \<Rightarrow> c_int \<Rightarrow> u64" where
  "xreg e r = (if r = 0 then 0 else reg e r)"

definition set_x :: "c_int \<Rightarrow> u64 \<Rightarrow> state_t \<Rightarrow> state_t" where
  "set_x r v e = (if r = 0 then e else set_reg r v e)"

definition guest_read :: "machine \<Rightarrow> u64 \<Rightarrow> nat \<Rightarrow> u64 option" where
  "guest_read m a n = host_load (mem m) (g2h (guest_base m) a) n"

definition guest_write :: "machine \<Rightarrow> u64 \<Rightarrow> nat \<Rightarrow> u64 \<Rightarrow> machine result" where
  "guest_write m a n v =
    (case host_store (mem m) (g2h (guest_base m) a) n v of
       None \<Rightarrow> Inl (Segv Guest_access) | Some h \<Rightarrow> Inr (m\<lparr>mem := h\<rparr>))"

text \<open>The end of an instruction of \<open>n\<close> bytes: \<open>rd\<close> is written and the counter moves on, to the next instruction or to \<open>q\<close>.\<close>

definition retire :: "u64 \<Rightarrow> c_int \<Rightarrow> u64 \<Rightarrow> machine \<Rightarrow> machine" where
  "retire q d v m = m\<lparr>env := set_pc q (set_x d v (env m))\<rparr>"

definition raise_exc :: "excp \<Rightarrow> machine \<Rightarrow> machine" where
  "raise_exc x m = m\<lparr>env := (env m)\<lparr>env_exception := x\<rparr>\<rparr>"

text \<open>The low bytes of a loaded value, with their sign.\<close>

definition sign_ext :: "nat \<Rightarrow> u64 \<Rightarrow> u64" where
  "sign_ext n v = word_of_int (if n = 4 then sx32 (uint v) else uint v)"

text \<open>The reservation of the hart: the address and the number of the bytes that the last load-reserved has read.\<close>

type_synonym reservation = "(u64 \<times> nat) option"

definition aligned :: "u64 \<Rightarrow> nat \<Rightarrow> bool" where
  "aligned a w \<longleftrightarrow> unat a mod w = 0"

fun rv_exec :: "reservation \<Rightarrow> u64 \<Rightarrow> rv_insn \<Rightarrow> machine \<Rightarrow> machine result" where
  "rv_exec v n (Rv_alu h d a b) m = (let e = env m in
     Inr (retire (env_pc e + n) d (word_of_int (r_spec h (xreg e a) (xreg e b))) m))"
| "rv_exec v n (Rv_alu_imm h d a k) m = (let e = env m in
     Inr (retire (env_pc e + n) d (word_of_int (i_spec h (xreg e a) k)) m))"
| "rv_exec v n (Rv_load h d a k) m = (let e = env m in
     case guest_read m (xreg e a + word_of_int k) (load_width h) of
       None \<Rightarrow> Inl (Segv Guest_access)
     | Some x \<Rightarrow> Inr (retire (env_pc e + n) d (word_of_int (load_spec h x)) m))"
| "rv_exec v n (Rv_store h a b k) m = (let e = env m in
     bind_result (guest_write m (xreg e a + word_of_int k) (store_width h) (xreg e b))
       (\<lambda>m. Inr (retire (env_pc e + n) 0 0 m)))"
| "rv_exec v n (Rv_branch h a b k) m = (let e = env m in
     Inr (retire (env_pc e + (if branch_taken h (xreg e a) (xreg e b) then word_of_int k else n)) 0 0 m))"
| "rv_exec v n (Rv_lui d k) m = Inr (retire (env_pc (env m) + n) d (word_of_int k) m)"
| "rv_exec v n (Rv_auipc d k) m = (let e = env m in
     Inr (retire (env_pc e + n) d (env_pc e + word_of_int k) m))"
| "rv_exec v n (Rv_jal d k) m = (let e = env m in
     Inr (retire (env_pc e + word_of_int k) d (env_pc e + n) m))"
| "rv_exec v n (Rv_jalr d a k) m = (let e = env m in
     Inr (retire ((xreg e a + word_of_int k) AND - 2) d (env_pc e + n) m))"
| "rv_exec v n (Rv_csr h d s c) m = Inr (raise_exc ILLEGAL_INST m)"
| "rv_exec v n (Rv_lr w d a) m = (let e = env m in
     if \<not> aligned (xreg e a) w then Inr (raise_exc LOAD_ADDR_MIS m)
     else case guest_read m (xreg e a) w of
       None \<Rightarrow> Inl (Segv Guest_access)
     | Some x \<Rightarrow> Inr (retire (env_pc e + n) d (sign_ext w x) m))"
| "rv_exec v n (Rv_sc w d a b) m = (let e = env m in
     if \<not> aligned (xreg e a) w then Inr (raise_exc STORE_AMO_ADDR_MIS m)
     else if v = Some (xreg e a, w)
     then bind_result (guest_write m (xreg e a) w (xreg e b)) (\<lambda>m. Inr (retire (env_pc e + n) d 0 m))
     else Inr (retire (env_pc e + n) d 1 m))"
| "rv_exec v n (Rv_amo h d a b) m = (let e = env m; w = amo_width h in
     if \<not> aligned (xreg e a) w then Inr (raise_exc STORE_AMO_ADDR_MIS m)
     else case guest_read m (xreg e a) w of
       None \<Rightarrow> Inl (Segv Guest_access)
     | Some x \<Rightarrow> bind_result (guest_write m (xreg e a) w (amo_spec h x (xreg e b)))
         (\<lambda>m. Inr (retire (env_pc e + n) d (sign_ext w x) m)))"
| "rv_exec v n Rv_fence m = Inr (retire (env_pc (env m) + n) 0 0 m)"
| "rv_exec v n Rv_ecall m = Inr (raise_exc U_ECALL m)"
| "rv_exec v n Rv_ebreak m = Inr (raise_exc BREAKPOINT m)"
| "rv_exec v n Rv_reserved m = Inr (raise_exc ILLEGAL_INST m)"

text \<open>The reservation after an instruction.\<close>

fun rv_reserve :: "reservation \<Rightarrow> rv_insn \<Rightarrow> machine \<Rightarrow> reservation" where
  "rv_reserve v (Rv_lr w d a) m = Some (xreg (env m) a, w)"
| "rv_reserve v (Rv_sc w d a b) m = None"
| "rv_reserve v _ m = v"

section \<open>Departures\<close>

text \<open>
  Where the program does something else, from the operands: a division the host cannot do, a 32-bit result with bit 31 set that
  is extended with zeros, a load to \<open>x0\<close> that faults, \<open>jalr\<close> over its own link, a value other than zero written to \<open>x0\<close> by an
  instruction that does not check for it, a misaligned atomic access, a store-conditional without its reservation, a
  CSR instruction and \<open>ebreak\<close>.
\<close>

fun insn_departs :: "reservation \<Rightarrow> u64 \<Rightarrow> rv_insn \<Rightarrow> machine \<Rightarrow> bool" where
  "insn_departs v n (Rv_alu h d a b) m = (let e = env m in
     d \<noteq> 0 \<and> (host_traps h (xreg e a) (xreg e b) \<or>
       zero_extended h \<and> bit (r_spec h (xreg e a) (xreg e b)) 31))"
| "insn_departs v n (Rv_alu_imm h d a k) m = (d \<noteq> 0 \<and> zero_extended_i h \<and> bit (i_spec h (xreg (env m) a) k) 31)"
| "insn_departs v n (Rv_load h d a k) m =
     (d = 0 \<and> guest_read m (xreg (env m) a + word_of_int k) (load_width h) = None)"
| "insn_departs v n (Rv_jalr d a k) m = (let e = env m in
     d \<noteq> 0 \<and> d = a \<and> (xreg e a + word_of_int k) AND - 2 \<noteq> (env_pc e + n + word_of_int k) AND - 2)"
| "insn_departs v n (Rv_lui d k) m = (d = 0 \<and> (word_of_int k :: u64) \<noteq> 0)"
| "insn_departs v n (Rv_auipc d k) m = (d = 0 \<and> env_pc (env m) + word_of_int k \<noteq> 0)"
| "insn_departs v n (Rv_csr h d s c) m = True"
| "insn_departs v n (Rv_lr w d a) m = (let e = env m in
     \<not> aligned (xreg e a) w \<or>
     d = 0 \<and> (case guest_read m (xreg e a) w of None \<Rightarrow> False | Some x \<Rightarrow> sign_ext w x \<noteq> 0))"
| "insn_departs v n (Rv_sc w d a b) m = (let e = env m in
     \<not> aligned (xreg e a) w \<or>
     v \<noteq> Some (xreg e a, w) \<and> (d \<noteq> 0 \<or> guest_write m (xreg e a) w (xreg e b) \<noteq> Inr m))"
| "insn_departs v n (Rv_amo h d a b) m = (let e = env m; w = amo_width h in
     \<not> aligned (xreg e a) w \<or>
     d = 0 \<and> (case guest_read m (xreg e a) w of None \<Rightarrow> False
       | Some x \<Rightarrow> sign_ext w x \<noteq> 0 \<and> \<not> isl (guest_write m (xreg e a) w (amo_spec h x (xreg e b)))))"
| "insn_departs v n Rv_ebreak m = True"
| "insn_departs v n _ m = False"

text \<open>
  And from the opcode: the SYSTEM instructions that are taken for \<open>ecall\<close>, the compressed hints, and \<open>c.addi16sp\<close> by zero.
\<close>

definition opcode_departs :: "u32 \<Rightarrow> bool" where
  "opcode_departs op =
    (if insn_len op = 4 then op AND 0x707f = 0x73 \<and> op \<noteq> 0x73
     else rvc_addi16sp_0 (ucast op) \<or> rvc_hint (ucast op) \<and> \<not> rvc_reserved (ucast op))"

definition departs :: "reservation \<Rightarrow> u32 \<Rightarrow> machine \<Rightarrow> bool" where
  "departs v op m \<longleftrightarrow> opcode_departs op \<or> insn_departs v (of_nat (insn_len op)) (rv_decode op) m"

text \<open>One step: the outcome, and the reservation behind it.\<close>

definition rv_step :: "reservation \<Rightarrow> machine \<Rightarrow> (machine result \<times> reservation) option" where
  "rv_step v m =
    (case fixed_code (mem m) (guest_base m) (env_pc (env m)) of
       None \<Rightarrow> None
     | Some op \<Rightarrow> Some (rv_exec v (of_nat (insn_len op)) (rv_decode op) m, rv_reserve v (rv_decode op) m))"

section \<open>Runs\<close>

fun rv_run :: "nat \<Rightarrow> reservation \<Rightarrow> machine \<Rightarrow> machine result option" where
  "rv_run 0 v m = None"
| "rv_run (Suc n) v m =
    (if env_exception (env m) \<noteq> EXCP_NONE then Some (Inr m)
     else (case rv_step v m of
         None \<Rightarrow> None
       | Some (Inl e, v) \<Rightarrow> Some (Inl e)
       | Some (Inr m, v) \<Rightarrow> rv_run n v m))"

text \<open>The instructions after which a block ends.\<close>

fun ends_run :: "rv_insn \<Rightarrow> bool" where
  "ends_run (Rv_branch h a b k) = True"
| "ends_run (Rv_jal d k) = True"
| "ends_run (Rv_jalr d a k) = True"
| "ends_run Rv_ecall = True"
| "ends_run Rv_ebreak = True"
| "ends_run Rv_reserved = True"
| "ends_run _ = False"

end
