(* ===== verification/Rv64_Insns.thy ===== *)
theory Rv64_Insns
  imports Rv64_Arch
begin

text \<open>
  The emulator's step is the reference machine's: for every kind of instruction, the handler with the assertion and the
  move of the counter behind it has the effect of the reference instruction.
\<close>

text \<open>A register file in which \<open>x0\<close> reads zero.\<close>

definition cpu_ok :: "machine \<Rightarrow> bool" where
  "cpu_ok m \<longleftrightarrow> length (gpr (env m)) = 32 \<and> gpr (env m) ! 0 = 0"

lemma cpu_ok_mem [simp]: "cpu_ok (m\<lparr>mem := h\<rparr>) = cpu_ok m"
  by (simp add: cpu_ok_def)

text \<open>The end of a step of the emulator: the assertion, and the counter of an instruction that does not set it.\<close>

definition finish :: "u64 \<Rightarrow> insn_t \<Rightarrow> machine \<Rightarrow> machine result" where
  "finish q i m = bind_result (run_insn i m)
     (\<lambda>m. if gpr (env m) ! 0 \<noteq> 0 then Inl Assert_failed
          else Inr (if straight i then with_pc q m else m))"

lemma isa_step_finish:
  assumes "fixed_code (mem m) (guest_base m) (env_pc (env m)) = Some op"
    and "i = snd (decode_one (start_ctx (env_pc (env m))) zero_insn op)"
  shows "isa_step m = Some (finish (env_pc (env m) + of_nat (insn_len op)) i m)"
  using assms by (simp add: isa_step_def finish_def Let_def case_prod_beta cong: if_cong)

section \<open>Registers\<close>

lemma reg_0: "cpu_ok m \<Longrightarrow> reg (env m) 0 = 0"
  by (simp add: cpu_ok_def reg_def)

lemma xreg_reg: "cpu_ok m \<Longrightarrow> xreg (env m) r = reg (env m) r"
  by (simp add: xreg_def reg_0)

lemma set_reg_x:
  assumes "gpr e ! 0 = 0" and "d \<noteq> 0 \<or> v = 0"
  shows "set_reg d v e = set_x d v e"
proof (cases "d = 0")
  case True
  with assms have "(gpr e)[0 := v] = gpr e" by (metis list_update_id)
  with True show ?thesis by (simp add: set_x_def set_reg_def)
qed (simp add: set_x_def)

lemma gpr_0_set_x: "gpr (set_x d v e) ! 0 = gpr e ! 0"
  by (simp add: set_x_def gpr_0_set_reg)

text \<open>An instruction that writes its result register and leaves the counter alone.\<close>

lemma finish_write:
  assumes "run_insn i m = Inr (m1\<lparr>env := set_reg d v (env m1)\<rparr>)" and "straight i"
    and "gpr (env m1) ! 0 = 0" and "d \<noteq> 0 \<or> v = 0"
  shows "finish q i m = Inr (retire q d v m1)"
  using assms by (simp add: finish_def retire_def set_reg_x gpr_0_set_x with_pc_def)

lemma finish_quiet:
  assumes "run_insn i m = Inr m1" and "straight i" and "gpr (env m1) ! 0 = 0"
  shows "finish q i m = Inr (retire q 0 v m1)"
  using assms by (simp add: finish_def retire_def set_x_def with_pc_def)

lemma finish_stop: "run_insn i m = Inl e \<Longrightarrow> finish q i m = Inl e"
  by (simp add: finish_def)

lemma sx32_pos:
  assumes "\<not> bit (sx32 k) 31"
  shows "take_bit 32 (word_of_int (sx32 k) :: u64) = word_of_int (sx32 k)"
  by (rule bit_word_eqI)
    (use assms in \<open>auto simp: bit_take_bit_iff bit_of_int_iff sx32_def bit_signed_take_bit_iff min_def\<close>)

lemma zero_extended_sx32:
  "zero_extended h \<Longrightarrow> \<exists>k. r_spec h a b = sx32 k" "zero_extended_i g \<Longrightarrow> \<exists>k. i_spec g a j = sx32 k"
proof -
  have "(if c then - 1 else sx32 x) = sx32 (if c then - 1 else x)"
    "(if c then sx32 y else sx32 x) = sx32 (if c then y else x)" for c x y
    by (simp_all add: sx32_def)
  then show "zero_extended h \<Longrightarrow> \<exists>k. r_spec h a b = sx32 k" "zero_extended_i g \<Longrightarrow> \<exists>k. i_spec g a j = sx32 k"
    by (cases h; auto simp: zero_extended_def simp del: if_split) (cases g; auto simp: zero_extended_i_def)
qed

lemma r_value_arch: "\<not> zero_extended h \<or> \<not> bit (r_spec h a b) 31 \<Longrightarrow> r_value h a b = word_of_int (r_spec h a b)"
  using zero_extended_sx32(1) [of h a b] by (auto simp: r_value_def Let_def sx32_pos)

lemma i_value_arch: "\<not> zero_extended_i h \<or> \<not> bit (i_spec h a k) 31 \<Longrightarrow> i_value h a k = word_of_int (i_spec h a k)"
  using zero_extended_sx32(2) [of h a k] by (auto simp: i_value_def Let_def sx32_pos)

section \<open>One kind of instruction at a time\<close>

lemma simm_arch: "simm i = word_of_int (sint (imm i))"
  by (rule simm_int)

lemma alu_arch:
  assumes "cpu_ok m" and "insn_handler i = H_r h" and "rd i \<noteq> 0"
    and "\<not> insn_departs v n (Rv_alu h (rd i) (rs1 i) (rs2 i)) m"
  shows "finish (env_pc (env m) + n) i m = rv_exec v n (Rv_alu h (rd i) (rs1 i) (rs2 i)) m"
proof -
  have "run_insn i m = Inr (m\<lparr>env := set_reg (rd i) (word_of_int (r_spec h (reg (env m) (rs1 i)) (reg (env m) (rs2 i)))) (env m)\<rparr>)"
    using assms by (auto simp: run_insn_def on_env_result_def run_r_exact xreg_reg r_value_arch Let_def)
  from finish_write [OF this] show ?thesis
    using assms by (simp add: straight_def cpu_ok_def xreg_reg [OF assms(1)] Let_def)
qed

lemma alu_imm_arch:
  assumes "cpu_ok m" and "insn_handler i = H_i h" and "rd i \<noteq> 0" and "\<not> is_load h"
    and "\<not> insn_departs v n (Rv_alu_imm h (rd i) (rs1 i) (sint (imm i))) m"
  shows "finish (env_pc (env m) + n) i m = rv_exec v n (Rv_alu_imm h (rd i) (rs1 i) (sint (imm i))) m"
proof -
  have "run_insn i m = Inr (m\<lparr>env := set_reg (rd i) (word_of_int (i_spec h (reg (env m) (rs1 i)) (sint (imm i)))) (env m)\<rparr>)"
    using assms by (auto simp: run_insn_def run_i_exact xreg_reg i_value_arch)
  from finish_write [OF this] show ?thesis
    using assms by (simp add: straight_def cpu_ok_def xreg_reg [OF assms(1)] Let_def)
qed

lemma load_arch:
  assumes "cpu_ok m" and "insn_handler i = H_i h" and "rd i \<noteq> 0" and "is_load h"
  shows "finish (env_pc (env m) + n) i m = rv_exec v n (Rv_load h (rd i) (rs1 i) (sint (imm i))) m"
proof (cases "host_load (mem m) (eff_addr i m) (load_width h)")
  case None
  then show ?thesis
    using assms by (simp add: finish_stop run_insn_def run_load_exact guest_read_def eff_addr_def simm_arch xreg_reg Let_def)
next
  case (Some v)
  then have "run_insn i m = Inr (m\<lparr>env := set_reg (rd i) (word_of_int (load_spec h v)) (env m)\<rparr>)"
    using assms by (simp add: run_insn_def run_load_exact)
  from finish_write [OF this] Some assms show ?thesis
    by (simp add: straight_def cpu_ok_def guest_read_def eff_addr_def simm_arch xreg_reg [OF assms(1)] Let_def)
qed

text \<open>The empty instruction stands for a computation or a load without destination.\<close>

lemma empty_arch:
  assumes "cpu_ok m" and "insn_handler i = Do_empty"
  shows "finish q i m = Inr (retire q 0 v m)"
  by (rule finish_quiet) (use assms in \<open>simp_all add: run_insn_def on_env_def do_empty_def straight_def cpu_ok_def\<close>)

lemma store_arch:
  assumes "cpu_ok m" and "insn_handler i = H_s h"
  shows "finish (env_pc (env m) + n) i m = rv_exec v n (Rv_store h (rs1 i) (rs2 i) (sint (imm i))) m"
proof (cases "host_store (mem m) (eff_addr i m) (store_width h) (reg (env m) (rs2 i))")
  case None
  then show ?thesis
    using assms by (simp add: finish_stop run_insn_def run_store_exact guest_write_def eff_addr_def simm_arch xreg_reg Let_def)
next
  case (Some v)
  then have "run_insn i m = Inr (m\<lparr>mem := v\<rparr>)"
    using assms by (simp add: run_insn_def run_store_exact)
  from finish_quiet [OF this] Some assms show ?thesis
    by (simp add: straight_def cpu_ok_def guest_write_def eff_addr_def simm_arch xreg_reg [OF assms(1)] Let_def)
qed

lemma branch_arch:
  assumes "cpu_ok m" and "insn_handler i = H_b h" and "insn_pc i = env_pc (env m)" and "b_len h = n"
    and "branch_taken g = branch_taken h"
  shows "finish q i m = rv_exec v n (Rv_branch g (rs1 i) (rs2 i) (sint (imm i))) m"
  using assms by (simp add: finish_def run_insn_def on_env_def run_b_exact straight_def retire_def set_x_def
      cpu_ok_def xreg_reg [OF assms(1)] simm_arch Let_def reg_simps)

lemma lui_arch:
  assumes "cpu_ok m" and "insn_handler i = Do_lui" and "\<not> insn_departs v n (Rv_lui (rd i) (sint (imm i))) m"
  shows "finish (env_pc (env m) + n) i m = rv_exec v n (Rv_lui (rd i) (sint (imm i))) m"
proof -
  have "run_insn i m = Inr (m\<lparr>env := set_reg (rd i) (word_of_int (sint (imm i))) (env m)\<rparr>)"
    using assms by (simp add: run_insn_def on_env_def do_lui_def simm_arch del: of_int_sint)
  from finish_write [OF this] assms show ?thesis by (simp add: straight_def cpu_ok_def del: of_int_sint)
qed

lemma auipc_arch:
  assumes "cpu_ok m" and "insn_handler i = Do_auipc" and "insn_pc i = env_pc (env m)"
    and "\<not> insn_departs v n (Rv_auipc (rd i) (sint (imm i))) m"
  shows "finish (env_pc (env m) + n) i m = rv_exec v n (Rv_auipc (rd i) (sint (imm i))) m"
proof -
  have "run_insn i m = Inr (m\<lparr>env := set_reg (rd i) (env_pc (env m) + word_of_int (sint (imm i))) (env m)\<rparr>)"
    using assms by (simp add: run_insn_def on_env_def do_auipc_def simm_arch del: of_int_sint)
  from finish_write [OF this] assms show ?thesis by (simp add: straight_def cpu_ok_def Let_def del: of_int_sint)
qed

lemma jal_arch:
  assumes "cpu_ok m" and "insn_handler i = H_jump h" and "insn_pc i = env_pc (env m)"
    and "h = Do_jal \<and> n = 4 \<or> h = Do_c_jal \<and> n = 2"
  shows "finish q i m = rv_exec v n (Rv_jal (rd i) (sint (imm i))) m"
proof -
  have "run_insn i m = Inr (m\<lparr>env := set_pc (env_pc (env m) + word_of_int (sint (imm i)))
      (set_x (rd i) (env_pc (env m) + n) (env m))\<rparr>)"
    using assms(2-4) by (auto simp: run_insn_def on_env_def do_jal_def do_c_jal_def simm_arch set_x_def Let_def simp del: of_int_sint)
  then show ?thesis
    using assms(1,2) by (simp add: finish_def straight_def retire_def cpu_ok_def gpr_0_set_x reg_simps Let_def)
qed

lemma run_jalr:
  assumes "cpu_ok m" and "insn_handler i = H_jump h" and "insn_pc i = env_pc (env m)" and "regs_ok i"
    and "h = Do_jalr \<and> n = 4 \<or> h = Do_c_jalr \<and> n = 2"
  shows "run_insn i m = Inr (retire (((if rd i \<noteq> 0 \<and> rd i = rs1 i then env_pc (env m) + n else reg (env m) (rs1 i))
    + word_of_int (sint (imm i))) AND - 2) (rd i) (env_pc (env m) + n) m)"
proof -
  have len: "unat (rd i) < length (gpr (env m))"
    using assms(1,4) by (simp add: cpu_ok_def regs_ok_def)
  have r: "reg (set_reg (rd i) v (env m)) (rs1 i) = (if rd i = rs1 i then v else reg (env m) (rs1 i))" for v
    by (auto simp: reg_set_reg [OF len])
  show ?thesis
    using assms(2,3,5) r
    by (auto simp: run_insn_def on_env_def do_jalr_def do_c_jalr_def simm_arch set_x_def retire_def Let_def simp del: of_int_sint)
qed

lemma finish_jump:
  assumes "cpu_ok m" and "insn_handler i = H_jump h" and "run_insn i m = Inr (retire q' d v m)"
  shows "finish q i m = Inr (retire q' d v m)"
  using assms by (simp add: finish_def straight_def retire_def cpu_ok_def gpr_0_set_x reg_simps)

lemma jalr_arch:
  assumes "cpu_ok m" and "insn_handler i = H_jump h" and "insn_pc i = env_pc (env m)" and "regs_ok i"
    and "h = Do_jalr \<and> n = 4 \<or> h = Do_c_jalr \<and> n = 2"
    and "\<not> insn_departs v n (Rv_jalr (rd i) (rs1 i) (sint (imm i))) m"
  shows "finish q i m = rv_exec v n (Rv_jalr (rd i) (rs1 i) (sint (imm i))) m"
  using finish_jump [OF assms(1,2) run_jalr [OF assms(1-5)]] assms(6)
  by (auto simp: xreg_reg [OF assms(1)] Let_def)

lemma atom_read:
  "cpu_ok m \<Longrightarrow> guest_read m (xreg (env m) r) n = host_load (mem m) (g2h (guest_base m) (reg (env m) r)) n"
  by (simp add: guest_read_def xreg_reg)

lemma sign_ext_w: "(scast (ucast v :: u32) :: u64) = sign_ext 4 v" "sign_ext 8 v = v"
proof -
  have "(scast (ucast v :: u32) :: u64) = word_of_int (sint (ucast v :: u32))" by (rule scast_eq)
  then show "(scast (ucast v :: u32) :: u64) = sign_ext 4 v"
    by (simp only: low_word(3) sign_ext_def if_True refl simp_thms)
  show "sign_ext 8 v = v" by (simp add: sign_ext_def)
qed

lemma lr_arch:
  assumes "cpu_ok m" and "insn_handler i = H_atom h" and "h = Do_lr_w \<or> h = Do_lr_d"
    and "\<not> insn_departs v n (Rv_lr (amo_width h) (rd i) (rs1 i)) m"
  shows "finish (env_pc (env m) + n) i m = rv_exec v n (Rv_lr (amo_width h) (rd i) (rs1 i)) m"
proof -
  let ?r = "host_load (mem m) (g2h (guest_base m) (reg (env m) (rs1 i))) (amo_width h)"
  have run: "run_insn i m = (case ?r of None \<Rightarrow> Inl (Segv Guest_access)
      | Some v \<Rightarrow> Inr (m\<lparr>env := set_reg (rd i) (sign_ext (amo_width h) v) (env m)\<rparr>))"
    using assms(2,3)
    by (auto simp: run_insn_def do_lr_w_def do_lr_d_def load_rd_def cpu_lduw_def cpu_ldud_def sign_ext_w
        split: option.split)
  show ?thesis
  proof (cases ?r)
    case None
    with assms(1,4) run show ?thesis by (simp add: finish_stop atom_read Let_def)
  next
    case (Some v)
    with run have "run_insn i m = Inr (m\<lparr>env := set_reg (rd i) (sign_ext (amo_width h) v) (env m)\<rparr>)" by simp
    from finish_write [OF this] Some assms show ?thesis
      by (simp add: straight_def cpu_ok_def atom_read Let_def)
  qed
qed

lemma run_sc:
  assumes "h = Do_sc_w \<or> h = Do_sc_d" and "insn_handler i = H_atom h" and "cpu_ok m"
  shows "run_insn i m = bind_result (guest_write m (xreg (env m) (rs1 i)) (amo_width h) (xreg (env m) (rs2 i)))
    (\<lambda>m1. Inr (m1\<lparr>env := set_reg (rd i) 0 (env m1)\<rparr>))"
  using assms(1,2)
  by (auto simp: run_insn_def do_sc_w_def do_sc_d_def store_to_def cpu_stuw_def cpu_stud_def host_store_cast
      guest_write_def xreg_reg [OF assms(3)] split: option.split)

lemma guest_write_Inr: "guest_write m a w x = Inr m1 \<Longrightarrow> env m1 = env m \<and> (\<exists>h. m1 = m\<lparr>mem := h\<rparr>)"
  by (auto simp: guest_write_def split: option.splits)

lemma finish_sc:
  assumes "h = Do_sc_w \<or> h = Do_sc_d" and "insn_handler i = H_atom h" and "cpu_ok m"
  shows "finish q i m = bind_result (guest_write m (xreg (env m) (rs1 i)) (amo_width h) (xreg (env m) (rs2 i)))
    (\<lambda>m1. Inr (retire q (rd i) 0 m1))"
proof (cases "guest_write m (xreg (env m) (rs1 i)) (amo_width h) (xreg (env m) (rs2 i))")
  case (Inl e)
  with run_sc [OF assms] show ?thesis by (simp add: finish_stop)
next
  case (Inr m1)
  with run_sc [OF assms] have "run_insn i m = Inr (m1\<lparr>env := set_reg (rd i) 0 (env m1)\<rparr>)" by simp
  moreover have "gpr (env m1) ! 0 = 0" using guest_write_Inr [OF Inr] assms(3) by (simp add: cpu_ok_def)
  ultimately have "finish q i m = Inr (retire q (rd i) 0 m1)"
    using finish_write assms(2) by (simp add: straight_def)
  with Inr show ?thesis by simp
qed

lemma sc_arch:
  assumes "cpu_ok m" and "insn_handler i = H_atom h" and "h = Do_sc_w \<or> h = Do_sc_d"
    and "\<not> insn_departs v n (Rv_sc (amo_width h) (rd i) (rs1 i) (rs2 i)) m"
  shows "finish (env_pc (env m) + n) i m = rv_exec v n (Rv_sc (amo_width h) (rd i) (rs1 i) (rs2 i)) m"
  using assms(4) by (auto simp: finish_sc [OF assms(3,2,1)] retire_def set_x_def Let_def)

lemma amo_result_sign_ext: "amo_result (amo_width h) v = sign_ext (amo_width h) v"
proof (cases "amo_width h = 4")
  case True
  then show ?thesis by (simp add: amo_result_def sign_ext_w)
next
  case False
  then show ?thesis by (simp add: amo_result_def sign_ext_def)
qed

lemma amo_arch:
  assumes "cpu_ok m" and "insn_handler i = H_atom h" and "is_amo h"
    and "\<not> insn_departs v n (Rv_amo h (rd i) (rs1 i) (rs2 i)) m"
  shows "finish (env_pc (env m) + n) i m = rv_exec v n (Rv_amo h (rd i) (rs1 i) (rs2 i)) m"
proof -
  let ?p = "g2h (guest_base m) (reg (env m) (rs1 i))" and ?w = "amo_width h"
  note run = run_amo_exact [OF assms(3), of i m, unfolded Let_def amo_result_sign_ext]
  show ?thesis
  proof (cases "host_load (mem m) ?p ?w")
    case None
    with assms(1,2,4) run show ?thesis by (simp add: finish_stop run_insn_def atom_read Let_def)
  next
    case (Some v)
    let ?r = "host_store (mem m) ?p ?w (amo_spec h v (reg (env m) (rs2 i)))"
    show ?thesis
    proof (cases ?r)
      case None
      with assms(1,2,4) run Some show ?thesis
        by (simp add: finish_stop run_insn_def guest_read_def guest_write_def xreg_reg [OF assms(1)] Let_def)
    next
      case hm: (Some hm)
      with run Some assms(2) have "run_insn i m =
          Inr ((m\<lparr>mem := hm\<rparr>)\<lparr>env := set_reg (rd i) (sign_ext ?w v) (env (m\<lparr>mem := hm\<rparr>))\<rparr>)"
        by (simp add: run_insn_def)
      from finish_write [OF this] Some hm assms show ?thesis
        by (simp add: straight_def cpu_ok_def guest_write_def guest_read_def xreg_reg [OF assms(1)] Let_def)
    qed
  qed
qed

lemma ecall_arch:
  "cpu_ok m \<Longrightarrow> insn_handler i = Do_ecall \<Longrightarrow> insn_pc i = env_pc (env m) \<Longrightarrow> finish q i m = rv_exec v n Rv_ecall m"
  "cpu_ok m \<Longrightarrow> insn_handler i = Do_illegal \<Longrightarrow> insn_pc i = env_pc (env m) \<Longrightarrow> finish q i m = rv_exec v n Rv_reserved m"
  by (simp_all add: finish_def run_insn_def on_env_def do_ecall_def do_illegal_def straight_def raise_exc_def cpu_ok_def)

end
