(* ===== verification/Rv64_Step.thy ===== *)
theory Rv64_Step
  imports Rv64_Insns
begin

text \<open>
  Every opcode: the decoder and the tables name the same instruction, so that a step of the emulator from the
  fetch on is a step of the reference machine, unless it departs.
\<close>

section \<open>Every opcode\<close>

fun format_ok :: "rv_format \<Rightarrow> bool" where
  "format_ok (As_b h) = (h \<noteq> Do_c_beq \<and> h \<noteq> Do_c_bne)"
| "format_ok (As_lr h) = (h = Do_lr_w \<or> h = Do_lr_d)"
| "format_ok (As_amo h) = (h \<noteq> Do_lr_w \<and> h \<noteq> Do_lr_d)"
| "format_ok _ = True"

lemma find_in_set: "find P xs = Some x \<Longrightarrow> x \<in> set xs"
  by (metis find_Some_iff nth_mem)

lemma lookup_format_ok:
  assumes "rv32_lookup op = Some f"
  shows "format_ok f"
proof -
  obtain m v where "(m, v, f) \<in> set rv32_table"
    using assms by (auto simp: rv32_lookup_def dest: find_in_set)
  moreover have "list_all (\<lambda>(m, v, f). format_ok f) rv32_table"
    by (simp add: rv32_table_def rv_rows)
  ultimately show ?thesis by (auto simp: list_all_iff)
qed

lemma rv_field_5: "unat (rv_field op s 5) < 32"
proof -
  have "unat (rv_field op s 5) = unat (drop_bit s op) mod 32"
    by (simp only: rv_field_def unsigned_take_bit_eq take_bit_nat_def) simp
  then show ?thesis by simp
qed

lemma step_32:
  assumes "cpu_ok m" and "rv32_lookup op = Some f" and "i = rv32_insn (env_pc (env m)) op f"
    and "\<not> insn_departs v 4 (rv32_arch op f) m"
  shows "finish (env_pc (env m) + 4) i m = rv_exec v 4 (rv32_arch op f) m"
proof (cases f)
  case (As_r h)
  show ?thesis
  proof (cases "rv_field op 7 5 = 0")
    case True
    with As_r assms empty_arch [OF assms(1), of i] show ?thesis
      by (simp add: retire_def set_x_def Let_def)
  next
    case False
    with As_r assms alu_arch [OF assms(1), of i h v 4] show ?thesis by simp
  qed
next
  case (As_i h)
  show ?thesis
  proof (cases "rv_field op 7 5 = 0")
    case True
    with As_i assms empty_arch [OF assms(1), of i] show ?thesis
      by (auto simp: retire_def set_x_def Let_def split: if_splits option.splits)
  next
    case False
    with As_i assms alu_imm_arch [OF assms(1), of i h v 4] load_arch [OF assms(1), of i h 4] show ?thesis
      by (cases "is_load h") simp_all
  qed
next
  case (As_s h)
  with assms store_arch [OF assms(1), of i h 4] show ?thesis by simp
next
  case (As_b h)
  with lookup_format_ok [OF assms(2)] have "b_len h = 4" by (cases h) auto
  with As_b assms branch_arch [OF assms(1), of i h 4 h] show ?thesis by simp
next
  case As_lui
  with assms lui_arch [OF assms(1), of i v 4] show ?thesis by simp
next
  case As_auipc
  with assms auipc_arch [OF assms(1), of i v 4] show ?thesis by simp
next
  case As_jal
  with assms jal_arch [OF assms(1), of i Do_jal 4] show ?thesis by simp
next
  case As_jalr
  with assms jalr_arch [OF assms(1), of i Do_jalr 4] show ?thesis
    by (simp add: regs_ok_def rv_field_5 zero_insn_def)
next
  case (As_csr h)
  with assms show ?thesis by simp
next
  case (As_lr h)
  with lookup_format_ok [OF assms(2)] assms lr_arch [OF assms(1), of i h v 4] show ?thesis by simp
next
  case (As_amo h)
  with lookup_format_ok [OF assms(2)] assms sc_arch [OF assms(1), of i h v 4] amo_arch [OF assms(1), of i h v 4] show ?thesis
    by (cases "h = Do_sc_w \<or> h = Do_sc_d") (auto simp: is_amo_def)
next
  case As_fence
  with assms empty_arch [OF assms(1), of i] show ?thesis by simp
next
  case As_ecall
  with assms ecall_arch(1) [OF assms(1), of i] show ?thesis by simp
qed


text \<open>The handlers of the compressed table.\<close>

fun rvc_handler :: "handler \<Rightarrow> bool" where
  "rvc_handler (H_csr h) = False"
| "rvc_handler (H_atom h) = False"
| "rvc_handler h = (h \<notin> {Null_handler, Do_illegal, Do_ecall, Do_auipc})"

lemma row_handlers:
  assumes "rvc_lookup op = Some r" and "r \<noteq> Ebreak"
  shows "rvc_handler (row_handler r)"
  using assms
  by (auto simp: rvc_lookup_def rvc_q0_def rvc_q1_def rvc_q2_def rvc_alu_def rvc_cr_def Let_def split: if_splits)

lemma step_16:
  assumes "cpu_ok m" and "rvc_lookup op = Some r" and "r \<noteq> Ebreak"
    and "i = row_insn (env_pc (env m)) op r" and "decode_ok 2 c (c', i)"
    and "\<not> insn_departs v 2 (rvc_arch op r) m"
  shows "finish (env_pc (env m) + 2) i m = rv_exec v 2 (rvc_arch op r) m"
proof -
  note arch = rvc_arch_def [of op r, unfolded if_not_P [OF assms(3)]]
  have i: "insn_handler i = row_handler r" "rs1 i = rvc_reg (row_rs1 r) op" "rs2 i = rvc_reg (row_rs2 r) op"
    "rd i = rvc_reg (row_rd r) op" "imm i = rvc_imm (row_imm r) op"
    "insn_pc i = (case row_handler r of H_jump _ \<Rightarrow> env_pc (env m) | H_b _ \<Rightarrow> env_pc (env m) | _ \<Rightarrow> 0)"
    using assms(4) by (simp_all add: row_insn_def)
  note ok = assms(5) [unfolded decode_ok_def prod.case i(1)]
  show ?thesis
  proof (cases "row_handler r")
    case (H_r h)
    with assms(1,6) ok i alu_arch [OF assms(1), of i h v 2] show ?thesis by (simp add: arch Let_def)
  next
    case (H_i h)
    with assms(1,6) ok i alu_imm_arch [OF assms(1), of i h v 2] load_arch [OF assms(1), of i h 2] show ?thesis
      by (cases "is_load h") (simp_all add: arch Let_def)
  next
    case (H_s h)
    with i store_arch [OF assms(1), of i h 2] show ?thesis by (simp add: arch Let_def)
  next
    case (H_b h)
    with ok have "h = Do_c_beq \<or> h = Do_c_bne" by (cases h) auto
    then have "b_len h = 2" "branch_taken (if h = Do_c_beq then Do_beq else Do_bne) = branch_taken h"
      by (auto simp: fun_eq_iff)
    with H_b i branch_arch [OF assms(1), of i h 2] show ?thesis by (simp add: arch Let_def)
  next
    case (H_jump h)
    with ok have h: "h = Do_c_jal \<or> h = Do_c_jalr" by (cases h) auto
    with H_jump assms(6) ok i jal_arch [OF assms(1), of i h 2] jalr_arch [OF assms(1), of i h 2] show ?thesis
      by (auto simp: arch Let_def)
  next
    case Do_lui
    with assms(6) i lui_arch [OF assms(1), of i v 2] show ?thesis by (simp add: arch Let_def)
  next
    case Do_empty
    with i empty_arch [OF assms(1), of i] show ?thesis
      by (simp add: arch Let_def retire_def set_x_def)
  qed (use row_handlers [OF assms(2,3)] in simp_all)
qed

lemma rvc_addi16sp_0_row:
  assumes "rvc_addi16sp_0 op"
  shows "rvc_lookup op = Some (Row (H_i Do_addi) (Fixed 2) (Fixed 2) (Fixed 0)
      (Signed 9 [(9, 12), (4, 6), (6, 5), (8, 4), (7, 3), (5, 2)])) \<and>
    rvc_imm (Signed 9 [(9, 12), (4, 6), (6, 5), (8, 4), (7, 3), (5, 2)]) op = 0 \<and> rvc_reserved op \<and> \<not> rvc_hint op"
proof -
  have f: "field op 0 2 = 1" "field op 13 3 = 3" "field op 7 5 = 2" "field op 2 5 = 0" "\<not> bit op 12"
    using assms by (simp_all add: rvc_addi16sp_0_def)
  from f(4,5) have "scatter [(9, 12), (4, 6), (6, 5), (8, 4), (7, 3), (5, 2)] op = 0"
    unfolding field_0 all_less_5 by (auto simp: scatter_0 simp del: scatter.simps)
  with f show ?thesis
    by (simp add: rvc_lookup_def rvc_q1_def rvc_reserved_def rvc_hint_def Let_def del: scatter.simps)
qed

lemma rvc_ebreak_row: "rvc_lookup op = Some Ebreak \<Longrightarrow> \<not> rvc_reserved op"
  by (auto simp: rvc_lookup_def rvc_q0_def rvc_q1_def rvc_q2_def rvc_alu_def rvc_cr_def rvc_reserved_def Let_def
      split: if_splits)

lemma rvc_hint_row: "rvc_hint op \<Longrightarrow> \<exists>r. rvc_lookup op = Some r \<and> r \<noteq> Ebreak"
  by (auto simp: rvc_hint_def rvc_lookup_def rvc_q1_def rvc_q2_def rvc_cr_def Let_def)

lemma system_rows_ecall:
  assumes "op AND 0x707f = 0x73" and "op \<noteq> 0x73"
  shows "rv32_lookup op = None"
proof -
  have k: "op AND OPCODE_MASK = 0x73" "op AND FUNCT3_MASK = 0" using assms(1) by (simp_all add: mask_707f)
  have e: "op AND 0xffffffff \<noteq> 0x73" using assms(2) by (simp only: mask_ecall not_False_eq_True)
  have "row_of op rv_system = None" using k(2) e by (simp add: rv_rows mask_707f)
  with k(1) show ?thesis by (simp add: lookup_groups Let_def)
qed

text \<open>The decoded instruction and the instruction of the reference machine.\<close>

lemma decode_arch_cases:
  assumes "decode_one (start_ctx pc) zero_insn op = (c', i)"
  obtains (reserved) "insn_handler i = Do_illegal" "insn_pc i = pc" "rv_decode op = Rv_reserved" "\<not> opcode_departs op"
    | (base) f where "insn_len op = 4" "rv32_lookup op = Some f" "i = rv32_insn pc op f" "rv_decode op = rv32_arch op f"
        "\<not> opcode_departs op"
    | (rvc) r where "insn_len op = 2" "rvc_lookup (ucast op) = Some r" "r \<noteq> Ebreak" "i = row_insn pc (ucast op) r" "rv_decode op = rvc_arch (ucast op) r"
        "\<not> opcode_departs op"
    | (system) "insn_handler i = Do_ecall" "insn_pc i = pc" "rv_decode op = Rv_ebreak \<or> rv_decode op = Rv_reserved"
        "opcode_departs op"
    | (ebreak) "insn_handler i = Do_empty" "insn_len op = 2" "rv_decode op = Rv_ebreak"
    | (hint) r where "insn_handler i = Do_illegal" "insn_pc i = pc" "rvc_lookup (ucast op) = Some r" "r \<noteq> Ebreak"
        "insn_len op = 2" "rvc_hint (ucast op)" "rv_decode op = rvc_arch (ucast op) r" "opcode_departs op"
    | (addi16sp) "insn_handler i = H_i Do_addi" "rd i = 2" "rs1 i = 2" "imm i = 0" "insn_len op = 2"
        "rv_decode op = Rv_reserved" "opcode_departs op"
proof -
  let ?c = "start_ctx pc" and ?op = "ucast op :: u16"
  have pc: "tc_pc ?c = pc" by (simp add: start_ctx_def)
  show ?thesis
  proof (cases "insn_len op = 4")
    case True
    have i: "rv32_ok ?c op (rv32_lookup op) i"
      using decode_insn32_rows [of ?c op] assms True by (simp add: decode_one_def insn_len_def)
    show ?thesis
    proof (cases "op AND 0x707f = 0x73 \<and> op \<noteq> 0x73")
      case dep: True
      with system_rows_ecall have "rv32_lookup op = None" by blast
      with dep i True show ?thesis
        by (intro system) (simp_all add: rv32_ok_def rv_decode_def opcode_departs_def pc)
    next
      case False
      then have "op \<noteq> 0x00100073" by auto
      then have dec: "rv_decode op = (case rv32_lookup op of None \<Rightarrow> Rv_reserved | Some f \<Rightarrow> rv32_arch op f)"
        and dep: "\<not> opcode_departs op"
        using True False by (auto simp: rv_decode_def opcode_departs_def)
      show ?thesis
      proof (cases "rv32_lookup op")
        case None
        have "rv32_lookup 0x73 = Some As_ecall" by code_simp
        with None False have "op AND 0x707f \<noteq> 0x73" by auto
        with None i dec dep show ?thesis by (intro reserved) (simp_all add: rv32_ok_def illegal_insn_def pc)
      next
        case (Some f)
        with i dec dep True show ?thesis by (intro base [of f]) (simp_all add: rv32_ok_def pc)
      qed
    qed
  next
    case False
    then have len: "insn_len op = 2" by (simp add: insn_len_def split: if_splits)
    have i: "rvc_ok ?c ?op (rvc_lookup ?op) i"
      using decode_insn16_rvc [of ?c ?op] assms len by (simp add: decode_one_def)
    have dec: "rv_decode op = (case rvc_lookup ?op of None \<Rightarrow> Rv_reserved
        | Some r \<Rightarrow> if rvc_reserved ?op then Rv_reserved else rvc_arch ?op r)"
      and dep: "opcode_departs op \<longleftrightarrow> rvc_addi16sp_0 ?op \<or> rvc_hint ?op \<and> \<not> rvc_reserved ?op"
      using len by (simp_all add: rv_decode_def opcode_departs_def)
    consider "rvc_addi16sp_0 ?op" | "\<not> rvc_addi16sp_0 ?op" "rvc_lookup ?op = None"
      | "\<not> rvc_addi16sp_0 ?op" "rvc_lookup ?op = Some Ebreak"
      | r where "\<not> rvc_addi16sp_0 ?op" "rvc_lookup ?op = Some r" "r \<noteq> Ebreak" "rvc_reserved ?op"
      | r where "\<not> rvc_addi16sp_0 ?op" "rvc_lookup ?op = Some r" "r \<noteq> Ebreak" "\<not> rvc_reserved ?op" "rvc_hint ?op"
      | r where "\<not> rvc_addi16sp_0 ?op" "rvc_lookup ?op = Some r" "r \<noteq> Ebreak" "\<not> rvc_reserved ?op" "\<not> rvc_hint ?op"
      by blast
    then show ?thesis
    proof cases
      case 1
      note row = rvc_addi16sp_0_row [OF 1]
      with i 1 have "i = row_insn pc ?op (Row (H_i Do_addi) (Fixed 2) (Fixed 2) (Fixed 0)
          (Signed 9 [(9, 12), (4, 6), (6, 5), (8, 4), (7, 3), (5, 2)]))"
        by (simp add: rvc_ok_def pc del: rvc_imm.simps)
      with row dec dep 1 len show ?thesis by (intro addi16sp) (simp_all add: row_insn_def del: rvc_imm.simps)
    next
      case 2
      with i dec dep rvc_hint_row [of ?op] show ?thesis
        by (intro reserved) (auto simp: rvc_ok_def illegal_insn_def pc)
    next
      case 3
      then have "\<not> rvc_reserved ?op" using rvc_ebreak_row by blast
      with 3 i dec len show ?thesis by (intro ebreak) (simp_all add: rvc_ok_def rvc_arch_def)
    next
      case (4 r)
      with i dec dep show ?thesis
        by (intro reserved) (auto simp: rvc_ok_def illegal_insn_def pc split: rvc_row.splits)
    next
      case (5 r)
      with i dec dep len show ?thesis
        by (intro hint [of r]) (auto simp: rvc_ok_def illegal_insn_def pc split: rvc_row.splits)
    next
      case (6 r)
      with i dec dep len show ?thesis
        by (intro rvc [of r]) (auto simp: rvc_ok_def pc split: rvc_row.splits)
    qed
  qed
qed

lemma step_arch:
  assumes "cpu_ok m" and code: "fixed_code (mem m) (guest_base m) (env_pc (env m)) = Some op"
    and "\<not> departs v op m"
  shows "isa_step m = map_option fst (rv_step v m)"
proof -
  let ?c = "start_ctx (env_pc (env m))"
  obtain c' i where d: "decode_one ?c zero_insn op = (c', i)" by fastforce
  have ok: "decode_ok (insn_len op) ?c (c', i)"
    using decode_one_ok [OF zero_insn_regs, of op ?c] d by simp
  have goal: "isa_step m = map_option fst (rv_step v m) \<longleftrightarrow>
      finish (env_pc (env m) + of_nat (insn_len op)) i m = rv_exec v (of_nat (insn_len op)) (rv_decode op) m"
    using isa_step_finish [OF code refl] d by (simp add: rv_step_def code)
  have dep: "\<not> insn_departs v (of_nat (insn_len op)) (rv_decode op) m" "\<not> opcode_departs op"
    using assms(3) by (simp_all add: departs_def)
  from d show ?thesis
  proof (cases rule: decode_arch_cases)
    case reserved
    with ecall_arch(2) [OF assms(1), of i] show ?thesis by (simp add: goal)
  next
    case (base f)
    with step_32 [OF assms(1) base(2,3)] dep show ?thesis by (simp add: goal)
  next
    case (rvc r)
    from step_16 [OF assms(1) rvc(2-4) ok [unfolded rvc(1)]] rvc dep show ?thesis by (simp add: goal)
  next
    case ebreak
    with dep(1) show ?thesis by simp
  qed (use dep(2) in blast)+
qed

section \<open>Where a run of instructions ends\<close>

lemma step_shape:
  assumes "\<not> departs v op m" and "decode_one (start_ctx pc) zero_insn op = (c', i)"
  shows "straight i \<longleftrightarrow> \<not> ends_run (rv_decode op)" and "straight i \<Longrightarrow> \<not> insn_raises i"
proof -
  have dep: "\<not> insn_departs v (of_nat (insn_len op)) (rv_decode op) m" "\<not> opcode_departs op"
    using assms(1) by (simp_all add: departs_def)
  have "(straight i \<longleftrightarrow> \<not> ends_run (rv_decode op)) \<and> (straight i \<longrightarrow> \<not> insn_raises i)"
    using assms(2)
  proof (cases rule: decode_arch_cases)
    case (base f)
    with dep show ?thesis
      by (cases f) (auto simp: straight_def insn_raises_def split: option.splits)
  next
    case (rvc r)
    with dep row_handlers [OF rvc(2,3)] show ?thesis
      by (cases "row_handler r") (auto simp: straight_def insn_raises_def rvc_arch_def row_insn_def Let_def split: if_splits)
  next
    case ebreak
    with dep(1) show ?thesis by simp
  qed (use dep(2) in \<open>simp_all add: straight_def\<close>)
  then show "straight i \<longleftrightarrow> \<not> ends_run (rv_decode op)" "straight i \<Longrightarrow> \<not> insn_raises i" by auto
qed

end
