(* ===== verification/Rv64_Departs.thy ===== *)
theory Rv64_Departs
  imports Rv64_Step
begin

text \<open>
  The other direction: on a departure the emulator's step and the reference machine's have different results, so
  that \<open>departs\<close> lists the differences exactly.
\<close>

section \<open>Every departure shows\<close>

lemma retire_inject:
  assumes "retire q d v m = retire q' d v' m'" and "unat d < length (gpr (env m))" and "unat d < length (gpr (env m'))"
  shows "q = q' \<and> (d = 0 \<or> v = v')"
proof -
  have "env_pc (env (retire q d v m)) = env_pc (env (retire q' d v' m'))"
    "xreg (env (retire q d v m)) d = xreg (env (retire q' d v' m')) d" using assms(1) by simp_all
  then show ?thesis
    using assms(2,3) by (auto simp: retire_def set_x_def xreg_def reg_simps split: if_splits)
qed

lemma finish_write_x0:
  assumes "run_insn i m = Inr (m1\<lparr>env := set_reg 0 v (env m1)\<rparr>)" and "cpu_ok m1" and "v \<noteq> 0"
  shows "finish q i m = Inl Assert_failed"
proof -
  have "gpr (set_reg 0 v (env m1)) ! 0 = v" using assms(2) by (simp add: set_reg_def cpu_ok_def)
  with assms(1,3) show ?thesis by (simp add: finish_def)
qed

lemma zero_extension_shows:
  assumes "bit (sx32 k) 31"
  shows "take_bit 32 (word_of_int (sx32 k) :: u64) \<noteq> word_of_int (sx32 k)"
proof
  assume "take_bit 32 (word_of_int (sx32 k) :: u64) = word_of_int (sx32 k)"
  then have "bit (take_bit 32 (word_of_int (sx32 k) :: u64)) 32 = bit (word_of_int (sx32 k) :: u64) 32" by simp
  then show False
    using assms by (simp add: bit_take_bit_iff bit_of_int_iff sx32_def bit_signed_take_bit_iff min_def)
qed

lemma alu_departs:
  assumes "cpu_ok m" and "insn_handler i = H_r h" and "rd i \<noteq> 0" and "regs_ok i"
    and "insn_departs v n (Rv_alu h (rd i) (rs1 i) (rs2 i)) m"
  shows "finish q i m \<noteq> rv_exec v n (Rv_alu h (rd i) (rs1 i) (rs2 i)) m"
proof (cases "host_traps h (reg (env m) (rs1 i)) (reg (env m) (rs2 i))")
  case True
  then show ?thesis
    using assms(2) by (simp add: finish_stop run_insn_def on_env_result_def run_r_exact Let_def)
next
  case False
  let ?v = "r_value h (reg (env m) (rs1 i)) (reg (env m) (rs2 i))"
  have ext: "zero_extended h" "bit (r_spec h (reg (env m) (rs1 i)) (reg (env m) (rs2 i))) 31"
    using assms(5) False by (simp_all add: xreg_reg [OF assms(1)] Let_def)
  then have v: "?v \<noteq> word_of_int (r_spec h (reg (env m) (rs1 i)) (reg (env m) (rs2 i)))"
    using zero_extended_sx32(1) [of h] zero_extension_shows by (metis r_value_def)
  have "run_insn i m = Inr (m\<lparr>env := set_reg (rd i) ?v (env m)\<rparr>)"
    using assms(2) False by (simp add: run_insn_def on_env_result_def run_r_exact)
  from finish_write [OF this] have "finish q i m = Inr (retire q (rd i) ?v m)"
    using assms(1-3) by (simp add: straight_def cpu_ok_def)
  with v assms(1,3,4) show ?thesis
    by (auto simp: xreg_reg [OF assms(1)] Let_def regs_ok_def cpu_ok_def dest!: retire_inject)
qed

lemma alu_imm_departs:
  assumes "cpu_ok m" and "insn_handler i = H_i h" and "rd i \<noteq> 0" and "\<not> is_load h" and "regs_ok i"
    and "insn_departs v n (Rv_alu_imm h (rd i) (rs1 i) (sint (imm i))) m"
  shows "finish q i m \<noteq> rv_exec v n (Rv_alu_imm h (rd i) (rs1 i) (sint (imm i))) m"
proof -
  let ?v = "i_value h (reg (env m) (rs1 i)) (sint (imm i))"
  have ext: "zero_extended_i h" "bit (i_spec h (reg (env m) (rs1 i)) (sint (imm i))) 31"
    using assms(6) by (simp_all add: xreg_reg [OF assms(1)])
  then have v: "?v \<noteq> word_of_int (i_spec h (reg (env m) (rs1 i)) (sint (imm i)))"
    using zero_extended_sx32(2) [of h] zero_extension_shows by (metis i_value_def)
  have "run_insn i m = Inr (m\<lparr>env := set_reg (rd i) ?v (env m)\<rparr>)"
    using assms(2,4) by (simp add: run_insn_def run_i_exact)
  from finish_write [OF this] have "finish q i m = Inr (retire q (rd i) ?v m)"
    using assms(1-3) by (simp add: straight_def cpu_ok_def)
  with v assms(1,3,5) show ?thesis
    by (auto simp: xreg_reg [OF assms(1)] Let_def regs_ok_def cpu_ok_def dest!: retire_inject)
qed

lemma lui_departs:
  assumes "cpu_ok m" and "insn_handler i = Do_lui" and "insn_departs v n (Rv_lui (rd i) (sint (imm i))) m"
  shows "finish q i m \<noteq> rv_exec v n (Rv_lui (rd i) (sint (imm i))) m"
proof -
  have "run_insn i m = Inr (m\<lparr>env := set_reg 0 (word_of_int (sint (imm i))) (env m)\<rparr>)"
    using assms by (simp add: run_insn_def on_env_def do_lui_def simm_arch del: of_int_sint)
  from finish_write_x0 [OF this assms(1)] assms(3) show ?thesis by (simp del: of_int_sint)
qed

lemma auipc_departs:
  assumes "cpu_ok m" and "insn_handler i = Do_auipc" and "insn_pc i = env_pc (env m)"
    and "insn_departs v n (Rv_auipc (rd i) (sint (imm i))) m"
  shows "finish q i m \<noteq> rv_exec v n (Rv_auipc (rd i) (sint (imm i))) m"
proof -
  have "run_insn i m = Inr (m\<lparr>env := set_reg 0 (env_pc (env m) + word_of_int (sint (imm i))) (env m)\<rparr>)"
    using assms by (simp add: run_insn_def on_env_def do_auipc_def simm_arch del: of_int_sint)
  from finish_write_x0 [OF this assms(1)] assms(4) show ?thesis by (simp add: Let_def del: of_int_sint)
qed

lemma jalr_departs:
  assumes "cpu_ok m" and "insn_handler i = H_jump h" and "insn_pc i = env_pc (env m)" and "regs_ok i"
    and "h = Do_jalr \<and> n = 4 \<or> h = Do_c_jalr \<and> n = 2"
    and "insn_departs v n (Rv_jalr (rd i) (rs1 i) (sint (imm i))) m"
  shows "finish q i m \<noteq> rv_exec v n (Rv_jalr (rd i) (rs1 i) (sint (imm i))) m"
  using finish_jump [OF assms(1,2) run_jalr [OF assms(1-5)]] assms(1,4,6)
  by (auto simp: xreg_reg [OF assms(1)] Let_def regs_ok_def cpu_ok_def dest!: retire_inject)

text \<open>An instruction that stops without moving the counter.\<close>

lemma retire_not_raise: "q \<noteq> env_pc (env m) \<Longrightarrow> retire q d x m1 \<noteq> raise_exc y m"
proof
  assume "q \<noteq> env_pc (env m)" and "retire q d x m1 = raise_exc y m"
  then have "env_pc (env (retire q d x m1)) = env_pc (env (raise_exc y m))" by simp
  then show False using \<open>q \<noteq> env_pc (env m)\<close> by (simp add: raise_exc_def retire_def set_pc_def)
qed

lemma finish_moves:
  assumes "straight i" and "q \<noteq> env_pc (env m)"
  shows "finish q i m \<noteq> Inr (raise_exc y m)"
proof
  assume "finish q i m = Inr (raise_exc y m)"
  then have "q = env_pc (env (raise_exc y m))"
    using assms(1) by (auto simp: finish_def bind_result_Inr split: if_splits) (metis with_pc_sel(5))
  then show False using assms(2) by (simp add: raise_exc_def)
qed

lemma csr_departs:
  assumes "insn_handler i = H_csr h" and "q \<noteq> env_pc (env m)"
  shows "finish q i m \<noteq> rv_exec v n (Rv_csr h d s c) m"
  using assms finish_moves [of i q m] by (simp add: straight_def)

lemma lr_departs:
  assumes "cpu_ok m" and "insn_handler i = H_atom h" and "h = Do_lr_w \<or> h = Do_lr_d" and "q \<noteq> env_pc (env m)"
    and "insn_departs v n (Rv_lr (amo_width h) (rd i) (rs1 i)) m"
  shows "finish q i m \<noteq> rv_exec v n (Rv_lr (amo_width h) (rd i) (rs1 i)) m"
proof (cases "aligned (reg (env m) (rs1 i)) (amo_width h)")
  case False
  with assms(2,4) finish_moves [of i q m] show ?thesis
    by (simp add: straight_def xreg_reg [OF assms(1)] Let_def)
next
  case True
  then obtain x where x: "host_load (mem m) (g2h (guest_base m) (reg (env m) (rs1 i))) (amo_width h) = Some x"
      "sign_ext (amo_width h) x \<noteq> 0" "rd i = 0"
    using assms(5) by (auto simp: guest_read_def xreg_reg [OF assms(1)] Let_def split: option.splits)
  then have "run_insn i m = Inr (m\<lparr>env := set_reg 0 (sign_ext (amo_width h) x) (env m)\<rparr>)"
    using assms(2,3) by (auto simp: run_insn_def do_lr_w_def do_lr_d_def load_rd_def cpu_lduw_def cpu_ldud_def sign_ext_w)
  from finish_write_x0 [OF this assms(1) x(2)] x True show ?thesis
    by (simp add: guest_read_def xreg_reg [OF assms(1)] Let_def)
qed

lemma retire_sc:
  assumes "retire q d 0 m1 = retire q d 1 m" and "cpu_ok m" and "env m1 = env m" and "m1 = m\<lparr>mem := h\<rparr>" and "unat d < 32"
  shows "d = 0 \<and> m1 = m"
proof
  show "d = 0"
    using retire_inject [OF assms(1)] assms(2,3,5) by (auto simp: cpu_ok_def)
  have "mem (retire q d 0 m1) = mem (retire q d 1 m)" unfolding assms(1) ..
  then show "m1 = m" by (simp add: assms(4) retire_def)
qed

lemma sc_departs:
  assumes "cpu_ok m" and "insn_handler i = H_atom h" and "h = Do_sc_w \<or> h = Do_sc_d" and "regs_ok i" and "n \<noteq> 0"
    and "insn_departs v n (Rv_sc (amo_width h) (rd i) (rs1 i) (rs2 i)) m"
  shows "finish (env_pc (env m) + n) i m \<noteq> rv_exec v n (Rv_sc (amo_width h) (rd i) (rs1 i) (rs2 i)) m"
proof (cases "aligned (xreg (env m) (rs1 i)) (amo_width h)")
  case False
  with assms(2,5) finish_moves [of i "env_pc (env m) + n" m] show ?thesis
    by (simp add: straight_def Let_def)
next
  case True
  let ?w = "guest_write m (xreg (env m) (rs1 i)) (amo_width h) (xreg (env m) (rs2 i))"
  have dep: "v \<noteq> Some (xreg (env m) (rs1 i), amo_width h)" "rd i \<noteq> 0 \<or> ?w \<noteq> Inr m"
    using True assms(6) by (auto simp: Let_def)
  then have ref: "rv_exec v n (Rv_sc (amo_width h) (rd i) (rs1 i) (rs2 i)) m = Inr (retire (env_pc (env m) + n) (rd i) 1 m)"
    using True by (simp add: Let_def)
  show ?thesis
  proof (cases ?w)
    case (Inl e)
    with ref finish_sc [OF assms(3,2,1)] show ?thesis by simp
  next
    case (Inr m1)
    then obtain hm where m1: "env m1 = env m" "m1 = m\<lparr>mem := hm\<rparr>" using guest_write_Inr by blast
    have "unat (rd i) < 32" using assms(4) by (simp add: regs_ok_def)
    with retire_sc [OF _ assms(1) m1] dep(2) Inr
    have "retire (env_pc (env m) + n) (rd i) 0 m1 \<noteq> retire (env_pc (env m) + n) (rd i) 1 m" by blast
    with Inr ref finish_sc [OF assms(3,2,1)] show ?thesis by simp
  qed
qed

lemma amo_departs:
  assumes "cpu_ok m" and "insn_handler i = H_atom h" and "is_amo h" and "q \<noteq> env_pc (env m)"
    and "insn_departs v n (Rv_amo h (rd i) (rs1 i) (rs2 i)) m"
  shows "finish q i m \<noteq> rv_exec v n (Rv_amo h (rd i) (rs1 i) (rs2 i)) m"
proof (cases "aligned (reg (env m) (rs1 i)) (amo_width h)")
  case False
  with assms(2,4) finish_moves [of i q m] show ?thesis
    by (simp add: straight_def xreg_reg [OF assms(1)] Let_def)
next
  case True
  let ?p = "g2h (guest_base m) (reg (env m) (rs1 i))" and ?w = "amo_width h"
  obtain x hm where x: "host_load (mem m) ?p ?w = Some x"
      "host_store (mem m) ?p ?w (amo_spec h x (reg (env m) (rs2 i))) = Some hm" "sign_ext ?w x \<noteq> 0" "rd i = 0"
    using assms(5) True
    by (auto simp: guest_read_def guest_write_def xreg_reg [OF assms(1)] Let_def split: option.splits)
  with run_amo_exact [OF assms(3), of i m, unfolded Let_def amo_result_sign_ext] assms(2)
  have "run_insn i m = Inr ((m\<lparr>mem := hm\<rparr>)\<lparr>env := set_reg 0 (sign_ext ?w x) (env (m\<lparr>mem := hm\<rparr>))\<rparr>)"
    by (simp add: run_insn_def)
  from finish_write_x0 [OF this _ x(3)] assms(1) x True show ?thesis
    by (simp add: guest_read_def guest_write_def xreg_reg [OF assms(1)] Let_def)
qed


text \<open>A load without destination that may not be read, and the two forms of \<open>ebreak\<close>.\<close>

lemma empty_departs:
  assumes "cpu_ok m" and "insn_handler i = Do_empty" and "q \<noteq> env_pc (env m)" and "insn_departs v n r m"
    and "(\<exists>h a k. r = Rv_load h 0 a k) \<or> r = Rv_ebreak"
  shows "finish q i m \<noteq> rv_exec v n r m"
proof -
  have fin: "finish q i m = Inr (retire q 0 0 m)" using empty_arch [OF assms(1,2)] .
  have "retire q 0 0 m \<noteq> raise_exc BREAKPOINT m" using retire_not_raise [OF assms(3)] .
  with fin assms(4,5) show ?thesis by (auto simp: Let_def)
qed

lemma departs_32:
  assumes "cpu_ok m" and "rv32_lookup op = Some f" and "i = rv32_insn (env_pc (env m)) op f"
    and dep: "insn_departs v 4 (rv32_arch op f) m"
  shows "finish (env_pc (env m) + 4) i m \<noteq> rv_exec v 4 (rv32_arch op f) m"
proof -
  have regs: "regs_ok i"
    using assms(3) by (cases f) (simp_all add: regs_ok_def rv_field_5 zero_insn_def)
  have beyond: "env_pc (env m) + 4 \<noteq> env_pc (env m)" by simp
  show ?thesis
  proof (cases f)
    case (As_r h)
    with dep have "rv_field op 7 5 \<noteq> 0" by (auto simp: Let_def)
    with As_r assms alu_departs [OF assms(1) _ _ regs, of h v 4] show ?thesis by simp
  next
    case (As_i h)
    show ?thesis
    proof (cases "rv_field op 7 5 = 0")
      case True
      with As_i dep have "is_load h" by (auto split: if_splits)
      with True As_i assms empty_departs [OF assms(1) _ beyond dep] show ?thesis by simp
    next
      case False
      with As_i dep have "\<not> is_load h" by (auto split: if_splits)
      with False As_i assms alu_imm_departs [OF assms(1) _ _ _ regs, of h v 4] show ?thesis by simp
    qed
  next
    case As_lui
    with assms lui_departs [OF assms(1), of i v 4] show ?thesis by simp
  next
    case As_auipc
    with assms auipc_departs [OF assms(1), of i v 4] show ?thesis by simp
  next
    case As_jalr
    with assms regs jalr_departs [OF assms(1), of i Do_jalr 4] show ?thesis by simp
  next
    case (As_csr h)
    with assms csr_departs [OF _ beyond, of i h] show ?thesis by simp
  next
    case (As_lr h)
    with lookup_format_ok [OF assms(2)] assms lr_departs [OF assms(1) _ _ beyond, of i h v 4] show ?thesis by simp
  next
    case (As_amo h)
    with lookup_format_ok [OF assms(2)] assms amo_departs [OF assms(1) _ _ beyond, of i h v 4]
      sc_departs [OF assms(1) _ _ regs, of h 4 v] show ?thesis
      by (cases "h = Do_sc_w \<or> h = Do_sc_d") (auto simp: is_amo_def)
  qed (use dep in simp_all)
qed

lemma departs_16:
  assumes "cpu_ok m" and "rvc_lookup op = Some r" and "r \<noteq> Ebreak"
    and "i = row_insn (env_pc (env m)) op r" and "decode_ok 2 c (c', i)"
    and dep: "insn_departs v 2 (rvc_arch op r) m"
  shows "finish (env_pc (env m) + 2) i m \<noteq> rv_exec v 2 (rvc_arch op r) m"
proof -
  note arch = rvc_arch_def [of op r, unfolded if_not_P [OF assms(3)]]
  have i: "insn_handler i = row_handler r" "rs1 i = rvc_reg (row_rs1 r) op" "rs2 i = rvc_reg (row_rs2 r) op"
    "rd i = rvc_reg (row_rd r) op" "imm i = rvc_imm (row_imm r) op"
    "insn_pc i = (case row_handler r of H_jump _ \<Rightarrow> env_pc (env m) | H_b _ \<Rightarrow> env_pc (env m) | _ \<Rightarrow> 0)"
    using assms(4) by (simp_all add: row_insn_def)
  note ok = assms(5) [unfolded decode_ok_def prod.case i(1)]
  have regs: "regs_ok i" using ok by simp
  have beyond: "env_pc (env m) + 2 \<noteq> env_pc (env m)" by simp
  show ?thesis
  proof (cases "row_handler r")
    case (H_r h)
    with assms(1) dep ok i alu_departs [OF assms(1) _ _ regs, of h v 2] show ?thesis by (simp add: arch Let_def)
  next
    case (H_i h)
    with dep ok i have "\<not> is_load h" by (auto simp: arch Let_def)
    with H_i assms(1) dep ok i alu_imm_departs [OF assms(1) _ _ _ regs, of h v 2] show ?thesis
      by (simp add: arch Let_def)
  next
    case (H_jump h)
    with ok have h: "h = Do_c_jal \<or> h = Do_c_jalr" by (cases h) auto
    with H_jump dep regs i jalr_departs [OF assms(1), of i h 2] show ?thesis
      by (auto simp: arch Let_def)
  next
    case Do_lui
    with dep i lui_departs [OF assms(1), of i v 2] show ?thesis by (simp add: arch Let_def)
  next
    case Do_empty
    with dep show ?thesis by (simp add: arch Let_def zero_extended_i_def)
  qed (use dep row_handlers [OF assms(2,3)] in \<open>simp_all add: arch Let_def\<close>)
qed

lemma hint_departs:
  assumes "insn_handler i = Do_illegal" and "insn_pc i = env_pc (env m)" and "rvc_lookup op = Some r"
    and "r \<noteq> Ebreak" and "rvc_hint op"
  shows "finish q i m \<noteq> rv_exec v 2 (rvc_arch op r) m"
proof -
  have "(\<exists>h d a b. rvc_arch op r = Rv_alu h d a b) \<or> (\<exists>h d a k. rvc_arch op r = Rv_alu_imm h d a k) \<or>
      (\<exists>d k. rvc_arch op r = Rv_lui d k)"
    using assms(3-5)
    by (auto simp: rvc_lookup_def rvc_q1_def rvc_q2_def rvc_cr_def rvc_hint_def rvc_arch_def is_load_def Let_def
        split: if_splits)
  then have "\<exists>d x. rv_exec v 2 (rvc_arch op r) m = Inr (retire (env_pc (env m) + 2) d x m)"
    by (elim disjE exE; simp add: Let_def; blast)
  then obtain d x where rv: "rv_exec v 2 (rvc_arch op r) m = Inr (retire (env_pc (env m) + 2) d x m)" by blast
  have "run_insn i m = Inr (raise_exc ILLEGAL_INST m)"
    using assms(1,2) by (simp add: run_insn_def on_env_def do_illegal_def raise_exc_def)
  then have "finish q i m = Inl Assert_failed \<or> finish q i m = Inr (raise_exc ILLEGAL_INST m)"
    using assms(1) by (simp add: finish_def straight_def)
  moreover have "retire (env_pc (env m) + 2) d x m \<noteq> raise_exc ILLEGAL_INST m"
    by (rule retire_not_raise) simp
  ultimately show ?thesis using rv by auto
qed


text \<open>The departures are exactly the steps on which the emulator and the reference machine differ.\<close>

lemma step_arch_iff:
  assumes "cpu_ok m" and code: "fixed_code (mem m) (guest_base m) (env_pc (env m)) = Some op"
  shows "isa_step m = map_option fst (rv_step v m) \<longleftrightarrow> \<not> departs v op m"
proof (cases "departs v op m")
  case True
  let ?c = "start_ctx (env_pc (env m))" and ?n = "of_nat (insn_len op) :: u64"
  obtain c' i where d: "decode_one ?c zero_insn op = (c', i)" by fastforce
  have ok: "decode_ok (insn_len op) ?c (c', i)"
    using decode_one_ok [OF zero_insn_regs, of op ?c] d by simp
  have "finish (env_pc (env m) + ?n) i m \<noteq> rv_exec v ?n (rv_decode op) m"
    using d
  proof (cases rule: decode_arch_cases)
    case reserved
    with True show ?thesis by (simp add: departs_def)
  next
    case (base f)
    with True departs_32 [OF assms(1) base(2,3)] show ?thesis by (simp add: departs_def)
  next
    case (rvc r)
    with True departs_16 [OF assms(1) rvc(2-4) ok [unfolded rvc(1)]] show ?thesis by (simp add: departs_def)
  next
    case system
    have fin: "finish q i m = rv_exec v n Rv_ecall m" for q n
      using ecall_arch(1) [OF assms(1) system(1,2)] .
    have "raise_exc U_ECALL m \<noteq> raise_exc x m" if "x \<noteq> U_ECALL" for x
    proof
      assume "raise_exc U_ECALL m = raise_exc x m"
      then have "env_exception (env (raise_exc U_ECALL m)) = env_exception (env (raise_exc x m))" by simp
      then show False using that by (simp add: raise_exc_def)
    qed
    with system(3) fin show ?thesis by auto
  next
    case ebreak
    have "env_pc (env m) + 2 \<noteq> env_pc (env m)" by simp
    with ebreak empty_departs [OF assms(1) ebreak(1), of "env_pc (env m) + 2" v 2 Rv_ebreak] show ?thesis by simp
  next
    case (hint r)
    with hint_departs [OF hint(1-4,6)] show ?thesis by simp
  next
    case addi16sp
    have "env_pc (env m) + 2 \<noteq> env_pc (env m)" by simp
    with addi16sp finish_moves [of i "env_pc (env m) + 2" m] show ?thesis by (simp add: straight_def)
  qed
  with True isa_step_finish [OF code refl] d show ?thesis by (simp add: rv_step_def code)
next
  case False
  with step_arch assms show ?thesis by simp
qed

end
