(* ===== verification/Decoder_Properties.thy ===== *)
theory Decoder_Properties
  imports Rvc_Spec Translate_Props
begin

text \<open>
  The properties of the decoder: every opcode decodes to a usable instruction, and decoding the
  encodings of the RISC-V manual gives back the instruction, its registers and its immediate.
\<close>

section \<open>Every opcode\<close>

text \<open>
  C24: Whatever the opcode, decoding a fresh slot yields an instruction with a handler, with register numbers
  below 32 and, for the handlers that write \<open>rd\<close> unchecked in the R and I formats, a destination that is
  not \<open>x0\<close>; an instruction that ends the block carries its address, and the context changes only as
  the instruction's kind demands.
\<close>

theorem every_opcode_decodes:
  "case decode_one c zero_insn opcode of (c', i) \<Rightarrow>
     insn_handler i \<noteq> Null_handler \<and> unat (rs1 i) < 32 \<and> unat (rs2 i) < 32 \<and> unat (rd i) < 32 \<and>
     (case insn_handler i of H_r _ \<Rightarrow> rd i \<noteq> 0 | H_i _ \<Rightarrow> rd i \<noteq> 0 | _ \<Rightarrow> True) \<and>
     (if ends_block (insn_handler i) then insn_pc i = tc_pc c else True) \<and>
     c' = (case insn_handler i of
         H_b h \<Rightarrow> c\<lparr>tc_link := True, pc_next0 := tc_pc c + simm i,
                   pc_next1 := tc_pc c + of_nat (insn_len opcode), tc_exit := True\<rparr>
       | H_jump h \<Rightarrow> if h = Do_jal \<or> h = Do_c_jal
           then c\<lparr>tc_link := True, pc_next0 := tc_pc c + simm i, tc_exit := True\<rparr> else c\<lparr>tc_exit := True\<rparr>
       | Do_illegal \<Rightarrow> c\<lparr>tc_exit := True\<rparr>
       | Do_ecall \<Rightarrow> c\<lparr>tc_exit := True\<rparr>
       | _ \<Rightarrow> c)"
proof -
  obtain c' i where d: "decode_one c zero_insn opcode = (c', i)" by fastforce
  with decode_one_ok [OF zero_insn_regs, of opcode c] show ?thesis
    by (cases "insn_handler i") (auto simp: decode_ok_def context_after_def regs_ok_def)
qed

section \<open>The compressed instructions\<close>

text \<open>
  C25: For each of the 65536 values, the decoder follows the tables of the RISC-V manual: it gives the handler, the
  registers, and an immediate put together from the bits the table names, with its sign, and makes opcodes without a row
  and reserved ones illegal.  It departs from the manual exactly as stated: \<open>c.ebreak\<close> becomes the empty instruction, the
  reserved \<open>c.addi16sp\<close> by zero is executed, and the hints (\<open>c.li\<close>, \<open>c.lui\<close>, \<open>c.slli\<close>, \<open>c.mv\<close> and \<open>c.add\<close> to
  \<open>x0\<close>), no-operations in the manual, are illegal.
\<close>

theorem compressed_table:
  "let i = snd (decode_insn16 c zero_insn op) in
   case rvc_lookup op of
     None \<Rightarrow> insn_handler i = Do_illegal \<and> insn_pc i = tc_pc c
   | Some Ebreak \<Rightarrow> i = zero_insn\<lparr>insn_handler := Do_empty\<rparr>
   | Some r \<Rightarrow>
       if rvc_reserved op \<and> \<not> rvc_addi16sp_0 op \<or> rvc_hint op then insn_handler i = Do_illegal \<and> insn_pc i = tc_pc c
       else i = row_insn (tc_pc c) op r"
  using decode_insn16_rvc [of c op] unfolding rvc_ok_def illegal_insn_def Let_def .

section \<open>Round trips\<close>

text \<open>
  Decoding the R-format encoding of any of the twenty-eight register-register instructions
  gives its handler and its three registers back; with \<open>rd = x0\<close> the instruction becomes a no-operation.
\<close>

theorem r_format_round_trip:
  "case r_code h of (f7, f3, opc) \<Rightarrow>
     decode_insn32 c i (GEN_R f7 r2 r1 f3 d opc) =
       (c, i\<lparr>rs1 := take_bit 5 r1, rd := take_bit 5 d, rs2 := take_bit 5 r2,
             insn_handler := if take_bit 5 d = 0 then Do_empty else H_r h\<rparr>)"
  by (auto simp: decode_GEN_R gen_trans_r_def decode_insn32_extract_r_def GEN_R_masks
      split: prod.split)

text \<open>
  Decoding the I-format encoding of any of the twenty loads and immediate instructions gives its
  handler, its registers and its sign-extended 12-bit immediate back, for a shift the amount with its
  function bits; with \<open>rd = x0\<close> the instruction becomes a no-operation.
\<close>

theorem i_format_round_trip:
  "case i_code h of (f3, opc) \<Rightarrow>
     decode_insn32 c i (GEN_I (i_imm h im) r1 f3 d opc) =
       (c, i\<lparr>rs1 := take_bit 5 r1, rd := take_bit 5 d, imm := signed_take_bit 11 (i_imm h im),
             insn_handler := if take_bit 5 d = 0 then Do_empty else H_i h\<rparr>)"
proof -
  have r: "extract32 (GEN_I im r1 f3 d opc) 15 5 = take_bit 5 r1" "extract32 (GEN_I im r1 f3 d opc) 7 5 = take_bit 5 d"
    for im r1 f3 d opc
    unfolding GEN_I_R by (simp_all add: GEN_R_masks)
  show ?thesis
    by (auto simp: decode_GEN_I gen_trans_i_def decode_insn32_extract_i_def r imm_I split: prod.split)
qed

text \<open>
  Stores and branches: the immediate that the S and B formats scatter over the word comes back
  sign-extended, from 12 bits and from 13 bits without the lowest; a branch records both successors.
\<close>

theorem s_b_format_round_trip:
  "decode_insn32 c i (GEN_S im r2 r1 (s_code h) 0x23) =
     (c, i\<lparr>rs1 := take_bit 5 r1, imm := signed_take_bit 11 im, rs2 := take_bit 5 r2, insn_handler := H_s h\<rparr>) \<and>
   (let i' = i\<lparr>rs1 := take_bit 5 r1, imm := signed_take_bit 12 (im AND NOT 1), rs2 := take_bit 5 r2\<rparr> in
    hb \<in> {Do_c_beq, Do_c_bne} \<or>
    decode_insn32 c i (GEN_B im r2 r1 (b_code hb) 0x63) =
     (c\<lparr>tc_link := True, pc_next0 := tc_pc c + simm i', pc_next1 := tc_pc c + 4, tc_exit := True\<rparr>,
      i'\<lparr>insn_handler := H_b hb, insn_pc := tc_pc c\<rparr>))"
proof -
  have clear: "clear_lsb im = im AND NOT 1"
    by (rule bit_word_eqI) (auto simp: bits bit_and_iff bit_not_iff bit_1_iff)
  have "decode_insn32_extract_s i (GEN_S im r2 r1 (s_code h) 0x23) =
      i\<lparr>rs1 := take_bit 5 r1, imm := signed_take_bit 11 im, rs2 := take_bit 5 r2\<rparr>"
    unfolding decode_insn32_extract_s_def imm_S by (simp add: GEN_S_def GEN_R_masks)
  moreover have "decode_insn32_extract_b i (GEN_B im r2 r1 f3 0x63) =
      i\<lparr>rs1 := take_bit 5 r1, imm := signed_take_bit 12 (im AND NOT 1), rs2 := take_bit 5 r2\<rparr>" for f3
    unfolding decode_insn32_extract_b_def imm_B clear by (simp add: GEN_B_def GEN_R_masks)
  ultimately show ?thesis
    by (cases "hb = Do_c_beq \<or> hb = Do_c_bne")
      (auto simp: decode_GEN_S decode_GEN_B gen_trans_s_def gen_trans_b_def Let_def)
qed

text \<open>
  \<open>lui\<close>, \<open>auipc\<close>, \<open>jal\<close> and \<open>jalr\<close>: the upper 20 bits, the 21-bit jump offset and the 12-bit offset
  come back with their sign; the jumps end the block, and \<open>jal\<close> records its target as the successor.
\<close>

theorem u_j_format_round_trip:
  "decode_insn32 c i (GEN_U im d 0x37) =
     (c, i\<lparr>rd := take_bit 5 d, imm := im AND 0xfffff000, insn_handler := Do_lui\<rparr>) \<and>
   decode_insn32 c i (GEN_U im d 0x17) =
     (c, i\<lparr>rd := take_bit 5 d, imm := im AND 0xfffff000, insn_handler := Do_auipc, insn_pc := tc_pc c\<rparr>) \<and>
   (let i' = i\<lparr>rd := take_bit 5 d, imm := signed_take_bit 20 (im AND NOT 1)\<rparr> in
    decode_insn32 c i (GEN_J im d 0x6f) =
     (c\<lparr>tc_link := True, pc_next0 := tc_pc c + simm i', tc_exit := True\<rparr>,
      i'\<lparr>insn_handler := H_jump Do_jal, insn_pc := tc_pc c\<rparr>)) \<and>
   decode_insn32 c i (gen_jalr d im r1) =
     (c\<lparr>tc_exit := True\<rparr>,
      i\<lparr>rs1 := take_bit 5 r1, rd := take_bit 5 d, imm := signed_take_bit 11 im,
        insn_handler := H_jump Do_jalr, insn_pc := tc_pc c\<rparr>)"
proof -
  have clear: "clear_lsb im = im AND NOT 1"
    by (rule bit_word_eqI) (auto simp: bits bit_and_iff bit_not_iff bit_1_iff)
  have m: "0xfffff000 = (push_bit 12 (mask 20) :: u32)" by (simp add: mask_eq_exp_minus_1)
  have upper: "push_bit 12 (drop_bit 12 im) = im AND 0xfffff000"
    unfolding m by (rule bit_word_eqI) (auto simp: bit_iffs bit_mask_iff)
  have r: "extract32 (GEN_I im r1 f3 d opc) 15 5 = take_bit 5 r1" "extract32 (GEN_I im r1 f3 d opc) 7 5 = take_bit 5 d"
    for im r1 f3 d opc
    unfolding GEN_I_R by (simp_all add: GEN_R_masks)
  have j: "decode_insn32_extract_j i (GEN_J im d 0x6f) =
      i\<lparr>rd := take_bit 5 d, imm := signed_take_bit 20 (im AND NOT 1)\<rparr>"
    unfolding decode_insn32_extract_j_def imm_J clear by (simp add: GEN_J_masks)
  show ?thesis
    by (simp add: gen_jalr_def decode_GEN_U_J trans_defs decode_insn32_extract_u_def
        decode_insn32_extract_i_def imm_U imm_I GEN_U_masks upper r j Let_def)
qed

text \<open>
  CSR instructions give back the number and the source register or immediate; atomic
  operations their registers, whatever the ordering bits.
\<close>

theorem csr_amo_round_trip:
  "decode_insn32 c i (GEN_I num r1 (csr_code hc) d 0x73) =
     (c, i\<lparr>rs1 := take_bit 5 r1, rd := take_bit 5 d, imm := take_bit 12 num, insn_handler := H_csr hc\<rparr>) \<and>
   (case atom_code h of (f5, f3) \<Rightarrow>
     if h = Do_lr_w \<or> h = Do_lr_d
     then decode_insn32 c i (GEN_R (push_bit 2 f5 OR take_bit 2 aqrl) 0 r1 f3 d 0x2f) =
       (c, i\<lparr>rd := take_bit 5 d, rs1 := take_bit 5 r1, insn_handler := H_atom h\<rparr>)
     else decode_insn32 c i (GEN_R (push_bit 2 f5 OR take_bit 2 aqrl) r2 r1 f3 d 0x2f) =
       (c, i\<lparr>rs2 := take_bit 5 r2, rd := take_bit 5 d, rs1 := take_bit 5 r1, insn_handler := H_atom h\<rparr>))"
proof
  have r: "extract32 (GEN_I im r1 f3 d opc) 15 5 = take_bit 5 r1" "extract32 (GEN_I im r1 f3 d opc) 7 5 = take_bit 5 d"
    for im r1 f3 d opc
    unfolding GEN_I_R by (simp_all add: GEN_R_masks)
  show "decode_insn32 c i (GEN_I num r1 (csr_code hc) d 0x73) =
     (c, i\<lparr>rs1 := take_bit 5 r1, rd := take_bit 5 d, imm := take_bit 12 num, insn_handler := H_csr hc\<rparr>)"
    by (simp add: decode_GEN_csr gen_trans_csr_def decode_insn32_extract_csr_def csr_field r)
  obtain f5 f3 where code: "atom_code h = (f5, f3)" by fastforce
  have "take_bit 5 f5 = f5" using code by (cases h) auto
  moreover have "take_bit 5 (drop_bit 2 (push_bit 2 f5 OR take_bit 2 aqrl)) = take_bit 5 f5"
    by (rule bit_word_eqI) (auto simp: bit_iffs)
  ultimately have f7: "take_bit 5 (drop_bit 2 (push_bit 2 f5 OR take_bit 2 aqrl)) = f5" by simp
  define f7 where "f7 = push_bit 2 f5 OR take_bit 2 aqrl"
  note dec = decode_GEN_atom [OF code _ f7 [folded f7_def]]
  show "case atom_code h of (f5, f3) \<Rightarrow>
     if h = Do_lr_w \<or> h = Do_lr_d
     then decode_insn32 c i (GEN_R (push_bit 2 f5 OR take_bit 2 aqrl) 0 r1 f3 d 0x2f) =
       (c, i\<lparr>rd := take_bit 5 d, rs1 := take_bit 5 r1, insn_handler := H_atom h\<rparr>)
     else decode_insn32 c i (GEN_R (push_bit 2 f5 OR take_bit 2 aqrl) r2 r1 f3 d 0x2f) =
       (c, i\<lparr>rs2 := take_bit 5 r2, rd := take_bit 5 d, rs1 := take_bit 5 r1, insn_handler := H_atom h\<rparr>)"
    unfolding code prod.case f7_def [symmetric]
    by (cases h) (simp_all add: dec extract_defs GEN_R_masks)
qed

text \<open>
  The word that \<open>tests/test_hello.c\<close> assembles for \<open>ret\<close> is 0x8067 and decodes to the indirect jump through
  \<open>ra\<close> that keeps no link.
\<close>

theorem gen_ret_decodes:
  "gen_ret = 0x8067 \<and>
   decode_one c zero_insn gen_ret = (c\<lparr>tc_exit := True\<rparr>,
     \<lparr>rs1 = 1, rs2 = 0, rd = 0, imm = 0, insn_pc = tc_pc c, insn_handler = H_jump Do_jalr\<rparr>)"
proof -
  have g: "gen_ret = 0x8067" by (simp add: gen_ret_def gen_jalr_def GEN_I_def)
  have m: "gen_ret AND OPCODE_MASK = 0x67" "gen_ret AND FUNCT3_MASK = 0"
    by (simp_all add: g OPCODE_MASK_def FUNCT3_MASK_def)
  have f: "extract32 gen_ret 15 5 = 1" "extract32 gen_ret 7 5 = 0" "sextract32 gen_ret 20 12 = 0"
    by (simp_all add: g extract32_def sextract32_def mask_eq_exp_minus_1)
  have "decode_one c zero_insn gen_ret = trans_jalr c zero_insn gen_ret"
    by (simp add: decode_one_def insn_len_def decode_insn32_def decode_jalr_def m) (simp add: g)
  then show ?thesis
    by (simp add: g [symmetric] trans_jalr_def decode_insn32_extract_i_def f zero_insn_def)
qed

section \<open>Bit fields\<close>

text \<open>
  C27: A deposited field is extracted again, cut to its width, and the bits outside it stay; the signed
  extraction is the two's complement reading of the same bits.
\<close>

theorem bit_fields:
  assumes "field_ok s l"
  shows "extract32 (deposit32 v s l f) s l = take_bit l f \<and>
    (\<forall>n. n < s \<or> s + l \<le> n \<longrightarrow> bit (deposit32 v s l f) n = bit v n) \<and>
    sextract32 v s l = signed_take_bit (l - 1) (extract32 v s l)"
proof (intro conjI)
  show "extract32 (deposit32 v s l f) s l = take_bit l f"
    using assms by (intro bit_word_eqI) (auto simp: bits bit_take_bit_iff)
  show "\<forall>n. n < s \<or> s + l \<le> n \<longrightarrow> bit (deposit32 v s l f) n = bit v n"
    using assms by (auto simp: bits)
  have l: "0 < l" using assms by (simp add: field_ok_def)
  show "sextract32 v s l = signed_take_bit (l - 1) (extract32 v s l)"
  proof (rule bit_word_eqI)
    fix n :: nat assume n: "n < LENGTH(32)"
    consider "n < l - 1" | "n = l - 1" | "l \<le> n" by linarith
    then show "bit (sextract32 v s l) n \<longleftrightarrow> bit (signed_take_bit (l - 1) (extract32 v s l)) n"
      using assms l n by cases (auto simp: bits bit_signed_take_bit_iff min_def ac_simps)
  qed
qed

theorem bit_fields_witness:
  "extract32 (deposit32 0xffffffff 5 7 0x123) 5 7 = take_bit 7 0x123"
  using bit_fields [of 5 7] by (simp add: field_ok_def)

end
