(* ===== verification/Mmap.thy ===== *)
theory Mmap
  imports Cpu_State
begin

text \<open>
  The mapping functions of \<open>mmap.c\<close>, compiled as the Makefile does with \<open>-std=c99\<close>, so that
  \<open>__STRICT_ANSI__\<close> is defined: anonymous memory is a private mapping of \<open>/dev/zero\<close>.  The system calls of
  the host are not part of the program; they are the fields of \<open>os\<close>, over a state \<open>'w\<close> of the outside
  world.  The error record \<open>errinfo_t\<close> only carries the text of a message and is left out.
\<close>

section \<open>The host and the process\<close>

record host_stat =
  st_dev :: u64
  st_ino :: u64
  st_mode :: u32
  st_nlink :: u64
  st_uid :: u32
  st_gid :: u32
  st_rdev :: u64
  st_size :: u64
  st_blksize :: u64
  st_blocks :: u64
  st_atime :: u64
  st_atimensec :: u64
  st_mtime :: u64
  st_mtimensec :: u64
  st_ctime :: u64
  st_ctimensec :: u64

text \<open>
  Each call gets the world and the memory it may look at; \<open>os_mmap\<close> and \<open>os_mprotect\<close> return a new memory.
  Arguments and results have the width of the C prototypes.  \<open>os_read\<close> gives the bytes it put into the
  buffer or the value of \<open>errno\<close>, \<open>os_malloc\<close> whether the memory was granted.
\<close>

record 'w os =
  os_mmap :: "'w \<Rightarrow> host_mem \<Rightarrow> u64 \<Rightarrow> u64 \<Rightarrow> c_int \<Rightarrow> c_int \<Rightarrow> c_int \<Rightarrow> u64 \<Rightarrow> u64 \<times> host_mem \<times> 'w"
  os_mprotect :: "'w \<Rightarrow> host_mem \<Rightarrow> u64 \<Rightarrow> u64 \<Rightarrow> c_int \<Rightarrow> c_int \<times> host_mem \<times> 'w"
  os_open_zero :: "'w \<Rightarrow> c_int \<times> 'w"
  os_close :: "'w \<Rightarrow> c_int \<Rightarrow> 'w"
  os_access :: "'w \<Rightarrow> host_mem \<Rightarrow> u64 \<Rightarrow> c_int \<Rightarrow> c_int \<times> 'w"
  os_fstat :: "'w \<Rightarrow> c_int \<Rightarrow> c_int \<times> host_stat \<times> 'w"
  os_write :: "'w \<Rightarrow> host_mem \<Rightarrow> c_int \<Rightarrow> u64 \<Rightarrow> u64 \<Rightarrow> u64 \<times> 'w"
  os_read :: "'w \<Rightarrow> c_int \<Rightarrow> u64 \<Rightarrow> (c_int + u8 list) \<times> 'w"
  os_lseek_set :: "'w \<Rightarrow> c_int \<Rightarrow> u64 \<Rightarrow> u64 \<times> 'w"
  os_malloc :: "'w \<Rightarrow> u64 \<Rightarrow> bool \<times> 'w"
  os_getcwd :: "'w \<Rightarrow> u64 \<Rightarrow> u8 list option \<times> 'w"
  os_open_read :: "'w \<Rightarrow> u8 list \<Rightarrow> c_int \<times> 'w"

text \<open>The state of the process outside \<open>cpu.c\<close>: the machine, the world and the static variables.\<close>

record 'w proc =
  mach :: machine
  world :: 'w
  mmap_next_start :: u64
  target_brk :: u64
  initial_target_brk :: u64

definition set_mem :: "host_mem \<Rightarrow> 'w \<Rightarrow> 'w proc \<Rightarrow> 'w proc" where
  "set_mem h w p = p\<lparr>mach := (mach p)\<lparr>mem := h\<rparr>, world := w\<rparr>"

definition MAP_FAILED :: u64 where "MAP_FAILED = - 1"
definition MAP_PRIVATE :: c_int where "MAP_PRIVATE = 0x02"
definition MAP_FIXED :: c_int where "MAP_FIXED = 0x10"
definition PROT_NONE :: c_int where "PROT_NONE = 0"
definition PROT_READ :: c_int where "PROT_READ = 1"
definition PROT_WRITE :: c_int where "PROT_WRITE = 2"
definition PROT_EXEC :: c_int where "PROT_EXEC = 4"

definition TASK_UNMAPPED_BASE :: u64 where "TASK_UNMAPPED_BASE = 0x4000000000"
definition HOST_PAGE_SIZE :: u64 where "HOST_PAGE_SIZE = 4096"
definition HOST_PAGE_ALIGN :: "u64 \<Rightarrow> u64" where "HOST_PAGE_ALIGN addr = ROUND_UP addr HOST_PAGE_SIZE"

section \<open>Operations\<close>

definition host_mmap ::
  "'w os \<Rightarrow> u64 \<Rightarrow> u64 \<Rightarrow> c_int \<Rightarrow> c_int \<Rightarrow> c_int \<Rightarrow> u64 \<Rightarrow> 'w proc \<Rightarrow> u64 \<times> 'w proc" where
  "host_mmap os addr len prot flags fd offset p =
    (let (fd', w) = (if fd <s 0 then os_open_zero os (world p) else (fd, world p)) in
     if fd <s 0 \<and> fd' = - 1 then (MAP_FAILED, p\<lparr>world := w\<rparr>)
     else
       (let (r, h, w) = os_mmap os w (mem (mach p)) addr len prot flags fd' offset;
            w = (if fd <s 0 then os_close os w fd' else w)
        in (r, set_mem h w p)))"

definition mmap_find_vma :: "'w os \<Rightarrow> u64 \<Rightarrow> u64 \<Rightarrow> 'w proc \<Rightarrow> u64 \<times> 'w proc" where
  "mmap_find_vma os addr len p =
    (let gb = guest_base (mach p);
         addr = (if addr = 0 then mmap_next_start p else addr AND - HOST_PAGE_SIZE);
         len = HOST_PAGE_ALIGN len;
         (q, p) = host_mmap os (g2h gb addr) len PROT_NONE (MAP_PRIVATE OR MAP_FIXED) (- 1) 0 p
     in if q = MAP_FAILED then (- 1, p)
        else if h2g gb q = mmap_next_start p \<and> addr \<ge> TASK_UNMAPPED_BASE
        then (addr, p\<lparr>mmap_next_start := mmap_next_start p + len\<rparr>)
        else (addr, p))"

definition target_mmap ::
  "'w os \<Rightarrow> u64 \<Rightarrow> u64 \<Rightarrow> c_int \<Rightarrow> c_int \<Rightarrow> c_int \<Rightarrow> u64 \<Rightarrow> 'w proc \<Rightarrow> u64 \<times> 'w proc" where
  "target_mmap os addr len prot flags fd offset p =
    (let (addr, p) = (if flags AND MAP_FIXED = 0 then mmap_find_vma os addr len p else (addr, p)) in
     if flags AND MAP_FIXED = 0 \<and> addr = - 1 then (- 1, p)
     else
       (let flags = (if flags AND MAP_FIXED = 0 then flags OR MAP_FIXED else flags);
            (q, p) = host_mmap os (g2h (guest_base (mach p)) addr) len prot flags fd offset p
        in if q = MAP_FAILED then (- 1, p) else (addr, p)))"

definition target_mprotect :: "'w os \<Rightarrow> u64 \<Rightarrow> u64 \<Rightarrow> c_int \<Rightarrow> 'w proc \<Rightarrow> c_int \<times> 'w proc" where
  "target_mprotect os addr len prot p =
    (let (ret, h, w) = os_mprotect os (world p) (mem (mach p)) (g2h (guest_base (mach p)) addr) len prot
     in (if ret = - 1 then - 1 else 0, set_mem h w p))"

text \<open>\<open>memcpy\<close> from a host object into guest memory; it returns its first argument, so the check never fails.\<close>

definition target_memory_copy :: "u64 \<Rightarrow> u8 list \<Rightarrow> 'w proc \<Rightarrow> (c_int \<times> 'w proc) result" where
  "target_memory_copy addr src p =
    bind_result (of_access (store_bytes (mem (mach p)) (g2h (guest_base (mach p)) addr) src))
      (\<lambda>h. Inr (0, set_mem h (world p) p))"

section \<open>Allocation without an address\<close>

text \<open>
  What the allocator relies on, from the manual page of \<open>mmap\<close>: a call with \<open>MAP_FIXED\<close> returns the
  address it was given or fails.
\<close>

definition mmap_fixed_addr :: "'w os \<Rightarrow> bool" where
  "mmap_fixed_addr os \<longleftrightarrow> (\<forall>w h addr len prot flags fd offset r h' w'.
     os_mmap os w h addr len prot flags fd offset = (r, h', w') \<longrightarrow> flags AND MAP_FIXED \<noteq> 0 \<longrightarrow>
     r = addr \<or> r = MAP_FAILED)"

lemma set_mem_sel [simp]:
  "mmap_next_start (set_mem h w p) = mmap_next_start p"
  "guest_base (mach (set_mem h w p)) = guest_base (mach p)"
  "mem (mach (set_mem h w p)) = h" "world (set_mem h w p) = w"
  "env (mach (set_mem h w p)) = env (mach p)"
  "target_brk (set_mem h w p) = target_brk p" "initial_target_brk (set_mem h w p) = initial_target_brk p"
  by (simp_all add: set_mem_def)

lemma host_mmap_frame:
  assumes "host_mmap os addr len prot flags fd offset p = (r, p')"
  shows "mmap_next_start p' = mmap_next_start p \<and> guest_base (mach p') = guest_base (mach p) \<and>
    env (mach p') = env (mach p) \<and> target_brk p' = target_brk p \<and>
    initial_target_brk p' = initial_target_brk p"
  using assms by (auto simp: host_mmap_def Let_def split: prod.splits if_splits)

lemma host_mmap_fixed:
  assumes "mmap_fixed_addr os" and "flags AND MAP_FIXED \<noteq> 0"
    and "host_mmap os addr len prot flags fd offset p = (r, p')"
  shows "r = addr \<or> r = MAP_FAILED"
  using assms(3,2) assms(1) [unfolded mmap_fixed_addr_def, rule_format]
  by (auto simp: host_mmap_def Let_def split: prod.splits if_splits)

lemma fixed_flags: "(MAP_PRIVATE OR MAP_FIXED) AND MAP_FIXED \<noteq> 0" "(flags OR MAP_FIXED) AND MAP_FIXED \<noteq> 0"
proof -
  have "bit ((f OR MAP_FIXED) AND MAP_FIXED) 4" for f :: c_int
    by (simp add: bit_or_iff bit_and_iff MAP_FIXED_def bit_numeral_rec)
  then show "(MAP_PRIVATE OR MAP_FIXED) AND MAP_FIXED \<noteq> 0" "(flags OR MAP_FIXED) AND MAP_FIXED \<noteq> 0"
    by (metis bit_0_eq bot_apply bot_bool_def)+
qed

lemma mmap_alloc_step:
  assumes "mmap_fixed_addr os" and "flags AND MAP_FIXED = 0" and "mmap_next_start p \<ge> TASK_UNMAPPED_BASE"
    and "target_mmap os 0 len prot flags fd offset p = (addr, p')" and "addr \<noteq> - 1"
  shows "addr = mmap_next_start p \<and> mmap_next_start p' = mmap_next_start p + HOST_PAGE_ALIGN len"
proof -
  let ?gb = "guest_base (mach p)" and ?next = "mmap_next_start p"
  obtain q p1 where h: "host_mmap os (g2h ?gb ?next) (HOST_PAGE_ALIGN len) PROT_NONE
      (MAP_PRIVATE OR MAP_FIXED) (- 1) 0 p = (q, p1)" by fastforce
  note f = host_mmap_frame [OF h] host_mmap_fixed [OF assms(1) fixed_flags(1) h]
  obtain q2 p2 where h2: "\<And>p3. p3 = p1\<lparr>mmap_next_start := ?next + HOST_PAGE_ALIGN len\<rparr> \<Longrightarrow>
      host_mmap os (g2h ?gb ?next) len prot (flags OR MAP_FIXED) fd offset p3 = (q2, p2)"
    by (metis prod.exhaust)
  note f2 = host_mmap_frame [OF h2 [OF refl]]
  show ?thesis
    using assms(2-5) h f f2 h2 [OF refl]
    by (auto simp: target_mmap_def mmap_find_vma_def Let_def split: if_splits)
qed

end
