(* ===== verification/File_Io.thy ===== *)
theory File_Io
  imports Mmap
begin

text \<open>
  Reading files: \<open>readn\<close> and \<open>pread\<close> of \<open>util.c\<close>, which the strict ANSI build defines itself.  A read that was
  interrupted is tried again, and nothing bounds how often, so \<open>readn\<close> is a partial function.  The theory also
  holds the errors the loader and the options report.
\<close>

section \<open>Errors\<close>

text \<open>
  The reasons \<open>get_errinfo\<close> and \<open>get_syserr\<close> record before a function gives up; \<open>Sys_error\<close> stands for the text
  of \<open>errno\<close>.  A function that fails this way is different from one that stops the whole process.
  \<open>Undefined\<close> is what C leaves undefined: an access past the end of a local array, a null string.
\<close>

datatype load_error =
    Sys_error | Bad_ident | Bad_ehdr | Bad_phdrs_size | No_memory | Short_phdrs
  | Unreadable_segment | No_stack | Invalid_option "u8 list" | No_program | Null_path

datatype failure = Fault stop | Fail load_error | Undefined

type_synonym ('w, 'a) outcome = "(failure + 'a) \<times> 'w proc"

definition then_do :: "('w, 'a) outcome \<Rightarrow> ('a \<Rightarrow> 'w proc \<Rightarrow> ('w, 'b) outcome) \<Rightarrow> ('w, 'b) outcome" where
  "then_do r f = (case r of (Inl e, p) \<Rightarrow> (Inl e, p) | (Inr a, p) \<Rightarrow> f a p)"

lemma then_do_simps [simp]:
  "then_do (Inl e, p) f = (Inl e, p)" "then_do (Inr a, p) f = f a p"
  by (simp_all add: then_do_def)

lemma then_do_Inr:
  "then_do r f = (Inr b, p') \<longleftrightarrow> (\<exists>a p. r = (Inr a, p) \<and> f a p = (Inr b, p'))"
  by (cases r; cases "fst r") auto

section \<open>Operations\<close>

definition EINTR :: c_int where "EINTR = 4"
definition EAGAIN :: c_int where "EAGAIN = 11"

definition retry :: "c_int \<Rightarrow> bool" where
  "retry errno \<longleftrightarrow> errno = EINTR \<or> errno = EAGAIN"

partial_function (option) readn :: "'w os \<Rightarrow> c_int \<Rightarrow> u64 \<Rightarrow> 'w \<Rightarrow> ((c_int + u8 list) \<times> 'w) option" where
  "readn os fd count w =
    (case os_read os w fd count of
       (Inl errno, w) \<Rightarrow> if retry errno then readn os fd count w else Some (Inl errno, w)
     | (Inr bs, w) \<Rightarrow> Some (Inr bs, w))"

text \<open>Reading at an offset moves the file position and sets it back to the start; \<open>None\<close> inside is the result -1.\<close>

definition pread :: "'w os \<Rightarrow> c_int \<Rightarrow> u64 \<Rightarrow> u64 \<Rightarrow> 'w \<Rightarrow> (u8 list option \<times> 'w) option" where
  "pread os fd count offset w =
    (let (r, w) = os_lseek_set os w fd offset in
     if r = - 1 then Some (None, w)
     else (case readn os fd count w of
         None \<Rightarrow> None
       | Some (n, w) \<Rightarrow>
           (let (r, w) = os_lseek_set os w fd 0 in
            Some (if r = - 1 then None else (case n of Inl _ \<Rightarrow> None | Inr bs \<Rightarrow> Some bs), w))))"

section \<open>Retrying ends when the interruptions do\<close>

text \<open>The world after \<open>k\<close> interrupted reads, and when the next one is interrupted too.\<close>

fun after_reads :: "'w os \<Rightarrow> c_int \<Rightarrow> u64 \<Rightarrow> nat \<Rightarrow> 'w \<Rightarrow> 'w" where
  "after_reads os fd count 0 w = w"
| "after_reads os fd count (Suc k) w = after_reads os fd count k (snd (os_read os w fd count))"

definition interrupted :: "'w os \<Rightarrow> c_int \<Rightarrow> u64 \<Rightarrow> 'w \<Rightarrow> bool" where
  "interrupted os fd count w \<longleftrightarrow> (case fst (os_read os w fd count) of Inl e \<Rightarrow> retry e | Inr _ \<Rightarrow> False)"

lemma readn_step:
  "readn os fd count w =
    (if interrupted os fd count w then readn os fd count (snd (os_read os w fd count))
     else Some (os_read os w fd count))"
  by (subst readn.simps) (auto simp: interrupted_def split: prod.split sum.split)

lemma readn_retries:
  assumes "\<forall>j<k. interrupted os fd count (after_reads os fd count j w)"
    and "\<not> interrupted os fd count (after_reads os fd count k w)"
  shows "readn os fd count w = Some (os_read os (after_reads os fd count k w) fd count)"
  using assms
proof (induction k arbitrary: w)
  case 0
  then show ?case by (simp add: readn_step)
next
  case (Suc k)
  from Suc.prems(1) have "interrupted os fd count w" by (metis after_reads.simps(1) zero_less_Suc)
  moreover have "readn os fd count (snd (os_read os w fd count)) =
      Some (os_read os (after_reads os fd count k (snd (os_read os w fd count))) fd count)"
  proof (rule Suc.IH)
    show "\<forall>j<k. interrupted os fd count (after_reads os fd count j (snd (os_read os w fd count)))"
      using Suc.prems(1) by (metis Suc_less_eq after_reads.simps(2))
  qed (use Suc.prems(2) in simp)
  ultimately show ?case by (simp add: readn_step [of os fd count w])
qed

text \<open>The result is never an interruption.\<close>

lemma readn_not_interrupted:
  assumes "readn os fd count w = Some (r, w')"
  shows "case r of Inl e \<Rightarrow> \<not> retry e | Inr _ \<Rightarrow> True"
proof -
  have "case fst q of Inl e \<Rightarrow> \<not> retry e | Inr _ \<Rightarrow> True" if "readn os fd count w = Some q" for q
  proof (rule readn.raw_induct [where P = "\<lambda>os fd count w q. case fst q of Inl e \<Rightarrow> \<not> retry e | Inr _ \<Rightarrow> True", OF _ that])
    fix f :: "'a os \<Rightarrow> c_int \<Rightarrow> u64 \<Rightarrow> 'a \<Rightarrow> ((c_int + u8 list) \<times> 'a) option" and os fd count w q
    assume "\<And>os fd count w q. f os fd count w = Some q \<Longrightarrow> case fst q of Inl e \<Rightarrow> \<not> retry e | Inr _ \<Rightarrow> True"
      and "(case os_read os w fd count of
        (Inl errno, w) \<Rightarrow> if retry errno then f os fd count w else Some (Inl errno, w)
      | (Inr bs, w) \<Rightarrow> Some (Inr bs, w)) = Some q"
    moreover obtain r w1 where "os_read os w fd count = (r, w1)" by fastforce
    ultimately show "case fst q of Inl e \<Rightarrow> \<not> retry e | Inr _ \<Rightarrow> True"
      by (cases r; cases q) (auto split: if_splits)
  qed
  from this [OF assms] show ?thesis by simp
qed

end
