(* ===== verification/Elf_Format.thy ===== *)
theory Elf_Format
  imports File_Io
begin

text \<open>
  The file format of \<open>include/elf.h\<close> in the configuration for 64-bit little-endian RISC-V, and the checks of
  the header in \<open>elfload.c\<close>.  The C code reads a header by casting a pointer to the bytes of the file; here
  the bytes are taken apart at the offsets of the structure, which has no padding.
\<close>

section \<open>Headers\<close>

record elf_ehdr_t =
  e_ident :: "u8 list"
  e_type :: u16
  e_machine :: u16
  e_version :: u32
  e_entry :: u64
  e_phoff :: u64
  e_shoff :: u64
  e_flags :: u32
  e_ehsize :: u16
  e_phentsize :: u16
  e_phnum :: u16
  e_shentsize :: u16
  e_shnum :: u16
  e_shstrndx :: u16

record elf_phdr_t =
  p_type :: u32
  p_flags :: u32
  p_offset :: u64
  p_vaddr :: u64
  p_paddr :: u64
  p_filesz :: u64
  p_memsz :: u64
  p_align :: u64

definition EI_CLASS :: nat where "EI_CLASS = 4"
definition EI_DATA :: nat where "EI_DATA = 5"
definition EI_VERSION :: nat where "EI_VERSION = 6"
definition ELFCLASS64 :: u8 where "ELFCLASS64 = 2"
definition ELFDATA2LSB :: u8 where "ELFDATA2LSB = 1"
definition EV_CURRENT :: u32 where "EV_CURRENT = 1"
definition ET_EXEC :: u16 where "ET_EXEC = 2"
definition ET_DYN :: u16 where "ET_DYN = 3"
definition EM_RISCV :: u16 where "EM_RISCV = 243"
definition PT_LOAD :: u32 where "PT_LOAD = 1"
definition PT_INTERP :: u32 where "PT_INTERP = 3"
definition PT_GNU_STACK :: u32 where "PT_GNU_STACK = 0x6474e551"
definition PF_X :: u32 where "PF_X = 1"
definition PF_W :: u32 where "PF_W = 2"
definition PF_R :: u32 where "PF_R = 4"

definition SIZEOF_EHDR :: nat where "SIZEOF_EHDR = 64"
definition SIZEOF_PHDR :: nat where "SIZEOF_PHDR = 56"
definition SIZEOF_AUXV :: nat where "SIZEOF_AUXV = 16"

definition get_le :: "u8 list \<Rightarrow> nat \<Rightarrow> nat \<Rightarrow> u64" where
  "get_le bs off n = le_word (take n (drop off bs))"

definition ehdr_of_bytes :: "u8 list \<Rightarrow> elf_ehdr_t" where
  "ehdr_of_bytes bs =
     \<lparr>e_ident = take 16 bs, e_type = ucast (get_le bs 16 2), e_machine = ucast (get_le bs 18 2),
      e_version = ucast (get_le bs 20 4), e_entry = get_le bs 24 8, e_phoff = get_le bs 32 8,
      e_shoff = get_le bs 40 8, e_flags = ucast (get_le bs 48 4), e_ehsize = ucast (get_le bs 52 2),
      e_phentsize = ucast (get_le bs 54 2), e_phnum = ucast (get_le bs 56 2),
      e_shentsize = ucast (get_le bs 58 2), e_shnum = ucast (get_le bs 60 2),
      e_shstrndx = ucast (get_le bs 62 2)\<rparr>"

definition phdr_of_bytes :: "u8 list \<Rightarrow> elf_phdr_t" where
  "phdr_of_bytes bs =
     \<lparr>p_type = ucast (get_le bs 0 4), p_flags = ucast (get_le bs 4 4), p_offset = get_le bs 8 8,
      p_vaddr = get_le bs 16 8, p_paddr = get_le bs 24 8, p_filesz = get_le bs 32 8,
      p_memsz = get_le bs 40 8, p_align = get_le bs 48 8\<rparr>"

text \<open>The array of program headers, \<open>eppnt++\<close> by \<open>eppnt++\<close>.\<close>

fun phdrs_of_bytes :: "nat \<Rightarrow> u8 list \<Rightarrow> elf_phdr_t list" where
  "phdrs_of_bytes 0 bs = []"
| "phdrs_of_bytes (Suc n) bs = phdr_of_bytes bs # phdrs_of_bytes n (drop SIZEOF_PHDR bs)"

section \<open>Checks\<close>

definition elf_check_ehdr_ident :: "elf_ehdr_t \<Rightarrow> bool" where
  "elf_check_ehdr_ident ehdr \<longleftrightarrow>
     e_ident ehdr ! 0 = 0x7f \<and> e_ident ehdr ! 1 = 0x45 \<and> e_ident ehdr ! 2 = 0x4c \<and> e_ident ehdr ! 3 = 0x46 \<and>
     e_ident ehdr ! EI_CLASS = ELFCLASS64 \<and> e_ident ehdr ! EI_DATA = ELFDATA2LSB \<and>
     e_ident ehdr ! EI_VERSION = 1"

definition elf_check_ehdr1 :: "elf_ehdr_t \<Rightarrow> bool" where
  "elf_check_ehdr1 ehdr \<longleftrightarrow>
     (e_type ehdr = ET_EXEC \<or> e_type ehdr = ET_DYN) \<and> e_machine ehdr = EM_RISCV \<and>
     e_version ehdr = EV_CURRENT \<and> e_ehsize ehdr = of_nat SIZEOF_EHDR \<and>
     e_phentsize ehdr = of_nat SIZEOF_PHDR"

definition elf_check_ehdr :: "elf_ehdr_t \<Rightarrow> load_error option" where
  "elf_check_ehdr ehdr =
    (if \<not> elf_check_ehdr_ident ehdr then Some Bad_ident
     else if \<not> elf_check_ehdr1 ehdr then Some Bad_ehdr else None)"

lemma length_phdrs_of_bytes [simp]: "length (phdrs_of_bytes n bs) = n"
  by (induction n bs rule: phdrs_of_bytes.induct) simp_all

end
