(* ===== verification/Elf_Stack.thy ===== *)
theory Elf_Stack
  imports Elf_Format
begin

text \<open>
  The initial stack of the guest, \<open>create_elf_tables\<close> of \<open>elfload.c\<close>: the strings of the environment and of the
  arguments, pushed from the top, and below them the table of the argument count and the pointers.  The
  strings are lists of bytes without the final zero; they are shorter than \<open>2 ^ 31\<close>, the range of the \<open>int\<close>
  the code keeps a length in.
\<close>

section \<open>Operations\<close>

record linux_binprm =
  bp_buf :: "u8 list"
  bp_p :: u64
  execfd :: c_int
  bp_argc :: nat
  bp_envc :: nat
  bp_argv :: "u8 list list"
  bp_envp :: "u8 list list"
  bp_filename :: "u8 list"

text \<open>\<open>target_memory_copy\<close> with its check, as the loader calls it.\<close>

definition copy_out :: "u64 \<Rightarrow> u8 list \<Rightarrow> 'w proc \<Rightarrow> ('w, unit) outcome" where
  "copy_out addr bs p =
    (case target_memory_copy addr bs p of
       Inl s \<Rightarrow> (Inl (Fault s), p)
     | Inr (ret, p) \<Rightarrow> if ret <s 0 then (Inl (Fail Sys_error), p) else (Inr (), p))"

text \<open>One string with its final zero; \<open>ptrs\<close> grows by the address.\<close>

definition push_string :: "u8 list \<Rightarrow> u64 \<times> u64 list \<Rightarrow> 'w proc \<Rightarrow> ('w, u64 \<times> u64 list) outcome" where
  "push_string s st p =
    (let (tos, ptrs) = st; tos = tos - of_nat (length s + 1)
     in then_do (copy_out tos (s @ [0]) p) (\<lambda>_ p. (Inr (tos, ptrs @ [tos]), p)))"

fun push_strings :: "u8 list list \<Rightarrow> u64 \<times> u64 list \<Rightarrow> 'w proc \<Rightarrow> ('w, u64 \<times> u64 list) outcome" where
  "push_strings [] st p = (Inr st, p)"
| "push_strings (s # ss) st p = then_do (push_string s st p) (push_strings ss)"

text \<open>The last loop: every entry of \<open>ptrs\<close>, the first at the highest address.\<close>

fun push_ptrs :: "u64 list \<Rightarrow> u64 \<Rightarrow> 'w proc \<Rightarrow> ('w, u64) outcome" where
  "push_ptrs [] tos p = (Inr tos, p)"
| "push_ptrs (v # vs) tos p =
    (let tos = tos - 8 in then_do (copy_out tos (le_bytes 8 v) p) (\<lambda>_. push_ptrs vs tos))"

definition create_elf_tables :: "'w os \<Rightarrow> linux_binprm \<Rightarrow> 'w proc \<Rightarrow> ('w, linux_binprm) outcome" where
  "create_elf_tables os bprm p =
    (let (ok, w) = os_malloc os (world p) (of_nat ((1 + bp_envc bprm + 1 + bp_argc bprm + 1) * 8));
         p = p\<lparr>world := w\<rparr>
     in if \<not> ok then (Inl (Fail Sys_error), p)
     else then_do (push_strings (rev (bp_envp bprm)) (bp_p bprm, [0]) p) (\<lambda>(tos, ptrs) p.
          then_do (push_strings (rev (tl (bp_argv bprm))) (tos, ptrs @ [0]) p) (\<lambda>st p.
          then_do (push_string (bp_filename bprm) st p) (\<lambda>(tos, ptrs) p.
            (let ptrs = ptrs @ [of_nat (bp_argc bprm)];
                 tos = ROUND_DOWN tos 8 - 8 - of_nat SIZEOF_AUXV
             in then_do (push_ptrs ptrs tos p) (\<lambda>tos p. (Inr (bprm\<lparr>bp_p := tos\<rparr>), p)))))))"

section \<open>What is on the stack\<close>

text \<open>The bytes in guest memory, whatever their permissions.\<close>

definition peek :: "'w proc \<Rightarrow> u64 \<Rightarrow> nat \<Rightarrow> u8 list" where
  "peek p a n = map (\<lambda>k. hbytes (mem (mach p)) (g2h (guest_base (mach p)) a + of_nat k)) [0..<n]"

definition frame_but_mem :: "'w proc \<Rightarrow> 'w proc \<Rightarrow> bool" where
  "frame_but_mem p p' \<longleftrightarrow> (\<exists>h. p' = p\<lparr>mach := (mach p)\<lparr>mem := h\<rparr>\<rparr> \<and>
     hread h = hread (mem (mach p)) \<and> hwrite h = hwrite (mem (mach p)))"

lemma frame_but_mem_refl: "frame_but_mem p p"
  unfolding frame_but_mem_def by (rule exI [of _ "mem (mach p)"]) simp

lemma frame_but_mem_trans: "frame_but_mem a b \<Longrightarrow> frame_but_mem b c \<Longrightarrow> frame_but_mem a c"
  by (auto simp: frame_but_mem_def)

lemma copy_out_Inr:
  assumes "copy_out a bs p = (Inr u, p')"
  shows "frame_but_mem p p'" and "guest_base (mach p') = guest_base (mach p)"
    and "store_bytes (mem (mach p)) (g2h (guest_base (mach p)) a) bs = Some (mem (mach p'))"
  using assms
  by (auto simp: copy_out_def target_memory_copy_def bind_result_Inr set_mem_def frame_but_mem_def
      store_bytes_Some split: sum.splits if_splits)

text \<open>
  Bytes that a push cannot reach any more: \<open>bs\<close> is at \<open>a\<close>, within the \<open>used\<close> bytes above the top of the stack.
\<close>

definition holds :: "'w proc \<Rightarrow> u64 \<Rightarrow> nat \<Rightarrow> u64 \<Rightarrow> u8 list \<Rightarrow> bool" where
  "holds p tos used a bs \<longleftrightarrow>
     (\<exists>k. a = tos + of_nat k \<and> k + length bs \<le> used) \<and> peek p a (length bs) = bs"

lemma holds_down:
  assumes "holds p tos used a bs"
  shows "holds p (tos - of_nat g) (used + g) a bs"
proof -
  from assms obtain k where k: "a = tos + of_nat k" "k + length bs \<le> used" "peek p a (length bs) = bs"
    by (auto simp: holds_def)
  then have "a = (tos - of_nat g) + of_nat (k + g)" "k + g + length bs \<le> used + g" by simp_all
  with k(3) show ?thesis unfolding holds_def by blast
qed

lemma peek_nth: "k < n \<Longrightarrow> peek p a n ! k = hbytes (mem (mach p)) (g2h (guest_base (mach p)) (a + of_nat k))"
  by (simp add: peek_def g2h_def algebra_simps)

lemma length_peek [simp]: "length (peek p a n) = n"
  by (simp add: peek_def)

lemma push_byte:
  assumes "copy_out a bs p = (Inr u, p')" and "k < 2 ^ 64"
  shows "hbytes (mem (mach p')) (g2h (guest_base (mach p')) (a + of_nat k)) =
    (if k < length bs then bs ! k else hbytes (mem (mach p)) (g2h (guest_base (mach p)) (a + of_nat k)))"
proof -
  have "unat (of_nat k :: u64) = k" using assms(2) by (simp add: unat_of_nat take_bit_nat_eq_self)
  then show ?thesis
    using copy_out_Inr [OF assms(1)] by (auto simp: store_bytes_Some in_range_def g2h_def)
qed

lemma holds_pushed:
  assumes "copy_out a bs p = (Inr u, p')" and "length bs \<le> 2 ^ 64" and "length bs \<le> used"
  shows "holds p' a used a bs"
proof -
  have "peek p' a (length bs) = bs"
    using push_byte [OF assms(1)] assms(2) by (intro nth_equalityI) (auto simp: peek_nth)
  then show ?thesis unfolding holds_def using assms(3) by (intro conjI exI [of _ 0]) simp_all
qed

lemma holds_push:
  assumes "copy_out (tos - of_nat (length bs)) bs p = (Inr u, p')" and "used + length bs \<le> 2 ^ 64"
    and "holds p tos used a cs"
  shows "holds p' (tos - of_nat (length bs)) (used + length bs) a cs"
proof -
  from assms(3) obtain k where k: "a = tos + of_nat k" "k + length cs \<le> used" "peek p a (length cs) = cs"
    by (auto simp: holds_def)
  let ?t = "tos - of_nat (length bs)"
  have a: "a + of_nat i = ?t + of_nat (length bs + k + i)" for i by (simp add: k(1))
  have "peek p' a (length cs) ! i = peek p a (length cs) ! i" if "i < length cs" for i
    using push_byte [OF assms(1), of "length bs + k + i"] that k(2) assms(2) unfolding peek_nth [OF that] a by auto
  then have "peek p' a (length cs) = peek p a (length cs)" by (intro nth_equalityI) auto
  with holds_down [OF assms(3), of "length bs"] show ?thesis by (auto simp: holds_def)
qed

subsection \<open>Pushing the strings\<close>

definition str_size :: "u8 list list \<Rightarrow> nat" where
  "str_size ss = sum_list (map (\<lambda>s. length s + 1) ss)"

lemma str_size_simps [simp]:
  "str_size [] = 0" "str_size (s # ss) = length s + 1 + str_size ss" "str_size (rev ss) = str_size ss"
  by (simp_all add: str_size_def rev_map [symmetric])

lemma push_string_Inr:
  assumes "push_string s (tos, ptrs) p = (Inr st, p')" and "used + length s + 1 \<le> 2 ^ 64"
  shows "\<exists>tos'. st = (tos', ptrs @ [tos']) \<and> tos' = tos - of_nat (length s + 1) \<and> frame_but_mem p p' \<and>
    holds p' tos' (used + length s + 1) tos' (s @ [0]) \<and>
    (\<forall>a cs. holds p tos used a cs \<longrightarrow> holds p' tos' (used + length s + 1) a cs)"
proof -
  have c: "copy_out (tos - of_nat (length (s @ [0]))) (s @ [0]) p = (Inr (), p')"
    and st: "st = (tos - of_nat (length s + 1), ptrs @ [tos - of_nat (length s + 1)])"
    using assms(1) by (auto simp: push_string_def Let_def then_do_Inr)
  have "holds p' (tos - of_nat (length (s @ [0]))) (used + length (s @ [0])) (tos - of_nat (length (s @ [0]))) (s @ [0])"
    by (rule holds_pushed [OF c]) (use assms(2) in simp_all)
  moreover have "holds p' (tos - of_nat (length (s @ [0]))) (used + length (s @ [0])) a cs" if "holds p tos used a cs" for a cs
    by (rule holds_push [OF c _ that]) (use assms(2) in simp)
  ultimately show ?thesis using copy_out_Inr(1) [OF c] st by auto
qed

lemma push_strings_Inr:
  assumes "push_strings ss (tos, ptrs) p = (Inr (tos', ptrs'), p')" and "used + str_size ss \<le> 2 ^ 64"
  shows "\<exists>as. ptrs' = ptrs @ as \<and> tos' = tos - of_nat (str_size ss) \<and> frame_but_mem p p' \<and>
    list_all2 (\<lambda>a s. holds p' tos' (used + str_size ss) a (s @ [0])) as ss \<and>
    (\<forall>a cs. holds p tos used a cs \<longrightarrow> holds p' tos' (used + str_size ss) a cs)"
  using assms
proof (induction ss arbitrary: tos ptrs p used)
  case Nil
  then show ?case by (simp add: frame_but_mem_refl)
next
  case (Cons s ss)
  from Cons.prems(1) obtain st p1 where 1: "push_string s (tos, ptrs) p = (Inr st, p1)"
      "push_strings ss st p1 = (Inr (tos', ptrs'), p')"
    by (auto simp: then_do_Inr)
  have b: "used + length s + 1 \<le> 2 ^ 64" "used + length s + 1 + str_size ss \<le> 2 ^ 64"
    using Cons.prems(2) by simp_all
  from push_string_Inr [OF 1(1) b(1)] obtain t where t: "st = (t, ptrs @ [t])" "t = tos - of_nat (length s + 1)"
      "frame_but_mem p p1" "holds p1 t (used + length s + 1) t (s @ [0])"
      "\<forall>a cs. holds p tos used a cs \<longrightarrow> holds p1 t (used + length s + 1) a cs" by blast
  from Cons.IH [OF 1(2) [unfolded t(1)] b(2)] obtain as where as: "ptrs' = (ptrs @ [t]) @ as"
      "tos' = t - of_nat (str_size ss)" "frame_but_mem p1 p'"
      "list_all2 (\<lambda>a z. holds p' tos' (used + length s + 1 + str_size ss) a (z @ [0])) as ss"
      "\<forall>a cs. holds p1 t (used + length s + 1) a cs \<longrightarrow> holds p' tos' (used + length s + 1 + str_size ss) a cs"
    by (elim exE conjE) (rule that)
  have u: "used + length s + 1 + str_size ss = used + str_size (s # ss)" by simp
  have tos': "tos' = tos - of_nat (str_size (s # ss))"
    unfolding as(2) t(2) str_size_simps of_nat_add by simp
  show ?case
  proof (intro exI [of _ "t # as"] conjI)
    show "frame_but_mem p p'" using t(3) as(3) by (rule frame_but_mem_trans)
    show "list_all2 (\<lambda>a z. holds p' tos' (used + str_size (s # ss)) a (z @ [0])) (t # as) (s # ss)"
      using as(4,5) t(4) by (simp add: add.assoc)
    show "\<forall>a cs. holds p tos used a cs \<longrightarrow> holds p' tos' (used + str_size (s # ss)) a cs"
      using as(5) t(5) by (simp add: add.assoc)
  qed (use as(1) tos' in simp_all)
qed

text \<open>What lies below the strings is as before.\<close>

lemma push_strings_below:
  assumes "push_strings ss (tos, ptrs) p = (Inr (tos', ptrs'), p')" and "str_size ss + n \<le> 2 ^ 64" and "m \<le> n"
  shows "peek p' (tos' - of_nat n) m = peek p (tos' - of_nat n) m"
  using assms(1,2)
proof (induction ss arbitrary: tos ptrs p)
  case (Cons s ss)
  let ?t = "tos - of_nat (length (s @ [0]))"
  from Cons.prems(1) obtain p1 where c: "copy_out ?t (s @ [0]) p = (Inr (), p1)"
      and r: "push_strings ss (?t, ptrs @ [?t]) p1 = (Inr (tos', ptrs'), p')"
    by (auto simp: then_do_Inr push_string_def Let_def)
  have size: "str_size ss + n + length (s @ [0]) \<le> 2 ^ 64" using Cons.prems(2) by simp
  then have tos': "tos' = ?t - of_nat (str_size ss)"
    using push_strings_Inr [OF r, of 0] by auto
  have "peek p1 (tos' - of_nat n) m ! i = peek p (tos' - of_nat n) m ! i" if "i < m" for i
  proof -
    let ?k = "2 ^ 64 - (str_size ss + n - i)"
    have "(of_nat ?k :: u64) = of_nat (2 ^ 64) - of_nat (str_size ss + n - i)"
      using size that assms(3) by (intro of_nat_diff) simp
    also have "of_nat (str_size ss + n - i) = (of_nat (str_size ss + n) - of_nat i :: u64)"
      using that assms(3) by (intro of_nat_diff) simp
    finally have "tos' - of_nat n + of_nat i = ?t + of_nat ?k" unfolding tos' by simp
    moreover have "?k < 2 ^ 64" "\<not> ?k < length (s @ [0])" using size that assms(3) by simp_all
    ultimately show ?thesis using push_byte [OF c, of ?k] unfolding peek_nth [OF that] by (simp only: if_False)
  qed
  then have "peek p1 (tos' - of_nat n) m = peek p (tos' - of_nat n) m" by (intro nth_equalityI) auto
  with Cons.IH [OF r] size show ?case by simp
qed simp

subsection \<open>Pushing the table\<close>

lemma push_ptrs_Inr:
  assumes "push_ptrs vs tos p = (Inr tos', p')" and "used + 8 * length vs \<le> 2 ^ 64"
  shows "tos' = tos - of_nat (8 * length vs) \<and> frame_but_mem p p' \<and>
    (\<forall>i<length vs. holds p' tos' (used + 8 * length vs) (tos - of_nat (8 * (i + 1))) (le_bytes 8 (vs ! i))) \<and>
    (\<forall>a cs. holds p tos used a cs \<longrightarrow> holds p' tos' (used + 8 * length vs) a cs)"
  using assms
proof (induction vs arbitrary: tos p used)
  case Nil
  then show ?case by (simp add: frame_but_mem_refl)
next
  case (Cons v vs)
  let ?t = "tos - of_nat (length (le_bytes 8 v))"
  from Cons.prems(1) obtain p1 where c: "copy_out ?t (le_bytes 8 v) p = (Inr (), p1)"
      and r: "push_ptrs vs ?t p1 = (Inr tos', p')"
    by (auto simp: then_do_Inr Let_def)
  have u: "used + 8 + 8 * length vs = used + 8 * length (v # vs)" by simp
  have new: "holds p1 ?t (used + 8) ?t (le_bytes 8 v)"
    by (rule holds_pushed [OF c]) simp_all
  have old: "holds p1 ?t (used + 8) a cs" if "holds p tos used a cs" for a cs
    using holds_push [OF c _ that] Cons.prems(2) by simp
  from Cons.IH [OF r, of "used + 8"] Cons.prems(2) have ih: "tos' = ?t - of_nat (8 * length vs)" "frame_but_mem p1 p'"
    "\<And>i. i < length vs \<Longrightarrow> holds p' tos' (used + 8 * length (v # vs)) (?t - of_nat (8 * (i + 1))) (le_bytes 8 (vs ! i))"
    "\<And>a cs. holds p1 ?t (used + 8) a cs \<Longrightarrow> holds p' tos' (used + 8 * length (v # vs)) a cs"
    unfolding u by auto
  show ?case
  proof (intro conjI allI impI)
    show "tos' = tos - of_nat (8 * length (v # vs))" unfolding ih(1) by simp
    show "frame_but_mem p p'" using copy_out_Inr(1) [OF c] ih(2) by (rule frame_but_mem_trans)
    show "holds p' tos' (used + 8 * length (v # vs)) a cs" if "holds p tos used a cs" for a cs
      using that by (intro ih(4) old)
    fix i assume "i < length (v # vs)"
    then show "holds p' tos' (used + 8 * length (v # vs)) (tos - of_nat (8 * (i + 1))) (le_bytes 8 ((v # vs) ! i))"
      using ih(3) [of "i - 1"] ih(4) [OF new] by (cases i) (auto simp: algebra_simps)
  qed
qed

subsection \<open>The finished stack\<close>

definition strings_size :: "linux_binprm \<Rightarrow> nat" where
  "strings_size b = str_size (bp_envp b) + str_size (tl (bp_argv b)) + length (bp_filename b) + 1"

definition tables_size :: "linux_binprm \<Rightarrow> nat" where
  "tables_size b = str_size (bp_envp b) + str_size (tl (bp_argv b)) + length (bp_filename b) + 1 +
     7 + 24 + 8 * (bp_argc b + bp_envc b + 3)"

definition table_at :: "'w proc \<Rightarrow> u64 \<Rightarrow> u64 list \<Rightarrow> bool" where
  "table_at p a vs \<longleftrightarrow> (\<forall>i<length vs. peek p (a + of_nat (8 * i)) 8 = le_bytes 8 (vs ! i))"

definition string_at :: "'w proc \<Rightarrow> u64 \<Rightarrow> u8 list \<Rightarrow> bool" where
  "string_at p a s \<longleftrightarrow> peek p a (length s + 1) = s @ [0]"

lemma ROUND_DOWN_8:
  obtains g y where "g < 8" and "ROUND_DOWN t 8 = t - of_nat g" and "ROUND_DOWN t 8 = 8 * y"
proof
  have r: "ROUND_DOWN t 8 = t - take_bit 3 t" using ROUND_DOWN_exp [of t 3] by simp
  show "unat (take_bit 3 t) < 8" using unat_take_bit_less [of 3 t] by simp
  show "ROUND_DOWN t 8 = t - of_nat (unat (take_bit 3 t))" using r by simp
  have "t - take_bit 3 t = push_bit 3 (drop_bit 3 t)" by (metis add_diff_cancel_right' bits_ident)
  with r show "ROUND_DOWN t 8 = 8 * drop_bit 3 t" by (simp add: push_bit_eq_mult mult.commute)
qed

lemma take_bit_8: "take_bit 3 (8 * y) = 0" for y :: u64
proof -
  have "8 * y = push_bit 3 y" by (simp add: push_bit_eq_mult mult.commute)
  then show ?thesis by (simp add: take_bit_push_bit)
qed

lemma holds_string: "holds p tos used a (s @ [0]) \<Longrightarrow> string_at p a s"
  by (simp add: holds_def string_at_def)

lemma list_all2_holds:
  assumes "list_all2 (\<lambda>a s. holds p tos used a (s @ [0])) as ss"
    and "\<And>a cs. holds p tos used a cs \<Longrightarrow> holds p' tos' used' a cs"
  shows "list_all2 (string_at p') as ss"
  using assms(1) by (rule list_all2_mono) (blast intro: holds_string assms(2))

lemma create_elf_tables_layout:
  assumes "create_elf_tables os b p = (Inr b', p')" and "bp_argv b \<noteq> []" and "bp_argc b = length (bp_argv b)"
    and "bp_envc b = length (bp_envp b)" and "tables_size b \<le> 2 ^ 64"
  shows "\<exists>f as es. length as = length (tl (bp_argv b)) \<and> length es = length (bp_envp b) \<and>
    table_at p' (bp_p b') (of_nat (bp_argc b) # f # as @ [0] @ es @ [0]) \<and>
    string_at p' f (bp_filename b) \<and> list_all2 (string_at p') as (tl (bp_argv b)) \<and>
    list_all2 (string_at p') es (bp_envp b) \<and> take_bit 3 (bp_p b') = 0"
    and "bp_p b' = ROUND_DOWN (bp_p b - of_nat (strings_size b)) 8 - of_nat (8 * (bp_argc b + bp_envc b + 6))"
    and "let a = bp_p b' + of_nat (8 * (bp_argc b + bp_envc b + 3)) in peek p' a 24 = peek p a 24"
proof -
  let ?E = "rev (bp_envp b)" and ?A = "rev (tl (bp_argv b))" and ?F = "bp_filename b"
  from assms(1) obtain t1 ptrs1 p1 t2 ptrs2 p2 t3 ptrs3 p3 sp q where
      1: "push_strings ?E (bp_p b, [0]) q = (Inr (t1, ptrs1), p1)"
    and 2: "push_strings ?A (t1, ptrs1 @ [0]) p1 = (Inr (t2, ptrs2), p2)"
    and 3: "push_string ?F (t2, ptrs2) p2 = (Inr (t3, ptrs3), p3)"
    and 4: "push_ptrs (ptrs3 @ [of_nat (bp_argc b)]) (ROUND_DOWN t3 8 - 8 - of_nat SIZEOF_AUXV) p3 = (Inr sp, p')"
    and b': "bp_p b' = sp" and q: "peek q = peek p"
    by (auto simp: create_elf_tables_def Let_def then_do_Inr peek_def fun_eq_iff split: prod.splits if_splits)
  define u1 where "u1 = 0 + str_size ?E"
  define u2 where "u2 = u1 + str_size ?A"
  define u3 where "u3 = u2 + length ?F + 1"
  from push_strings_Inr [OF 1, of 0] assms(5) obtain es where es: "ptrs1 = [0] @ es"
      "list_all2 (\<lambda>a s. holds p1 t1 u1 a (s @ [0])) es ?E"
    by (auto simp: u1_def tables_size_def)
  from push_strings_Inr [OF 2, of u1] assms(5) obtain as where as: "ptrs2 = (ptrs1 @ [0]) @ as"
      "list_all2 (\<lambda>a s. holds p2 t2 u2 a (s @ [0])) as ?A"
      "\<And>a cs. holds p1 t1 u1 a cs \<Longrightarrow> holds p2 t2 u2 a cs"
    by (auto simp: u1_def u2_def tables_size_def)
  from push_string_Inr [OF 3, of u2] assms(5) obtain f where f: "t3 = f" "ptrs3 = ptrs2 @ [f]"
      "holds p3 t3 u3 f (?F @ [0])" "\<And>a cs. holds p2 t2 u2 a cs \<Longrightarrow> holds p3 t3 u3 a cs"
    by (auto simp: u1_def u2_def u3_def tables_size_def)
  obtain g y where g: "g < 8" "ROUND_DOWN t3 8 = t3 - of_nat g" "ROUND_DOWN t3 8 = 8 * y"
    by (rule ROUND_DOWN_8)
  let ?vs = "ptrs3 @ [of_nat (bp_argc b)]"
  let ?t = "t3 - of_nat (g + 24)"
  have t: "ROUND_DOWN t3 8 - 8 - of_nat SIZEOF_AUXV = ?t" using g(2) by (simp add: SIZEOF_AUXV_def)
  have len: "length es = length (bp_envp b)" "length as = length (tl (bp_argv b))"
    using es(2) as(2) by (auto dest: list_all2_lengthD)
  then have vs: "length ?vs = bp_argc b + bp_envc b + 3"
    using es(1) as(1) f(2) assms(2-4) by (cases "bp_argv b") auto
  have bound: "u3 + (g + 24) + 8 * length ?vs \<le> 2 ^ 64"
    using assms(5) g(1) unfolding vs by (simp add: tables_size_def u1_def u2_def u3_def)
  from push_ptrs_Inr [OF 4 [unfolded t] bound] have
      tab: "sp = ?t - of_nat (8 * length ?vs)"
      "\<And>i. i < length ?vs \<Longrightarrow> holds p' sp (u3 + (g + 24) + 8 * length ?vs) (?t - of_nat (8 * (i + 1))) (le_bytes 8 (?vs ! i))"
      "\<And>a cs. holds p3 ?t (u3 + (g + 24)) a cs \<Longrightarrow> holds p' sp (u3 + (g + 24) + 8 * length ?vs) a cs"
    by blast+
  have keep3: "holds p' sp (u3 + (g + 24) + 8 * length ?vs) a cs" if "holds p3 t3 u3 a cs" for a cs
    by (rule tab(3) [OF holds_down [OF that]])
  have rev: "rev ?vs = of_nat (bp_argc b) # f # rev as @ [0] @ rev es @ [0]"
    using es(1) as(1) f(2) by simp
  have "table_at p' sp (rev ?vs)"
    unfolding table_at_def length_rev
  proof (intro allI impI)
    fix i assume i: "i < length ?vs"
    let ?j = "length ?vs - Suc i"
    have "8 * length ?vs = 8 * (?j + 1) + 8 * i" using i by simp
    then have "of_nat (8 * length ?vs) = (of_nat (8 * (?j + 1)) + of_nat (8 * i) :: u64)" by (metis of_nat_add)
    then have "?t - of_nat (8 * (?j + 1)) = sp + of_nat (8 * i)"
      unfolding tab(1) by (simp only: diff_diff_eq [symmetric] diff_add_cancel)
    moreover have "?j < length ?vs" and "rev ?vs ! i = ?vs ! ?j" using i by (simp_all only: rev_nth)
    ultimately have "holds p' sp (u3 + (g + 24) + 8 * length ?vs) (sp + of_nat (8 * i)) (le_bytes 8 (rev ?vs ! i))"
      using tab(2) by metis
    then show "peek p' (sp + of_nat (8 * i)) 8 = le_bytes 8 (rev ?vs ! i)"
      unfolding holds_def length_le_bytes by blast
  qed
  moreover have "take_bit 3 sp = 0"
  proof -
    have "sp = 8 * (y - 3 - of_nat (length ?vs))"
      unfolding tab(1) t [symmetric] g(3) by (simp add: SIZEOF_AUXV_def algebra_simps)
    then show ?thesis by (metis take_bit_8)
  qed
  moreover have "list_all2 (string_at p') es ?E" using es(2) keep3 f(4) as(3) by (blast intro: list_all2_holds)
  moreover have "list_all2 (string_at p') as ?A" using as(2) keep3 f(4) by (blast intro: list_all2_holds)
  ultimately have "table_at p' sp (rev ?vs)" "take_bit 3 sp = 0"
    "list_all2 (string_at p') (rev es) (bp_envp b)" "list_all2 (string_at p') (rev as) (tl (bp_argv b))"
    by (metis list_all2_rev rev_rev_ident)+
  moreover have "string_at p' f ?F" by (rule holds_string [OF keep3 [OF f(3)]])
  ultimately show "\<exists>f as es. length as = length (tl (bp_argv b)) \<and> length es = length (bp_envp b) \<and>
      table_at p' (bp_p b') (of_nat (bp_argc b) # f # as @ [0] @ es @ [0]) \<and>
      string_at p' f (bp_filename b) \<and> list_all2 (string_at p') as (tl (bp_argv b)) \<and>
      list_all2 (string_at p') es (bp_envp b) \<and> take_bit 3 (bp_p b') = 0"
    unfolding b' rev using len by (intro exI [of _ f] exI [of _ "rev as"] exI [of _ "rev es"]) simp
  have n: "str_size ?E \<le> 2 ^ 64" "str_size ?E + str_size ?A \<le> 2 ^ 64" "str_size ?E + str_size ?A + length ?F + 1 + 31 \<le> 2 ^ 64"
    using assms(5) by (simp_all add: tables_size_def)
  have t3: "t3 = bp_p b - of_nat (strings_size b)"
    using push_strings_Inr [OF 1, of 0] push_strings_Inr [OF 2, of 0] push_string_Inr [OF 3, of 0] n
    by (auto simp: strings_size_def)
  show "bp_p b' = ROUND_DOWN (bp_p b - of_nat (strings_size b)) 8 - of_nat (8 * (bp_argc b + bp_envc b + 6))"
    unfolding b' tab(1) vs t3 [symmetric] t [symmetric] by (simp add: SIZEOF_AUXV_def algebra_simps)
  have "str_size ?A + (length ?F + 1 + (g + 24)) + str_size ?E \<le> 2 ^ 64" using n(3) g(1) by simp
  note room = this
  have 3: "push_strings [?F] (t2, ptrs2) p2 = (Inr (t3, ptrs3), p3)" using 3 by (simp add: then_do_def)
  have t2: "t3 = t2 - of_nat (length ?F + 1)" using push_strings_Inr [OF 3, of 0] room by auto
  have t1: "t2 = t1 - of_nat (str_size ?A)" using push_strings_Inr [OF 2, of 0] room by auto
  have at: "t2 - of_nat (length ?F + 1 + (g + 24)) = ?t"
    "t1 - of_nat (str_size ?A + (length ?F + 1 + (g + 24))) = ?t"
    unfolding t1 t2 by (simp_all add: algebra_simps)
  have "peek p' ?t 24 = peek p3 ?t 24"
  proof -
    have "holds p3 ?t (u3 + (g + 24)) ?t (peek p3 ?t 24)"
      unfolding holds_def by (intro conjI exI [of _ 0]) simp_all
    from tab(3) [OF this] show ?thesis by (simp add: holds_def)
  qed
  also have "\<dots> = peek p2 ?t 24" by (rule push_strings_below [OF 3]) (use room in simp_all)
  also have "\<dots> = peek p1 ?t 24" unfolding at(1) [symmetric]
    by (rule push_strings_below [OF 2]) (use room in simp_all)
  also have "\<dots> = peek p ?t 24" unfolding at(2) [symmetric] q [symmetric]
    by (rule push_strings_below [OF 1]) (use room in simp_all)
  finally have "peek p' ?t 24 = peek p ?t 24" .
  moreover have "sp + of_nat (8 * (bp_argc b + bp_envc b + 3)) = ?t" unfolding tab(1) vs by simp
  ultimately show "let a = bp_p b' + of_nat (8 * (bp_argc b + bp_envc b + 3)) in peek p' a 24 = peek p a 24"
    unfolding b' Let_def by (simp only:)
qed

text \<open>The pointers fill the array that was allocated for them exactly, given at least one argument.\<close>

lemma push_strings_length:
  "push_strings ss st p = (Inr st', p') \<Longrightarrow> length (snd st') = length (snd st) + length ss"
  by (induction ss arbitrary: st p)
    (auto simp: then_do_Inr push_string_def Let_def split: prod.splits)

end
