(* ===== verification/Elf_Loader.thy ===== *)
theory Elf_Loader
  imports Elf_Stack
begin

text \<open>
  The loader of \<open>elfload.c\<close>: the program headers, the reservation of the image, the segments, the heap and the
  stack.  \<open>None\<close> is a read that is interrupted for ever; \<open>Fail\<close> is a return of -1 and \<open>Fault\<close> the end of
  the process.
\<close>

section \<open>Operations\<close>

text \<open>The fields of \<open>struct image_info\<close> that the program uses.\<close>

record image_info =
  load_bias :: u64
  load_addr :: u64
  start_code :: u64
  end_code :: u64
  start_data :: u64
  end_data :: u64
  info_brk :: u64
  reserve_brk :: u64
  start_stack :: u64
  stack_limit :: u64
  info_entry :: u64
  code_offset :: u64
  data_offset :: u64
  elf_flags :: u32
  alignment :: u64
  exec_stack :: c_int
  nsegs :: u16

text \<open>\<open>memset\<close> to zero in \<open>main\<close>.\<close>

definition zero_info :: image_info where
  "zero_info = \<lparr>load_bias = 0, load_addr = 0, start_code = 0, end_code = 0, start_data = 0, end_data = 0,
     info_brk = 0, reserve_brk = 0, start_stack = 0, stack_limit = 0, info_entry = 0, code_offset = 0,
     data_offset = 0, elf_flags = 0, alignment = 0, exec_stack = 0, nsegs = 0\<rparr>"

definition TARGET_ELF_MIN_ALIGN :: u64 where "TARGET_ELF_MIN_ALIGN = 4096"

definition TARGET_ELF_PAGESTART :: "u64 \<Rightarrow> u64" where
  "TARGET_ELF_PAGESTART v = v AND NOT (TARGET_ELF_MIN_ALIGN - 1)"

definition TARGET_ELF_PAGEOFFSET :: "u64 \<Rightarrow> u64" where
  "TARGET_ELF_PAGEOFFSET v = v AND (TARGET_ELF_MIN_ALIGN - 1)"

definition TARGET_ELF_PAGELENGTH :: "u64 \<Rightarrow> u64" where
  "TARGET_ELF_PAGELENGTH v = ROUND_UP v 4096"

text \<open>The result -1 of a mapping is a failure of the loader.\<close>

definition try_mmap :: "load_error \<Rightarrow> u64 \<times> 'w proc \<Rightarrow> ('w, u64) outcome" where
  "try_mmap e r = (case r of (a, p) \<Rightarrow> if a = - 1 then (Inl (Fail e), p) else (Inr a, p))"

definition load_elf_phdrs ::
  "'w os \<Rightarrow> elf_ehdr_t \<Rightarrow> c_int \<Rightarrow> 'w proc \<Rightarrow> ('w, elf_phdr_t list) outcome option" where
  "load_elf_phdrs os ehdr fd p =
    (let size = unat (e_phnum ehdr) * SIZEOF_PHDR in
     if size = 0 \<or> size > 65536 \<or> size > unat TARGET_ELF_MIN_ALIGN then Some (Inl (Fail Bad_phdrs_size), p)
     else (let (ok, w) = os_malloc os (world p) (of_nat size) in
       if \<not> ok then Some (Inl (Fail No_memory), p\<lparr>world := w\<rparr>)
       else (case pread os fd (of_nat size) (e_phoff ehdr) w of
           None \<Rightarrow> None
         | Some (None, w) \<Rightarrow> Some (Inl (Fail Short_phdrs), p\<lparr>world := w\<rparr>)
         | Some (Some bs, w) \<Rightarrow>
             Some (if length bs \<noteq> size then Inl (Fail Short_phdrs)
                   else Inr (phdrs_of_bytes (unat (e_phnum ehdr)) bs), p\<lparr>world := w\<rparr>))))"

definition zero_bss :: "'w os \<Rightarrow> u64 \<Rightarrow> u64 \<Rightarrow> c_int \<Rightarrow> 'w proc \<Rightarrow> ('w, unit) outcome" where
  "zero_bss os elf_bss elf_brk prot p =
    (let elf_brk = TARGET_PAGE_ALIGN elf_brk;
         host_start = g2h (guest_base (mach p)) elf_bss;
         host_end = g2h (guest_base (mach p)) elf_brk;
         host_start_aligned = HOST_PAGE_ALIGN host_start
     in then_do (if host_start_aligned < host_end
          then try_mmap Sys_error (host_mmap os host_start_aligned (host_end - host_start_aligned) prot
            (MAP_FIXED OR MAP_PRIVATE) (- 1) 0 p)
          else (Inr 0, p))
        (\<lambda>_ p. if host_start < host_start_aligned
          then (case store_bytes (mem (mach p)) host_start (replicate (unat (host_start_aligned - host_start)) 0) of
              None \<Rightarrow> (Inl (Fault (Segv Guest_access)), p)
            | Some h \<Rightarrow> (Inr (), set_mem h (world p) p))
          else (Inr (), p)))"

text \<open>The first loop over the program headers: the bounds of the image.\<close>

definition scan_phdr :: "elf_phdr_t \<Rightarrow> u64 \<times> u64 \<times> image_info \<Rightarrow> u64 \<times> u64 \<times> image_info" where
  "scan_phdr ph st =
    (let (loaddr, hiaddr, info) = st in
     if p_type ph = PT_LOAD then
       (let lo = p_vaddr ph - p_offset ph; hi = p_vaddr ph + p_memsz ph - 1
        in (if lo < loaddr then lo else loaddr, if hi > hiaddr then hi else hiaddr,
            info\<lparr>nsegs := nsegs info + 1, alignment := alignment info OR p_align ph\<rparr>))
     else if p_type ph = PT_INTERP then (loaddr, hiaddr, info)
     else if p_type ph = PT_GNU_STACK then
       (loaddr, hiaddr, info\<lparr>exec_stack := p_flags ph AND PF_X\<rparr>)
     else (loaddr, hiaddr, info))"

definition scan_phdrs :: "elf_phdr_t list \<Rightarrow> image_info \<Rightarrow> u64 \<times> u64 \<times> image_info" where
  "scan_phdrs phs info = fold scan_phdr phs (- 1, 0, info)"

definition segment_prot :: "u32 \<Rightarrow> c_int" where
  "segment_prot flags =
    (let prot = 0;
         prot = (if flags AND PF_R \<noteq> 0 then prot OR PROT_READ else prot);
         prot = (if flags AND PF_W \<noteq> 0 then prot OR PROT_WRITE else prot)
     in if flags AND PF_X \<noteq> 0 then prot OR PROT_EXEC OR PROT_READ else prot)"

text \<open>The mapping of one \<open>PT_LOAD\<close> segment.\<close>

definition map_segment :: "'w os \<Rightarrow> c_int \<Rightarrow> elf_phdr_t \<Rightarrow> u64 \<Rightarrow> c_int \<Rightarrow> 'w proc \<Rightarrow> ('w, unit) outcome" where
  "map_segment os fd ph vaddr prot p =
    (let vaddr_po = TARGET_ELF_PAGEOFFSET vaddr; vaddr_ps = TARGET_ELF_PAGESTART vaddr in
     if p_filesz ph \<noteq> 0 then
       then_do (try_mmap Sys_error (target_mmap os vaddr_ps (TARGET_ELF_PAGELENGTH (p_filesz ph + vaddr_po)) prot
           (MAP_PRIVATE OR MAP_FIXED) fd (p_offset ph - vaddr_po) p))
         (\<lambda>_ p. if p_filesz ph < p_memsz ph
           then zero_bss os (vaddr + p_filesz ph) (vaddr + p_memsz ph) prot p else (Inr (), p))
     else if p_memsz ph \<noteq> 0 then
       then_do (try_mmap Sys_error (target_mmap os vaddr_ps (TARGET_ELF_PAGELENGTH (p_memsz ph + vaddr_po)) prot
           (MAP_PRIVATE OR MAP_FIXED) (- 1) 0 p)) (\<lambda>_ p. (Inr (), p))
     else (Inr (), p))"

text \<open>The bounds of the program, widened by one segment.\<close>

definition segment_bounds :: "elf_phdr_t \<Rightarrow> u64 \<Rightarrow> c_int \<Rightarrow> image_info \<Rightarrow> image_info" where
  "segment_bounds ph vaddr prot info =
    (let vaddr_ef = vaddr + p_filesz ph; vaddr_em = vaddr + p_memsz ph;
         info = (if prot AND PROT_EXEC \<noteq> 0
           then info\<lparr>start_code := if vaddr < start_code info then vaddr else start_code info,
                     end_code := if vaddr_ef > end_code info then vaddr_ef else end_code info\<rparr>
           else info)
     in info\<lparr>start_data := if vaddr < start_data info then vaddr else start_data info,
             end_data := if vaddr_ef > end_data info then vaddr_ef else end_data info,
             info_brk := if vaddr_em > info_brk info then vaddr_em else info_brk info\<rparr>)"

definition load_segment ::
  "'w os \<Rightarrow> c_int \<Rightarrow> elf_phdr_t \<Rightarrow> image_info \<Rightarrow> 'w proc \<Rightarrow> ('w, image_info) outcome" where
  "load_segment os fd ph info p =
    (if p_type ph \<noteq> PT_LOAD then (Inr info, p)
     else
       (let prot = segment_prot (p_flags ph); vaddr = load_bias info + p_vaddr ph in
        then_do (map_segment os fd ph vaddr prot p) (\<lambda>_ p.
          if prot AND PROT_READ = 0 then (Inl (Fail Unreadable_segment), p)
          else (Inr (segment_bounds ph vaddr prot info), p))))"

fun load_segments ::
  "'w os \<Rightarrow> c_int \<Rightarrow> elf_phdr_t list \<Rightarrow> image_info \<Rightarrow> 'w proc \<Rightarrow> ('w, image_info) outcome" where
  "load_segments os fd [] info p = (Inr info, p)"
| "load_segments os fd (ph # phs) info p =
     then_do (load_segment os fd ph info p) (load_segments os fd phs)"

text \<open>The flags of the reservation and of the heap: only a fixed executable asks for its addresses.\<close>

definition image_flags :: "elf_ehdr_t \<Rightarrow> c_int" where
  "image_flags ehdr = MAP_PRIVATE OR (if e_type ehdr = ET_EXEC then MAP_FIXED else 0)"

definition reserve_image ::
  "'w os \<Rightarrow> elf_ehdr_t \<Rightarrow> elf_phdr_t list \<Rightarrow> image_info \<Rightarrow> 'w proc \<Rightarrow> ('w, u64 \<times> image_info) outcome" where
  "reserve_image os ehdr phs info p =
    (let (loaddr, hiaddr, info) = scan_phdrs phs (info\<lparr>nsegs := 0, alignment := 0\<rparr>);
         info = info\<lparr>reserve_brk := 32 * 2 ^ 20\<rparr>;
         hiaddr = hiaddr + reserve_brk info
     in then_do (try_mmap Sys_error (target_mmap os loaddr (hiaddr - loaddr + 1) PROT_NONE (image_flags ehdr) (- 1) 0 p))
       (\<lambda>addr p.
         let bias = addr - loaddr in
         (Inr (hiaddr, info\<lparr>load_bias := bias, code_offset := bias, data_offset := bias, load_addr := addr,
            info_entry := e_entry ehdr + bias, start_code := - 1, end_code := 0, start_data := - 1,
            end_data := 0, info_brk := 0, elf_flags := e_flags ehdr\<rparr>), p)))"

definition map_heap :: "'w os \<Rightarrow> elf_ehdr_t \<Rightarrow> u64 \<Rightarrow> image_info \<Rightarrow> 'w proc \<Rightarrow> ('w, u64) outcome" where
  "map_heap os ehdr hiaddr info p =
    (let brk_aligned = ROUND_UP (info_brk info) TARGET_PAGE_SIZE
     in try_mmap Sys_error (target_mmap os brk_aligned (hiaddr - brk_aligned + 1) (PROT_READ OR PROT_WRITE)
          (image_flags ehdr) (- 1) 0 p))"

definition map_stack ::
  "'w os \<Rightarrow> u64 \<Rightarrow> image_info \<Rightarrow> linux_binprm \<Rightarrow> 'w proc \<Rightarrow> ('w, image_info \<times> linux_binprm) outcome" where
  "map_stack os stack_size info bprm p =
    (let prot = (if exec_stack info \<noteq> 0 then PROT_READ OR PROT_WRITE OR PROT_EXEC else PROT_READ OR PROT_WRITE);
         guard = TARGET_PAGE_SIZE
     in then_do (try_mmap No_stack (target_mmap os 0 (stack_size + guard) prot MAP_PRIVATE (- 1) 0 p))
       (\<lambda>limit p.
         (let (ret, p) = target_mprotect os limit guard PROT_NONE p in
          if ret <s 0 then (Inl (Fail Sys_error), p)
          else (let limit = limit + guard
                in (Inr (info\<lparr>stack_limit := limit\<rparr>, bprm\<lparr>bp_p := limit + stack_size - 8\<rparr>), p)))))"

definition load_elf_binary ::
  "'w os \<Rightarrow> u64 \<Rightarrow> linux_binprm \<Rightarrow> image_info \<Rightarrow> 'w proc \<Rightarrow> ('w, image_info \<times> linux_binprm) outcome option" where
  "load_elf_binary os guest_stack_size bprm info p =
    (let ehdr = ehdr_of_bytes (bp_buf bprm) in
     case elf_check_ehdr ehdr of
       Some e \<Rightarrow> Some (Inl (Fail e), p)
     | None \<Rightarrow>
         map_option (\<lambda>r. then_do r (\<lambda>phs p.
           then_do (reserve_image os ehdr phs info p) (\<lambda>(hiaddr, info) p.
           then_do (load_segments os (execfd bprm) phs info p) (\<lambda>info p.
           then_do (map_heap os ehdr hiaddr info p) (\<lambda>_ p.
           then_do (map_stack os guest_stack_size info bprm p) (\<lambda>(info, bprm) p.
           then_do (create_elf_tables os bprm p) (\<lambda>bprm p.
             (Inr (info\<lparr>start_stack := bp_p bprm\<rparr>, bprm),
              p\<lparr>world := os_close os (world p) (execfd bprm)\<rparr>))))))))
         (load_elf_phdrs os ehdr (execfd bprm) p))"

definition BINPRM_BUF_SIZE :: nat where "BINPRM_BUF_SIZE = 256"

text \<open>The first bytes of the file, over a buffer of zeros.\<close>

definition prepare_binprm :: "'w os \<Rightarrow> linux_binprm \<Rightarrow> 'w proc \<Rightarrow> ('w, linux_binprm) outcome option" where
  "prepare_binprm os bprm p =
    map_option (\<lambda>(r, w). case r of
        Inl _ \<Rightarrow> (Inl (Fail Sys_error), p\<lparr>world := w\<rparr>)
      | Inr bs \<Rightarrow> (Inr (bprm\<lparr>bp_buf := bs @ replicate (BINPRM_BUF_SIZE - length bs) 0\<rparr>), p\<lparr>world := w\<rparr>))
      (readn os (execfd bprm) (of_nat BINPRM_BUF_SIZE) (world p))"

text \<open>\<open>struct target_pt_regs\<close>, of which only two registers are set.\<close>

record target_pt_regs =
  regs_sepc :: u64
  regs_sp :: u64

definition init_thread :: "image_info \<Rightarrow> target_pt_regs" where
  "init_thread info = \<lparr>regs_sepc = info_entry info, regs_sp = start_stack info\<rparr>"

definition elf_load ::
  "'w os \<Rightarrow> u64 \<Rightarrow> c_int \<Rightarrow> u8 list \<Rightarrow> u8 list list \<Rightarrow> u8 list list \<Rightarrow> 'w proc \<Rightarrow>
    ('w, image_info \<times> target_pt_regs) outcome option" where
  "elf_load os guest_stack_size fd filename argv envp p =
    (let bprm = \<lparr>bp_buf = [], bp_p = 0, execfd = fd, bp_argc = length argv, bp_envc = length envp,
       bp_argv = argv, bp_envp = envp, bp_filename = filename\<rparr>
     in case prepare_binprm os bprm p of
       None \<Rightarrow> None
     | Some (Inl e, p) \<Rightarrow> Some (Inl e, p)
     | Some (Inr bprm, p) \<Rightarrow>
         map_option (\<lambda>r. then_do r (\<lambda>(info, bprm) p. (Inr (info, init_thread info), p)))
           (load_elf_binary os guest_stack_size bprm zero_info p))"

end
