(* ===== verification/Syscall.thy ===== *)
theory Syscall
  imports Mmap
begin

text \<open>
  The system calls of \<open>syscall.c\<close>.  \<open>do_syscall\<close> runs the call of the number on the host and returns the
  value for \<open>a0\<close>; \<open>exit\<close> and an unknown number end the process.
\<close>

section \<open>The program break\<close>

definition target_set_brk :: "u64 \<Rightarrow> 'w proc \<Rightarrow> 'w proc" where
  "target_set_brk new_brk p =
    (let b = TARGET_PAGE_ALIGN new_brk in p\<lparr>target_brk := b, initial_target_brk := b\<rparr>)"

definition do_brk :: "u64 \<Rightarrow> 'w proc \<Rightarrow> u64 \<times> 'w proc" where
  "do_brk brk_val p =
    (let b = (if brk_val < initial_target_brk p then initial_target_brk p else brk_val)
     in (b, p\<lparr>target_brk := b\<rparr>))"

section \<open>\<open>fstat\<close>\<close>

text \<open>
  The guest's \<open>struct target_stat\<close> as its bytes in memory: 64-bit fields, and the 32-bit ones in pairs,
  so that the layout has no padding of its own.
\<close>

definition target_stat_bytes :: "host_stat \<Rightarrow> u8 list" where
  "target_stat_bytes st =
     le_bytes 8 (st_dev st) @ le_bytes 8 (st_ino st) @
     le_bytes 4 (ucast (st_mode st)) @ le_bytes 4 (st_nlink st) @
     le_bytes 4 (ucast (st_uid st)) @ le_bytes 4 (ucast (st_gid st)) @
     le_bytes 8 (st_rdev st) @ le_bytes 8 0 @
     le_bytes 8 (st_size st) @ le_bytes 4 (st_blksize st) @ le_bytes 4 0 @
     le_bytes 8 (st_blocks st) @
     le_bytes 8 (st_atime st) @ le_bytes 8 (st_atimensec st) @
     le_bytes 8 (st_mtime st) @ le_bytes 8 (st_mtimensec st) @
     le_bytes 8 (st_ctime st) @ le_bytes 8 (st_ctimensec st) @
     le_bytes 4 0 @ le_bytes 4 0"

section \<open>Dispatch\<close>

abbreviation (input) TARGET_NR_faccessat :: c_int where "TARGET_NR_faccessat \<equiv> 48"
abbreviation (input) TARGET_NR_close :: c_int where "TARGET_NR_close \<equiv> 57"
abbreviation (input) TARGET_NR_write :: c_int where "TARGET_NR_write \<equiv> 64"
abbreviation (input) TARGET_NR_fstat :: c_int where "TARGET_NR_fstat \<equiv> 80"
abbreviation (input) TARGET_NR_exit :: c_int where "TARGET_NR_exit \<equiv> 93"
abbreviation (input) TARGET_NR_brk :: c_int where "TARGET_NR_brk \<equiv> 214"
abbreviation (input) TARGET_NR_mmap :: c_int where "TARGET_NR_mmap \<equiv> 222"

text \<open>
  The C \<open>int\<close> results widen with their sign to \<open>target_ulong\<close>; the arguments narrow to the \<open>int\<close>
  parameters of the host's functions.  On a failing \<open>fstat\<close> the code copies out a structure
  that the call did not fill: \<open>os_fstat\<close> returns whatever it holds.
\<close>

definition do_syscall ::
  "'w os \<Rightarrow> c_int \<Rightarrow> u64 \<Rightarrow> u64 \<Rightarrow> u64 \<Rightarrow> u64 \<Rightarrow> u64 \<Rightarrow> u64 \<Rightarrow> 'w proc \<Rightarrow> u64 result \<times> 'w proc" where
  "do_syscall os nr arg1 arg2 arg3 arg4 arg5 arg6 p =
    (let gb = guest_base (mach p); hm = mem (mach p) in
     if nr = TARGET_NR_faccessat then
       (let (ret, w) = os_access os (world p) hm (g2h gb arg2) (ucast arg3)
        in (Inr (scast ret), p\<lparr>world := w\<rparr>))
     else if nr = TARGET_NR_fstat then
       (let (ret, st, w) = os_fstat os (world p) (ucast arg1)
        in case target_memory_copy arg2 (target_stat_bytes st) (p\<lparr>world := w\<rparr>) of
             Inl e \<Rightarrow> (Inl e, p\<lparr>world := w\<rparr>)
           | Inr (_, p) \<Rightarrow> (Inr (scast ret), p))
     else if nr = TARGET_NR_write then
       (let (ret, w) = os_write os (world p) hm (ucast arg1) (g2h gb arg2) arg3
        in (Inr ret, p\<lparr>world := w\<rparr>))
     else if nr = TARGET_NR_close then (Inr 0, p)
     else if nr = TARGET_NR_exit then (Inl (Exited (ucast arg1)), p)
     else if nr = TARGET_NR_brk then (let (ret, p) = do_brk arg1 p in (Inr ret, p))
     else if nr = TARGET_NR_mmap then
       (let (ret, p) = target_mmap os arg1 arg2 (ucast arg3) (ucast arg4) (ucast arg5) arg6 p
        in (Inr ret, p))
     else (Inl (Exited 1), p))"

section \<open>Facts\<close>

lemma target_stat_length: "length (target_stat_bytes st) = 128"
  by (simp add: target_stat_bytes_def le_bytes_def)

lemma target_set_brk_aligned:
  assumes "unat b + 4096 \<le> 2 ^ 64"
  shows "4096 dvd unat (initial_target_brk (target_set_brk b p)) \<and> b \<le> initial_target_brk (target_set_brk b p)"
proof -
  have "unat (TARGET_PAGE_ALIGN b) = (unat b + 2 ^ 12 - 1) div 2 ^ 12 * 2 ^ 12"
    using unat_ROUND_UP [of b 12] assms by (simp add: TARGET_PAGE_ALIGN_def TARGET_PAGE_SIZE_def)
  with round_up_bounds [of "2 ^ 12" "unat b"] show ?thesis
    by (simp add: target_set_brk_def word_le_nat_alt Let_def)
qed

lemma do_brk_bounds: "do_brk b p = (r, p') \<Longrightarrow>
    initial_target_brk p \<le> r \<and> target_brk p' = r \<and> initial_target_brk p' = initial_target_brk p \<and>
    mach p' = mach p"
  by (auto simp: do_brk_def Let_def)

lemma target_mmap_frame:
  assumes "target_mmap os addr len prot flags fd offset p = (r, p')"
  shows "guest_base (mach p') = guest_base (mach p) \<and> env (mach p') = env (mach p) \<and>
    target_brk p' = target_brk p \<and> initial_target_brk p' = initial_target_brk p"
proof -
  have find: "guest_base (mach p1) = guest_base (mach p) \<and> env (mach p1) = env (mach p) \<and>
      target_brk p1 = target_brk p \<and> initial_target_brk p1 = initial_target_brk p"
    if "mmap_find_vma os addr len p = (a, p1)" for a p1
    using that by (auto simp: mmap_find_vma_def Let_def split: prod.splits if_splits dest!: host_mmap_frame)
  show ?thesis
    using assms by (auto simp: target_mmap_def Let_def split: prod.splits if_splits
        dest!: host_mmap_frame dest: find)
qed

text \<open>A system call leaves the CPU state to its caller.\<close>

lemma do_syscall_frame:
  assumes "do_syscall os nr a1 a2 a3 a4 a5 a6 p = (r, p')"
  shows "guest_base (mach p') = guest_base (mach p) \<and> env (mach p') = env (mach p) \<and>
    initial_target_brk p' = initial_target_brk p"
  using assms
  by (auto simp: do_syscall_def Let_def target_memory_copy_def bind_result_Inr of_access_Inr do_brk_def
      split: if_splits prod.splits sum.splits dest: target_mmap_frame)

end
