(* ===== verification/Elf_Props.thy ===== *)
theory Elf_Props
  imports Elf_Loader Syscall
begin

text \<open>
  Facts about the loader: the bounds of the image, the contents of a mapped segment, and the failures.
\<close>

section \<open>Bounds\<close>

definition loadable :: "elf_phdr_t list \<Rightarrow> elf_phdr_t set" where
  "loadable phs = {ph \<in> set phs. p_type ph = PT_LOAD}"

lemma scan_fold_bounds:
  assumes "fold scan_phdr phs (lo, hi, info) = (lo', hi', info')"
  shows "lo' \<le> lo \<and> hi \<le> hi' \<and>
    (\<forall>ph\<in>loadable phs. lo' \<le> p_vaddr ph - p_offset ph \<and> p_vaddr ph + p_memsz ph - 1 \<le> hi') \<and>
    (lo' = lo \<or> (\<exists>ph\<in>loadable phs. lo' = p_vaddr ph - p_offset ph)) \<and>
    (hi' = hi \<or> (\<exists>ph\<in>loadable phs. hi' = p_vaddr ph + p_memsz ph - 1))"
  using assms
proof (induction phs arbitrary: lo hi info)
  case Nil
  then show ?case by (simp add: loadable_def)
next
  case (Cons ph phs)
  obtain lo1 hi1 info1 where s: "scan_phdr ph (lo, hi, info) = (lo1, hi1, info1)" by (metis prod.exhaust)
  have l: "loadable (ph # phs) = (if p_type ph = PT_LOAD then {ph} else {}) \<union> loadable phs"
    by (auto simp: loadable_def)
  from Cons.IH [of lo1 hi1 info1] Cons.prems s have ih: "lo' \<le> lo1 \<and> hi1 \<le> hi' \<and>
      (\<forall>ph\<in>loadable phs. lo' \<le> p_vaddr ph - p_offset ph \<and> p_vaddr ph + p_memsz ph - 1 \<le> hi') \<and>
      (lo' = lo1 \<or> (\<exists>ph\<in>loadable phs. lo' = p_vaddr ph - p_offset ph)) \<and>
      (hi' = hi1 \<or> (\<exists>ph\<in>loadable phs. hi' = p_vaddr ph + p_memsz ph - 1))" by simp
  show ?case
  proof (cases "p_type ph = PT_LOAD")
    case True
    with s have "lo1 = min lo (p_vaddr ph - p_offset ph)" "hi1 = max hi (p_vaddr ph + p_memsz ph - 1)"
      by (auto simp: scan_phdr_def Let_def min_def max_def split: if_splits)
    with ih True show ?thesis unfolding l by (auto simp: min_def max_def split: if_splits)
  next
    case False
    with s have "lo1 = lo" "hi1 = hi" by (auto simp: scan_phdr_def Let_def split: if_splits)
    with ih False show ?thesis unfolding l by simp
  qed
qed

lemma scan_fold_nsegs:
  assumes "fold scan_phdr phs (lo, hi, info) = (lo', hi', info')"
  shows "nsegs info' = nsegs info + of_nat (length (filter (\<lambda>ph. p_type ph = PT_LOAD) phs))"
  using assms
  by (induction phs arbitrary: lo hi info) (auto simp: scan_phdr_def Let_def split: if_splits)

lemma segment_readable:
  assumes "segment_prot fl AND PROT_READ \<noteq> 0"
  shows "fl AND (PF_R OR PF_X) \<noteq> 0"
proof
  assume z: "fl AND (PF_R OR PF_X) = 0"
  have "fl AND PF_R = (fl AND (PF_R OR PF_X)) AND PF_R" "fl AND PF_X = (fl AND (PF_R OR PF_X)) AND PF_X"
    by (simp_all add: PF_R_def PF_X_def and.assoc)
  with z have "fl AND PF_R = 0" "fl AND PF_X = 0" by simp_all
  with assms show False by (simp add: segment_prot_def PROT_READ_def PROT_WRITE_def Let_def split: if_splits)
qed

text \<open>The brk is the highest end of a segment; the data bounds enclose the segments.\<close>

lemma load_segment_Inr:
  assumes "load_segment os fd ph info p = (Inr info', p')"
  shows "info' = (if p_type ph = PT_LOAD
    then segment_bounds ph (load_bias info + p_vaddr ph) (segment_prot (p_flags ph)) info else info)"
    and "p_type ph = PT_LOAD \<Longrightarrow> segment_prot (p_flags ph) AND PROT_READ \<noteq> 0"
  using assms by (auto simp: load_segment_def Let_def then_do_Inr split: if_splits)

lemma segment_bounds_sel [simp]:
  "load_bias (segment_bounds ph v prot info) = load_bias info"
  "info_entry (segment_bounds ph v prot info) = info_entry info"
  "exec_stack (segment_bounds ph v prot info) = exec_stack info"
  by (simp_all add: segment_bounds_def Let_def)

lemma segment_bounds_data:
  "info_brk (segment_bounds ph v prot info) = max (info_brk info) (v + p_memsz ph)"
  "end_data (segment_bounds ph v prot info) = max (end_data info) (v + p_filesz ph)"
  "start_data (segment_bounds ph v prot info) = min (start_data info) v"
  by (auto simp: segment_bounds_def Let_def max_def min_def)

lemma load_segments_bounds:
  assumes "load_segments os fd phs info p = (Inr info', p')"
  shows "load_bias info' = load_bias info \<and> info_entry info' = info_entry info \<and> exec_stack info' = exec_stack info \<and>
    info_brk info \<le> info_brk info' \<and>
    (\<forall>ph\<in>loadable phs. load_bias info + p_vaddr ph + p_memsz ph \<le> info_brk info' \<and>
       start_data info' \<le> load_bias info + p_vaddr ph \<and> load_bias info + p_vaddr ph + p_filesz ph \<le> end_data info' \<and>
       segment_prot (p_flags ph) AND PROT_READ \<noteq> 0) \<and>
    start_data info' \<le> start_data info \<and> end_data info \<le> end_data info' \<and>
    (info_brk info' = info_brk info \<or> (\<exists>ph\<in>loadable phs. info_brk info' = load_bias info + p_vaddr ph + p_memsz ph))"
  using assms
proof (induction phs arbitrary: info p)
  case Nil
  then show ?case by (simp add: loadable_def)
next
  case (Cons ph phs)
  from Cons.prems obtain info1 p1 where 1: "load_segment os fd ph info p = (Inr info1, p1)"
      "load_segments os fd phs info1 p1 = (Inr info', p')" by (auto simp: then_do_Inr)
  note s = load_segment_Inr [OF 1(1)]
  have l: "loadable (ph # phs) = (if p_type ph = PT_LOAD then {ph} else {}) \<union> loadable phs"
    by (auto simp: loadable_def)
  show ?case
    using Cons.IH [OF 1(2)] s unfolding l
    by (cases "p_type ph = PT_LOAD")
      (auto simp: segment_bounds_data max_def min_def split: if_splits)
qed

section \<open>The reservation\<close>

lemma image_flags_fixed: "image_flags ehdr AND MAP_FIXED \<noteq> 0 \<longleftrightarrow> e_type ehdr = ET_EXEC"
proof -
  have "MAP_PRIVATE AND MAP_FIXED = 0" by (simp add: MAP_PRIVATE_def MAP_FIXED_def)
  then show ?thesis using fixed_flags(1) by (simp add: image_flags_def)
qed

lemma target_mmap_fixed:
  assumes "flags AND MAP_FIXED \<noteq> 0" and "target_mmap os addr len prot flags fd off p = (a, p')" and "a \<noteq> - 1"
  shows "a = addr" and "\<exists>q. q \<noteq> MAP_FAILED \<and>
    host_mmap os (g2h (guest_base (mach p)) addr) len prot flags fd off p = (q, p')"
  using assms by (auto simp: target_mmap_def Let_def split: prod.splits if_splits)

lemma reserve_image_Inr:
  assumes "reserve_image os ehdr phs info p = (Inr (hi, info'), p')"
  shows "\<exists>lo hi0 info0. scan_phdrs phs (info\<lparr>nsegs := 0, alignment := 0\<rparr>) = (lo, hi0, info0) \<and>
    hi = hi0 + 32 * 2 ^ 20 \<and> load_bias info' = load_addr info' - lo \<and> info_entry info' = e_entry ehdr + load_bias info' \<and>
    exec_stack info' = exec_stack info0 \<and> nsegs info' = nsegs info0 \<and> info_brk info' = 0 \<and>
    start_data info' = - 1 \<and> end_data info' = 0 \<and> (e_type ehdr = ET_EXEC \<longrightarrow> load_bias info' = 0)"
proof -
  obtain lo hi0 info0 where s: "scan_phdrs phs (info\<lparr>nsegs := 0, alignment := 0\<rparr>) = (lo, hi0, info0)"
    by (metis prod.exhaust)
  from assms obtain addr where m: "target_mmap os lo (hi - lo + 1) PROT_NONE (image_flags ehdr) (- 1) 0 p = (addr, p')"
      "addr \<noteq> - 1" "hi = hi0 + 32 * 2 ^ 20"
    and info': "info' = info0\<lparr>reserve_brk := 32 * 2 ^ 20, load_bias := addr - lo, code_offset := addr - lo,
      data_offset := addr - lo, load_addr := addr, info_entry := e_entry ehdr + (addr - lo), start_code := - 1,
      end_code := 0, start_data := - 1, end_data := 0, info_brk := 0, elf_flags := e_flags ehdr\<rparr>"
    unfolding reserve_image_def s
    by (auto simp: Let_def then_do_Inr try_mmap_def split: prod.splits if_splits)
  have "addr = lo" if "e_type ehdr = ET_EXEC"
    by (rule target_mmap_fixed(1) [OF _ m(1,2)]) (use that image_flags_fixed in simp)
  with s m(3) info' show ?thesis by simp
qed

section \<open>The contents of a segment\<close>

text \<open>
  What the loader relies on, from the manual page of \<open>mmap\<close>: with \<open>MAP_FIXED\<close> whole pages from the address on show
  the file from the offset on, the rest of the memory stays; and \<open>/dev/zero\<close> reads as zeros.
\<close>

definition page_len :: "u64 \<Rightarrow> nat" where
  "page_len len = (unat len + 4095) div 4096 * 4096"

definition maps_file :: "'w os \<Rightarrow> (c_int \<Rightarrow> u64 \<Rightarrow> u8) \<Rightarrow> bool" where
  "maps_file os file \<longleftrightarrow> (\<forall>w h addr len prot flags fd off r h' w'.
     os_mmap os w h addr len prot flags fd off = (r, h', w') \<longrightarrow> flags AND MAP_FIXED \<noteq> 0 \<longrightarrow> r \<noteq> MAP_FAILED \<longrightarrow>
     (\<forall>x. hbytes h' x = (if in_range addr (page_len len) x then file fd (off + (x - addr)) else hbytes h x)))"

lemma maps_fileD:
  assumes "maps_file os file" and "os_mmap os w h addr len prot flags fd off = (r, h', w')"
    and "flags AND MAP_FIXED \<noteq> 0" and "r \<noteq> MAP_FAILED"
  shows "hbytes h' x = (if in_range addr (page_len len) x then file fd (off + (x - addr)) else hbytes h x)"
  using assms unfolding maps_file_def by blast

definition zero_device :: "'w os \<Rightarrow> (c_int \<Rightarrow> u64 \<Rightarrow> u8) \<Rightarrow> bool" where
  "zero_device os file \<longleftrightarrow> (\<forall>w. fst (os_open_zero os w) = - 1 \<or> (\<forall>off. file (fst (os_open_zero os w)) off = 0))"

definition host_byte :: "'w proc \<Rightarrow> u64 \<Rightarrow> u8" where
  "host_byte p x = hbytes (mem (mach p)) x"

lemma host_mmap_bytes:
  assumes "maps_file os file" and "zero_device os file" and "flags AND MAP_FIXED \<noteq> 0"
    and "host_mmap os addr len prot flags fd off p = (r, p')" and "r \<noteq> MAP_FAILED"
  shows "host_byte p' x =
    (if in_range addr (page_len len) x then (if fd <s 0 then 0 else file fd (off + (x - addr))) else host_byte p x)"
proof (cases "fd <s 0")
  case True
  with assms(4,5) obtain fd' w h w' where o: "os_open_zero os (world p) = (fd', w)" "fd' \<noteq> - 1"
      "os_mmap os w (mem (mach p)) addr len prot flags fd' off = (r, h, w')" "mem (mach p') = h"
    by (auto simp: host_mmap_def Let_def split: prod.splits if_splits)
  from assms(2) o(1,2) have "file fd' y = 0" for y by (metis fst_conv zero_device_def)
  with True maps_fileD [OF assms(1) o(3) assms(3,5)] o(4) show ?thesis by (simp add: host_byte_def)
next
  case False
  with assms(4) obtain h w' where "os_mmap os (world p) (mem (mach p)) addr len prot flags fd off = (r, h, w')"
      "mem (mach p') = h"
    by (auto simp: host_mmap_def Let_def split: prod.splits if_splits)
  with False maps_fileD [OF assms(1) _ assms(3,5)] show ?thesis by (simp add: host_byte_def)
qed

text \<open>Rounding up to pages, as numbers.\<close>

lemma page_up:
  assumes "unat n + 4096 \<le> 2 ^ 64"
  shows "unat (ROUND_UP n 4096) = (unat n + 4095) div 4096 * 4096"
    and "unat n \<le> unat (ROUND_UP n 4096)" and "unat (ROUND_UP n 4096) < unat n + 4096"
proof -
  have e: "unat (ROUND_UP n (2 ^ 12)) = (unat n + 2 ^ 12 - 1) div 2 ^ 12 * 2 ^ 12"
    by (rule unat_ROUND_UP) (use assms in simp)
  then show "unat (ROUND_UP n 4096) = (unat n + 4095) div 4096 * 4096" by simp
  with round_up_bounds [of 4096 "unat n"]
  show "unat n \<le> unat (ROUND_UP n 4096)" "unat (ROUND_UP n 4096) < unat n + 4096" by simp_all
qed

lemma page_len_round: "unat n + 4096 \<le> 2 ^ 64 \<Longrightarrow> page_len (ROUND_UP n 4096) = unat (ROUND_UP n 4096)"
  by (simp add: page_len_def page_up(1))

lemma page_up_mult:
  assumes "unat n + 4096 \<le> 2 ^ 64"
  shows "4096 dvd unat (ROUND_UP n 4096)"
  by (simp add: page_up(1) [OF assms])

lemma unat_plus:
  fixes a :: u64
  assumes "unat a + k < 2 ^ 64"
  shows "unat (a + of_nat k) = unat a + k"
  using assms by (simp add: unat_word_ariths unat_of_nat take_bit_nat_eq_self)

lemma unat_minus: "a \<le> b \<Longrightarrow> unat (b - a) = unat b - unat a" for a b :: u64
  by (rule unat_sub)

text \<open>The guest's pages are the host's: the base of the window is a multiple of the page size.\<close>

lemma page_g2h:
  assumes "take_bit 12 gb = 0"
  shows "g2h gb (ROUND_UP x 4096) = ROUND_UP (g2h gb x) 4096"
proof -
  have m: "unat (take_bit 12 w) = unat w mod 4096" for w :: u64
    by (simp only: unsigned_take_bit_eq take_bit_nat_def) simp
  have t: "take_bit 12 (x + gb) = take_bit 12 x" for x
  proof -
    have "unat gb mod 4096 = 0" using m [of gb] assms by simp
    then have "(unat x + unat gb) mod 4096 = unat x mod 4096" by (metis add.right_neutral mod_add_right_eq)
    then have "(unat x + unat gb) mod 2 ^ 64 mod 4096 = unat x mod 4096" by (subst mod_mod_cancel) simp_all
    then show ?thesis by (simp add: word_unat_eq_iff m unat_word_ariths)
  qed
  have "ROUND_UP (x + gb) (2 ^ 12) = ROUND_UP x (2 ^ 12) + gb"
    unfolding ROUND_UP_def ROUND_DOWN_exp using t [of "x + 2 ^ 12 - 1"] by (simp add: ac_simps)
  then show ?thesis by (simp add: g2h_def)
qed

lemma page_parts:
  "TARGET_ELF_PAGEOFFSET v = take_bit 12 v" "TARGET_ELF_PAGESTART v = v - take_bit 12 v"
proof -
  have m: "(4095 :: u64) = mask 12" by (simp add: mask_eq_exp_minus_1)
  show o: "TARGET_ELF_PAGEOFFSET v = take_bit 12 v"
    by (simp add: TARGET_ELF_PAGEOFFSET_def TARGET_ELF_MIN_ALIGN_def m take_bit_eq_mask)
  have "v AND NOT (mask 12) = push_bit 12 (drop_bit 12 v)" by (rule bit_word_eqI) (auto simp: bit_simps)
  also have "\<dots> = v - take_bit 12 v" by (metis add_diff_cancel_right' bits_ident)
  finally show "TARGET_ELF_PAGESTART v = v - take_bit 12 v"
    by (simp add: TARGET_ELF_PAGESTART_def TARGET_ELF_MIN_ALIGN_def m)
qed

lemma in_range_nat:
  assumes "unat a + n \<le> 2 ^ 64"
  shows "in_range a n x \<longleftrightarrow> unat a \<le> unat x \<and> unat x < unat a + n"
proof (cases "a \<le> x")
  case True
  then show ?thesis by (auto simp: in_range_def unat_minus word_le_nat_alt)
next
  case False
  then have "unat (x - a) = 2 ^ 64 + unat x - unat a"
    by (simp add: unat_sub_if_size word_size word_le_nat_alt)
  with False assms show ?thesis by (simp add: in_range_def word_le_nat_alt)
qed

lemma map_zero_bytes:
  assumes "maps_file os file" and "zero_device os file"
    and "try_mmap e (host_mmap os a len prot (MAP_FIXED OR MAP_PRIVATE) (- 1) 0 p) = (Inr r, p')"
    and "4096 dvd unat len" and "unat a + unat len \<le> 2 ^ 64"
  shows "host_byte p' x = (if unat a \<le> unat x \<and> unat x < unat a + unat len then 0 else host_byte p x)"
proof -
  have l: "page_len len = unat len" using assms(4) by (auto simp: page_len_def elim!: dvdE)
  obtain q where q: "host_mmap os a len prot (MAP_FIXED OR MAP_PRIVATE) (- 1) 0 p = (q, p')" "q \<noteq> MAP_FAILED"
    using assms(3) by (auto simp: try_mmap_def MAP_FAILED_def split: prod.splits if_splits)
  have f: "(MAP_FIXED OR MAP_PRIVATE) AND MAP_FIXED \<noteq> 0" using fixed_flags(1) by (simp add: or.commute)
  have n: "(- 1 :: c_int) <s 0" by simp
  show ?thesis
    using host_mmap_bytes [OF assms(1,2) f q, of x] n in_range_nat [OF assms(5)]
    unfolding l by simp
qed

text \<open>Clearing from \<open>elf_bss\<close> to the end of the page of \<open>elf_brk\<close>.\<close>

lemma zero_bss_bytes:
  assumes "maps_file os file" and "zero_device os file" and gb: "take_bit 12 (guest_base (mach p)) = 0"
    and z: "zero_bss os bss brk prot p = (Inr u, p')"
    and hs: "hs = g2h (guest_base (mach p)) bss" and hb: "hb = g2h (guest_base (mach p)) brk"
    and b: "unat hs \<le> unat hb" "unat hb + 4096 \<le> 2 ^ 64"
  shows "unat hs \<le> unat x \<Longrightarrow> unat x < unat hb \<Longrightarrow> host_byte p' x = 0"
    and "unat x < unat hs \<Longrightarrow> host_byte p' x = host_byte p x"
proof -
  define hsa where "hsa = ROUND_UP hs 4096"
  define he where "he = ROUND_UP hb 4096"
  have he': "g2h (guest_base (mach p)) (TARGET_PAGE_ALIGN brk) = he"
    by (simp add: TARGET_PAGE_ALIGN_def TARGET_PAGE_SIZE_def page_g2h [OF gb] he_def hb)
  have u: "unat hs \<le> unat hsa" "unat hsa < unat hs + 4096" "4096 dvd unat hsa"
    "unat hb \<le> unat he" "4096 dvd unat he"
    using page_up(2,3) [of hs] page_up(2) [of hb] page_up_mult [of hs] page_up_mult [of hb] b
    by (simp_all add: hsa_def he_def)
  let ?map = "if hsa < he then try_mmap Sys_error (host_mmap os hsa (he - hsa) prot
      (MAP_FIXED OR MAP_PRIVATE) (- 1) 0 p) else (Inr 0, p)"
  from z obtain r p1 where p1: "?map = (Inr r, p1)"
    and "(if hs < hsa then case store_bytes (mem (mach p1)) hs (replicate (unat (hsa - hs)) 0) of
        None \<Rightarrow> (Inl (Fault (Segv Guest_access)), p1) | Some h \<Rightarrow> (Inr (), set_mem h (world p1) p1)
      else (Inr (), p1)) = (Inr u, p')"
    unfolding zero_bss_def Let_def HOST_PAGE_ALIGN_def HOST_PAGE_SIZE_def hs [symmetric] he' hsa_def [symmetric]
      then_do_Inr by blast
  then have fin: "if hs < hsa then store_bytes (mem (mach p1)) hs (replicate (unat (hsa - hs)) 0) = Some (mem (mach p'))
      else p' = p1"
    by (auto split: if_splits option.splits)
  have mid: "host_byte p1 x = (if unat hsa \<le> unat x \<and> unat x < unat he then 0 else host_byte p x)" for x
  proof (cases "hsa < he")
    case True
    then have l: "unat (he - hsa) = unat he - unat hsa" by (intro unat_minus) simp
    from True p1 have "try_mmap Sys_error (host_mmap os hsa (he - hsa) prot
        (MAP_FIXED OR MAP_PRIVATE) (- 1) 0 p) = (Inr r, p1)" by simp
    moreover have "4096 dvd unat (he - hsa)" unfolding l using u by (intro dvd_diff_nat)
    moreover have "unat hsa \<le> unat he" using True by (simp add: word_less_nat_alt)
    moreover have "unat he < 2 ^ LENGTH(64)" by (rule unsigned_less)
    ultimately show ?thesis using map_zero_bytes [OF assms(1,2), of Sys_error hsa "he - hsa" prot p r p1 x]
      unfolding l by simp
  next
    case False
    with p1 show ?thesis by (auto simp: word_less_nat_alt)
  qed
  have last: "host_byte p' x = (if unat hs \<le> unat x \<and> unat x < unat hsa then 0 else host_byte p1 x)" for x
  proof (cases "hs < hsa")
    case True
    then have l: "unat (hsa - hs) = unat hsa - unat hs" by (intro unat_minus) simp
    have lt: "unat hs < unat hsa" using True by (simp add: word_less_nat_alt)
    have "unat hsa < 2 ^ LENGTH(64)" by (rule unsigned_less)
    have "in_range hs (unat (hsa - hs)) x \<longleftrightarrow> unat hs \<le> unat x \<and> unat x < unat hsa"
      using \<open>unat hsa < 2 ^ LENGTH(64)\<close> l lt by (subst in_range_nat) simp_all
    moreover have "unat (x - hs) < unat (hsa - hs)" if "in_range hs (unat (hsa - hs)) x"
      using that by (simp add: in_range_def)
    ultimately show ?thesis using fin True by (auto simp: store_bytes_Some host_byte_def)
  next
    case False
    with u(1) have "unat hsa = unat hs" by (simp add: word_less_nat_alt)
    with False fin show ?thesis by auto
  qed
  show "host_byte p' x = 0" if "unat hs \<le> unat x" "unat x < unat hb"
    using that u(4) by (auto simp: last mid)
  show "host_byte p' x = host_byte p x" if "unat x < unat hs"
    using that u(1) by (simp add: last mid)
qed

lemma map_segment_bytes:
  assumes m: "maps_file os file" "zero_device os file" and gb: "take_bit 12 (guest_base (mach p)) = 0"
    and seg: "map_segment os fd ph vaddr prot p = (Inr u, p')" and fd: "\<not> fd <s 0" and "p_filesz ph \<noteq> 0"
    and hv: "hv = g2h (guest_base (mach p)) vaddr"
    and b: "unat hv + unat (p_filesz ph) + 8192 \<le> 2 ^ 64" "unat hv + unat (p_memsz ph) + 8192 \<le> 2 ^ 64"
  shows "k < unat (p_filesz ph) \<Longrightarrow> host_byte p' (hv + of_nat k) = file fd (p_offset ph + of_nat k)"
    and "unat (p_filesz ph) \<le> k \<Longrightarrow> k < unat (p_memsz ph) \<Longrightarrow> host_byte p' (hv + of_nat k) = 0"
proof -
  let ?gb = "guest_base (mach p)" and ?fs = "p_filesz ph" and ?ms = "p_memsz ph"
  define po where "po = take_bit 12 vaddr"
  define len where "len = ROUND_UP (?fs + po) 4096"
  have po: "unat po < 4096" using unat_take_bit_less [of 12 vaddr] by (simp add: po_def)
  have "unat (?fs + po) = unat ?fs + unat po" using unat_plus [of ?fs "unat po"] po b(1) by simp
  with page_up [of "?fs + po"] page_len_round [of "?fs + po"] po b(1)
  have len: "page_len len = unat len" "unat ?fs + unat po \<le> unat len" "unat len < unat ?fs + unat po + 4096"
    by (simp_all add: len_def)
  obtain a p1 where 1: "try_mmap Sys_error (target_mmap os (vaddr - po) len prot (MAP_PRIVATE OR MAP_FIXED) fd
      (p_offset ph - po) p) = (Inr a, p1)"
    and 2: "(if ?fs < ?ms then zero_bss os (vaddr + ?fs) (vaddr + ?ms) prot p1 else (Inr (), p1)) = (Inr u, p')"
    using seg \<open>p_filesz ph \<noteq> 0\<close>
    unfolding map_segment_def Let_def page_parts TARGET_ELF_PAGELENGTH_def po_def [symmetric] len_def
    by (auto simp: then_do_Inr)
  have t: "target_mmap os (vaddr - po) len prot (MAP_PRIVATE OR MAP_FIXED) fd (p_offset ph - po) p = (a, p1)" "a \<noteq> - 1"
    using 1 by (auto simp: try_mmap_def split: prod.splits if_splits)
  have gb1: "guest_base (mach p1) = ?gb" using target_mmap_frame [OF t(1)] by simp
  from target_mmap_fixed(2) [OF fixed_flags(1) t] obtain q where
    q: "host_mmap os (g2h ?gb (vaddr - po)) len prot (MAP_PRIVATE OR MAP_FIXED) fd (p_offset ph - po) p = (q, p1)"
      "q \<noteq> MAP_FAILED" by blast
  have bytes: "host_byte p1 (hv + of_nat k) = file fd (p_offset ph + of_nat k)" if "k < unat ?fs" for k
  proof -
    have d: "hv + of_nat k - g2h ?gb (vaddr - po) = of_nat (unat po + k)" by (simp add: hv g2h_def)
    have "unat (of_nat (unat po + k) :: u64) = unat po + k"
      using that po b(1) by (subst unat_of_nat) (simp add: take_bit_nat_eq_self)
    then have "in_range (g2h ?gb (vaddr - po)) (page_len len) (hv + of_nat k)"
      using that len(1,2) unfolding in_range_def d by simp
    then show ?thesis
      using host_mmap_bytes [OF m fixed_flags(1) q, of "hv + of_nat k"] fd unfolding d by (simp add: add.commute)
  qed
  have u: "unat (hv + of_nat k) = unat hv + k" if "k < unat ?fs \<or> k < unat ?ms" for k
    using that b by (intro unat_plus) auto
  have g: "g2h ?gb (vaddr + x) = hv + x" for x by (simp add: hv g2h_def)
  have e: "unat (hv + x) = unat hv + unat x" if "x = ?fs \<or> x = ?ms" for x
    using unat_plus [of hv "unat x"] that b by auto
  show "host_byte p' (hv + of_nat k) = file fd (p_offset ph + of_nat k)" if k: "k < unat ?fs"
  proof (cases "?fs < ?ms")
    case True
    with 2 have z: "zero_bss os (vaddr + ?fs) (vaddr + ?ms) prot p1 = (Inr u, p')" by simp
    have "host_byte p' (hv + of_nat k) = host_byte p1 (hv + of_nat k)"
      by (rule zero_bss_bytes(2) [OF m gb [folded gb1] z])
        (use gb1 g e u k True b in \<open>auto simp: word_less_nat_alt\<close>)
    then show ?thesis using bytes [OF k] by simp
  next
    case False
    with 2 bytes [OF k] show ?thesis by simp
  qed
  show "host_byte p' (hv + of_nat k) = 0" if k: "unat ?fs \<le> k" "k < unat ?ms"
  proof -
    from k have "?fs < ?ms" by (simp add: word_less_nat_alt)
    with 2 have z: "zero_bss os (vaddr + ?fs) (vaddr + ?ms) prot p1 = (Inr u, p')" by simp
    show ?thesis
      by (rule zero_bss_bytes(1) [OF m gb [folded gb1] z])
        (use gb1 g e u k \<open>?fs < ?ms\<close> b in \<open>auto simp: word_less_nat_alt\<close>)
  qed
qed

end
