(* ===== verification/Cpu_Loop.thy ===== *)
theory Cpu_Loop
  imports Syscall Exec_Refine
begin

text \<open>
  \<open>cpu_loop\<close> of \<open>arch/riscv/cpu.c\<close>: run the guest until it raises an exception, serve it, go on.  The
  loop only ends with the process, so its result is how the process ended and the world it left.
\<close>

section \<open>Operations\<close>

definition INSN_BUFFER_MAP_START :: u64 where "INSN_BUFFER_MAP_START = 0x500000000000"

definition alloc_insn_buffer :: "'w os \<Rightarrow> 'w proc \<Rightarrow> bool \<times> 'w proc" where
  "alloc_insn_buffer os p =
    (let (r, p) = host_mmap os INSN_BUFFER_MAP_START (of_nat INSN_BUFFER_SIZE)
       (PROT_READ OR PROT_WRITE) (MAP_FIXED OR MAP_PRIVATE) (- 1) 0 p
     in (r \<noteq> MAP_FAILED, p))"

text \<open>The buffer of a fresh mapping and the zeroed hash table.\<close>

definition empty_cache :: code_cache where
  "empty_cache = \<lparr>insn_buf = \<lambda>_. zero_insn, insn_buffer_ptr = 0, trans_blocks = [],
     block_hash_table = replicate FAST_TABLE_SIZE None\<rparr>"

definition set_env :: "state_t \<Rightarrow> 'w proc \<Rightarrow> 'w proc" where
  "set_env e p = p\<lparr>mach := (mach p)\<lparr>env := e\<rparr>\<rparr>"

text \<open>The switch on the exception number, and the reset of the exception after it.\<close>

definition handle_exception :: "'w os \<Rightarrow> 'w proc \<Rightarrow> unit result \<times> 'w proc" where
  "handle_exception os p =
    (let e = env (mach p) in
     case env_exception e of
       U_ECALL \<Rightarrow>
         (case do_syscall os (ucast (gpr e ! xA7)) (gpr e ! xA0) (gpr e ! xA1) (gpr e ! xA2)
             (gpr e ! xA3) (gpr e ! xA4) (gpr e ! xA5) p of
            (Inl s, p) \<Rightarrow> (Inl s, p)
          | (Inr ret, p) \<Rightarrow>
              (let e = env (mach p);
                   e = e\<lparr>env_pc := env_pc e + 4, gpr := (gpr e)[xA0 := ret], env_exception := EXCP_NONE\<rparr>
               in (Inr (), set_env e p)))
     | ILLEGAL_INST \<Rightarrow> (Inl (Exited 1), p)
     | _ \<Rightarrow> (Inl Assert_failed, p))"

partial_function (option) run_loop :: "'w os \<Rightarrow> code_cache \<Rightarrow> 'w proc \<Rightarrow> (stop \<times> 'w) option" where
  "run_loop os cc p =
    (case cpu_exec None cc (mach p) of
       None \<Rightarrow> None
     | Some (Inl s) \<Rightarrow> Some (s, world p)
     | Some (Inr (m, cc)) \<Rightarrow>
         (case handle_exception os (p\<lparr>mach := m\<rparr>) of
            (Inl s, p) \<Rightarrow> Some (s, world p)
          | (Inr _, p) \<Rightarrow> run_loop os cc p))"

text \<open>When the buffer cannot be mapped the function returns, and \<open>main\<close> returns 0.\<close>

definition cpu_loop :: "'w os \<Rightarrow> 'w proc \<Rightarrow> (stop \<times> 'w) option" where
  "cpu_loop os p =
    (case alloc_insn_buffer os p of
       (False, p) \<Rightarrow> Some (Exited 0, world p)
     | (True, p) \<Rightarrow> run_loop os empty_cache
         (set_env ((env (mach p))\<lparr>env_exception := EXCP_NONE\<rparr>) p))"

section \<open>Without a cache\<close>

text \<open>
  The loop over \<open>ref_exec\<close>.  Code stays fixed over a system call when every opcode that could be fetched
  before is still there; a call that breaks this has no result here.
\<close>

definition code_kept :: "machine \<Rightarrow> machine \<Rightarrow> bool" where
  "code_kept m m' \<longleftrightarrow> (\<forall>pc v. fixed_code (mem m) (guest_base m) pc = Some v \<longrightarrow>
     fixed_code (mem m') (guest_base m') pc = Some v)"

fun ref_loop :: "'w os \<Rightarrow> nat \<Rightarrow> 'w proc \<Rightarrow> (stop \<times> 'w) option" where
  "ref_loop os 0 p = None"
| "ref_loop os (Suc n) p =
    (case ref_exec n (mach p) of
       None \<Rightarrow> None
     | Some (Inl s) \<Rightarrow> Some (s, world p)
     | Some (Inr m) \<Rightarrow>
         (case handle_exception os (p\<lparr>mach := m\<rparr>) of
            (Inl s, p) \<Rightarrow> Some (s, world p)
          | (Inr _, p) \<Rightarrow> if code_kept m (mach p) then ref_loop os n p else None))"

lemma cache_inv_code_kept:
  assumes "cache_inv m cc" and "code_kept m m'"
  shows "cache_inv m' cc"
proof -
  have "block_at m' pc = Some (is, c)" if "block_at m pc = Some (is, c)" for pc "is" c
    unfolding block_at_def
  proof (rule fetch_block_mono)
    show "fetch_block (fixed_code (mem m) (guest_base m)) (start_ctx pc) 0 = Some (is, c)"
      using that by (simp only: block_at_def)
    show "\<not> tc_exit (start_ctx pc)" by (simp add: start_ctx_def)
    show "fixed_code (mem m') (guest_base m') a = Some v"
      if "fixed_code (mem m) (guest_base m) a = Some v" for a v
      using that assms(2) by (simp add: code_kept_def)
  qed
  then have "block_code_ok m' cc b" if "block_code_ok m cc b" for b
    using that by (auto simp: block_code_ok_def)
  with assms(1) show ?thesis by (simp add: cache_inv_def)
qed

lemma empty_cache_inv: "cache_inv m empty_cache"
proof -
  have "bucket [] h = []" for h by (simp add: bucket_def)
  then show ?thesis by (simp add: cache_inv_def empty_cache_def table_ok_def buffer_ok_def)
qed

text \<open>The starts of the blocks of the whole run.\<close>

fun loop_starts :: "'w os \<Rightarrow> nat \<Rightarrow> 'w proc \<Rightarrow> u64 list" where
  "loop_starts os 0 p = []"
| "loop_starts os (Suc n) p = ref_starts n (mach p) @
    (case ref_exec n (mach p) of
       Some (Inr m) \<Rightarrow>
         (case handle_exception os (p\<lparr>mach := m\<rparr>) of (Inr _, p) \<Rightarrow> loop_starts os n p | _ \<Rightarrow> [])
     | _ \<Rightarrow> [])"

lemma loop_starts_length: "length (loop_starts os n p) \<le> n * n"
proof (induction n arbitrary: p)
  case (Suc n)
  have "length (case ref_exec n (mach p) of Some (Inr m) \<Rightarrow>
      (case handle_exception os (p\<lparr>mach := m\<rparr>) of (Inr _, p) \<Rightarrow> loop_starts os n p | _ \<Rightarrow> []) | _ \<Rightarrow> []) \<le> n * n"
    using Suc by (simp split: option.split sum.split prod.split)
  with ref_starts_length [of n "mach p"] show ?case by simp
qed simp

lemma roomy_empty: "finite V \<Longrightarrow> card V \<le> 65536 \<Longrightarrow> roomy V empty_cache"
  by (simp add: roomy_def empty_cache_def TRANS_MAX_def SIZEOF_INSN_def INSN_BUFFER_SIZE_def)

lemma run_loop_fits:
  assumes "cache_inv (mach p) cc" and "ref_loop os n p = Some r"
  shows "\<exists>r'. run_loop os cc p = Some r' \<and> (r' = r \<or> fst r' = Segv Insn_buffer) \<and>
    (roomy V cc \<and> set (loop_starts os n p) \<subseteq> V \<longrightarrow> r' = r)"
  using assms
proof (induction n arbitrary: p cc)
  case (Suc n)
  then obtain q where q: "ref_exec n (mach p) = Some q" by (auto split: option.splits)
  have "prev_ok cc pc None" for pc by (simp add: prev_ok_def)
  then obtain q' where c: "cpu_exec None cc (mach p) = Some q'" "agrees q q'"
      "roomy V cc \<and> set (ref_starts n (mach p)) \<subseteq> V \<longrightarrow> fits V q q'"
    using cpu_exec_fits [OF Suc.prems(1) _ q, of None V] by blast
  show ?case
  proof (cases "q' = Inl (Segv Insn_buffer)")
    case True
    have "r = (Segv Insn_buffer, world p)" if "roomy V cc \<and> set (loop_starts os (Suc n) p) \<subseteq> V"
      using that c(3) True q Suc.prems(2) by (simp add: fits_def)
    with c(1) True show ?thesis by (auto simp: run_loop.simps [of os cc p])
  next
    case False
    show ?thesis
    proof (cases q)
      case (Inl s)
      with c(1,2) False q Suc.prems(2) show ?thesis by (simp add: run_loop.simps [of os cc p] agrees_def)
    next
      case (Inr m)
      with c(2) False obtain cc' where q': "q' = Inr (m, cc')" and inv: "cache_inv m cc'"
        by (auto simp: agrees_def)
      obtain h p' where h: "handle_exception os (p\<lparr>mach := m\<rparr>) = (h, p')" by fastforce
      show ?thesis
      proof (cases h)
        case (Inl s)
        with h q' c(1) q Inr Suc.prems(2) show ?thesis by (simp add: run_loop.simps [of os cc p])
      next
        case (Inr u)
        with h q \<open>q = Inr m\<close> Suc.prems(2) have "code_kept m (mach p')" "ref_loop os n p' = Some r"
          by (auto split: if_splits)
        with Suc.IH [OF cache_inv_code_kept [OF inv]] obtain r' where
          "run_loop os cc' p' = Some r'" "r' = r \<or> fst r' = Segv Insn_buffer"
          "roomy V cc' \<and> set (loop_starts os n p') \<subseteq> V \<longrightarrow> r' = r" by blast
        moreover have "roomy V cc'" if "roomy V cc \<and> set (ref_starts n (mach p)) \<subseteq> V"
          using that c(3) q' by (simp add: fits_def)
        moreover have "loop_starts os (Suc n) p = ref_starts n (mach p) @ loop_starts os n p'"
          using h q Inr \<open>q = Inr m\<close> by simp
        ultimately show ?thesis using h Inr q' c(1) by (simp add: run_loop.simps [of os cc p])
      qed
    qed
  qed
qed simp

lemma run_loop_ref:
  assumes "cache_inv (mach p) cc" and "ref_loop os n p = Some r"
  shows "\<exists>r'. run_loop os cc p = Some r' \<and> (r' = r \<or> fst r' = Segv Insn_buffer)"
  using run_loop_fits [OF assms] by blast

end
