(* ===== verification/Options.thy ===== *)
theory Options
  imports File_Io
begin

text \<open>
  The command line, \<open>parse_options\<close> of \<open>util.c\<close>.  A vector of strings is a list with \<open>None\<close> for the null pointer;
  the kernel puts the environment and its null pointer right behind those of the arguments, and the code
  walks from one to the other.  Strings are their bytes without the final zero.
\<close>

section \<open>The C library\<close>

definition bytes :: "string \<Rightarrow> u8 list" where
  "bytes s = map of_char s"

text \<open>\<open>strtoul (arg, NULL, 0)\<close>: white space, a sign, and a number whose base its prefix tells.\<close>

definition isspace :: "u8 \<Rightarrow> bool" where
  "isspace c \<longleftrightarrow> c = 0x20 \<or> 0x09 \<le> c \<and> c \<le> 0x0d"

definition digit_value :: "u8 \<Rightarrow> nat" where
  "digit_value c =
    (if 0x30 \<le> c \<and> c \<le> 0x39 then unat c - 0x30
     else if 0x61 \<le> c \<and> c \<le> 0x7a then unat c - 0x61 + 10
     else if 0x41 \<le> c \<and> c \<le> 0x5a then unat c - 0x41 + 10
     else 36)"

definition sign_of :: "u8 list \<Rightarrow> bool \<times> u8 list" where
  "sign_of s = (case s of [] \<Rightarrow> (False, []) | c # r \<Rightarrow>
     if c = 0x2d then (True, r) else if c = 0x2b then (False, r) else (False, s))"

definition base_of :: "u8 list \<Rightarrow> nat \<times> u8 list" where
  "base_of s = (case s of [] \<Rightarrow> (10, []) | c # r \<Rightarrow>
     if c \<noteq> 0x30 then (10, s)
     else (case r of x # d # _ \<Rightarrow> if (x = 0x78 \<or> x = 0x58) \<and> digit_value d < 16 then (16, tl r) else (8, s)
           | _ \<Rightarrow> (8, s)))"

definition digits_value :: "nat \<Rightarrow> u8 list \<Rightarrow> nat" where
  "digits_value base ds = foldl (\<lambda>n c. n * base + digit_value c) 0 (takeWhile (\<lambda>c. digit_value c < base) ds)"

definition strtoul :: "u8 list \<Rightarrow> u64" where
  "strtoul s =
    (let (neg, s) = sign_of (dropWhile isspace s);
         (base, s) = base_of s;
         n = digits_value base s
     in if n \<ge> 2 ^ 64 then - 1 else if neg then - of_nat n else of_nat n)"

section \<open>Operations\<close>

text \<open>The static variables that the options set; \<open>logoutf\<close> only matters for whether it prints.\<close>

record settings =
  opt_guest_base :: u64
  guest_stack_size :: u64
  logoutf :: bool

definition default_settings :: settings where
  "default_settings = \<lparr>opt_guest_base = 0x400000000000, guest_stack_size = 8 * 2 ^ 20, logoutf = False\<rparr>"

text \<open>The function an option points to, by name.\<close>

datatype option_handler = Handle_help | Handle_guest_base | Handle_guest_stack | Handle_debug

record option_t =
  option_name :: "u8 list"
  option_alias :: "u8 list"
  need_arg :: bool
  handle_opt :: option_handler

definition opt_table :: "option_t list" where
  "opt_table =
    [\<lparr>option_name = bytes ''--help'', option_alias = bytes ''-h'', need_arg = False, handle_opt = Handle_help\<rparr>,
     \<lparr>option_name = bytes ''--address'', option_alias = bytes ''-B'', need_arg = True, handle_opt = Handle_guest_base\<rparr>,
     \<lparr>option_name = bytes ''--stack'', option_alias = bytes ''-s'', need_arg = True, handle_opt = Handle_guest_stack\<rparr>,
     \<lparr>option_name = bytes ''--debug'', option_alias = bytes ''-d'', need_arg = False, handle_opt = Handle_debug\<rparr>]"

definition find_option :: "u8 list \<Rightarrow> option_t option" where
  "find_option name = List.find (\<lambda>opt. name = option_name opt \<or> name = option_alias opt) opt_table"

text \<open>An option that needs its argument passes it to \<open>strtoul\<close> unchecked, a null pointer too.\<close>

definition handle_guest_base :: "u8 list option \<Rightarrow> settings \<Rightarrow> failure + settings" where
  "handle_guest_base arg st = (case arg of None \<Rightarrow> Inl Undefined | Some s \<Rightarrow> Inr (st\<lparr>opt_guest_base := strtoul s\<rparr>))"

definition handle_guest_stack :: "u8 list option \<Rightarrow> settings \<Rightarrow> failure + settings" where
  "handle_guest_stack arg st = (case arg of None \<Rightarrow> Inl Undefined | Some s \<Rightarrow> Inr (st\<lparr>guest_stack_size := strtoul s\<rparr>))"

definition handle_debug :: "u8 list option \<Rightarrow> settings \<Rightarrow> failure + settings" where
  "handle_debug arg st = Inr (st\<lparr>logoutf := True\<rparr>)"

definition handle_help :: "u8 list option \<Rightarrow> settings \<Rightarrow> failure + settings" where
  "handle_help arg st = Inl (Fault (Exited 0))"

definition run_option :: "option_handler \<Rightarrow> u8 list option \<Rightarrow> settings \<Rightarrow> failure + settings" where
  "run_option h = (case h of Handle_help \<Rightarrow> handle_help | Handle_guest_base \<Rightarrow> handle_guest_base
    | Handle_guest_stack \<Rightarrow> handle_guest_stack | Handle_debug \<Rightarrow> handle_debug)"

text \<open>\<open>vsprintf\<close> into a local array of 256 bytes, for the one format that is used.\<close>

definition strdupf :: "u8 list \<Rightarrow> failure + u8 list" where
  "strdupf arg =
    (let str = bytes ''Invalid option: '' @ arg @ bytes ''.''
     in if length str + 1 > 256 then Inl Undefined else Inr str)"

type_synonym vector = "u8 list option list"

text \<open>The loop over the options; the empty list is a read past the end of the vector.\<close>

fun scan_options :: "vector \<Rightarrow> settings \<Rightarrow> failure + settings \<times> vector" where
  "scan_options [] st = Inl Undefined"
| "scan_options (None # opts) st = Inr (st, None # opts)"
| "scan_options (Some opt # opts) st =
    (if opt = [] \<or> hd opt \<noteq> 0x2d then Inr (st, Some opt # opts)
     else (case find_option opt of
         None \<Rightarrow> Inl (case strdupf opt of Inl e \<Rightarrow> e | Inr str \<Rightarrow> Fail (Invalid_option str))
       | Some option \<Rightarrow>
           if need_arg option then
             (case opts of
                [] \<Rightarrow> Inl Undefined
              | arg # opts \<Rightarrow>
                  (case run_option (handle_opt option) arg st of
                     Inl e \<Rightarrow> Inl e | Inr st \<Rightarrow> scan_options opts st))
           else
             (case run_option (handle_opt option) None st of
                Inl e \<Rightarrow> Inl e | Inr st \<Rightarrow> scan_options opts st)))"

definition parse_options :: "vector \<Rightarrow> settings \<Rightarrow> failure + settings \<times> u8 list \<times> vector \<times> vector" where
  "parse_options opts st =
    (case scan_options opts st of
       Inl e \<Rightarrow> Inl e
     | Inr (st, opts) \<Rightarrow>
         (case opts of
            Some prog # rest \<Rightarrow>
              (case dropWhile (\<lambda>s. s \<noteq> None) rest of
                 [] \<Rightarrow> Inl Undefined
               | _ # envp \<Rightarrow> Inr (st, prog, opts, envp))
          | _ \<Rightarrow> Inl (Fail No_program)))"

text \<open>The strings of a vector up to its null pointer; \<open>count\<close> of \<open>elfload.c\<close> is their number.\<close>

definition strings :: "vector \<Rightarrow> u8 list list" where
  "strings v = map the (takeWhile (\<lambda>s. s \<noteq> None) v)"

section \<open>Numbers\<close>

text \<open>A number written in a base comes back.\<close>

definition digit_char :: "nat \<Rightarrow> u8" where
  "digit_char d = (if d < 10 then of_nat (0x30 + d) else of_nat (0x61 + (d - 10)))"

fun digits :: "nat \<Rightarrow> nat \<Rightarrow> u8 list" where
  "digits base n = (if base < 2 \<or> n = 0 then [] else digits base (n div base) @ [digit_char (n mod base)])"

declare digits.simps [simp del]

lemma digit_value_char: "d < 36 \<Longrightarrow> digit_value (digit_char d) = d"
proof -
  have "\<forall>d\<in>{0..<36}. digit_value (digit_char d) = d" by code_simp
  then show "d < 36 \<Longrightarrow> digit_value (digit_char d) = d" by simp
qed

lemma digits_value_all:
  assumes "2 \<le> base" and "base \<le> 36"
  shows "c \<in> set (digits base n) \<Longrightarrow> digit_value c < base"
    and "foldl (\<lambda>n c. n * base + digit_value c) 0 (digits base n) = n"
proof -
  have c: "digit_value (digit_char (m mod base)) = m mod base" "m mod base < base" for m
  proof -
    show "m mod base < base" using assms by simp
    with assms(2) show "digit_value (digit_char (m mod base)) = m mod base" by (intro digit_value_char) simp
  qed
  show "c \<in> set (digits base n) \<Longrightarrow> digit_value c < base"
    using c assms by (induction base n rule: digits.induct) (subst (asm) (2) digits.simps, auto split: if_splits)
  show "foldl (\<lambda>n c. n * base + digit_value c) 0 (digits base n) = n"
    using c assms by (induction base n rule: digits.induct) (subst digits.simps, auto)
qed

lemma digits_first:
  assumes "2 \<le> base" and "0 < n"
  shows "\<exists>d ds. digits base n = digit_char d # ds \<and> 0 < d \<and> d < base"
  using assms
proof (induction base n rule: digits.induct)
  case (1 base n)
  have u: "digits base n = digits base (n div base) @ [digit_char (n mod base)]"
    using 1(2,3) by (subst digits.simps) simp
  show ?case
  proof (cases "n div base = 0")
    case True
    then have "n mod base = n" "n < base" using 1(2,3) by (simp_all add: div_eq_0_iff)
    with True 1(3) show ?thesis unfolding u by (intro exI [of _ n]) (simp add: digits.simps)
  next
    case False
    with 1 obtain d ds where "digits base (n div base) = digit_char d # ds" "0 < d" "d < base" by auto
    then show ?thesis unfolding u by auto
  qed
qed

definition number :: "nat \<Rightarrow> u64 \<Rightarrow> u8 list" where
  "number base w =
    (if base = 16 then bytes ''0x'' @ digits 16 (unat w)
     else if base = 8 then bytes ''0'' @ digits 8 (unat w)
     else if w = 0 then bytes ''0'' else digits 10 (unat w))"

lemma digits_value_digits:
  assumes "2 \<le> base" and "base \<le> 36"
  shows "digits_value base (digits base n) = n"
proof -
  have t: "takeWhile (\<lambda>c. digit_value c < base) (digits base n) = digits base n"
    using digits_value_all(1) [OF assms] by (simp add: takeWhile_eq_all_conv)
  show ?thesis unfolding digits_value_def t by (rule digits_value_all(2) [OF assms])
qed

lemma digits_value_0: "0 < base \<Longrightarrow> digits_value base (0x30 # ds) = digits_value base ds"
  by (simp add: digits_value_def digit_value_def)

lemma digit_char_plain:
  assumes "d < 10"
  shows "\<not> isspace (digit_char d)" and "digit_char d \<noteq> 0x2d" and "digit_char d \<noteq> 0x2b"
    and "0 < d \<Longrightarrow> digit_char d \<noteq> 0x30"
proof -
  have "\<forall>d\<in>{0..<10}. \<not> isspace (digit_char d) \<and> digit_char d \<noteq> 0x2d \<and> digit_char d \<noteq> 0x2b \<and>
      (0 < d \<longrightarrow> digit_char d \<noteq> 0x30)"
    by code_simp
  with assms show "\<not> isspace (digit_char d)" "digit_char d \<noteq> 0x2d" "digit_char d \<noteq> 0x2b"
    "0 < d \<Longrightarrow> digit_char d \<noteq> 0x30" by auto
qed

lemma digit_char_x: "d < 16 \<Longrightarrow> digit_char d \<noteq> 0x78 \<and> digit_char d \<noteq> 0x58"
proof -
  have "\<forall>d\<in>{0..<16}. digit_char d \<noteq> 0x78 \<and> digit_char d \<noteq> 0x58" by code_simp
  then show "d < 16 \<Longrightarrow> digit_char d \<noteq> 0x78 \<and> digit_char d \<noteq> 0x58" by auto
qed

lemma bytes_0: "bytes ''0'' = [0x30]" "bytes ''0x'' = [0x30, 0x78]"
  by (simp_all add: bytes_def)

lemma strtoul_parts:
  assumes "base_of s = (base, ds)" and "digits_value base ds = unat w"
    and "s \<noteq> [] \<Longrightarrow> \<not> isspace (hd s) \<and> hd s \<noteq> 0x2d \<and> hd s \<noteq> 0x2b"
  shows "strtoul s = w"
proof -
  have "unat w < 2 ^ LENGTH(64)" by (rule unsigned_less)
  moreover have "dropWhile isspace s = s" "sign_of s = (False, s)"
    using assms(3) by (cases s; simp add: sign_of_def)+
  ultimately show ?thesis using assms(1,2) by (simp add: strtoul_def)
qed

lemma strtoul_number: "strtoul (number base w) = w"
proof -
  have z: "\<not> isspace 0x30" "digit_value 0x78 = 33" by (simp_all add: isspace_def digit_value_def)
  consider "base = 16" | "base = 8" | "base \<noteq> 16" "base \<noteq> 8" "w = 0" | "base \<noteq> 16" "base \<noteq> 8" "0 < unat w"
    by (metis unat_eq_zero neq0_conv)
  then show ?thesis
  proof cases
    case 1
    show ?thesis
    proof (cases "unat w = 0")
      case True
      then have "number base w = [0x30, 0x78]" "w = 0" using 1 by (simp_all add: number_def bytes_0 digits.simps unat_eq_zero)
      then show ?thesis
        by (intro strtoul_parts [where base = 8 and ds = "[0x30, 0x78]"])
          (simp_all add: base_of_def digits_value_def z isspace_def digit_value_def)
    next
      case False
      then obtain d ds where d: "digits 16 (unat w) = digit_char d # ds" "d < 16"
        using digits_first [of 16 "unat w"] by auto
      have n: "number base w = 0x30 # 0x78 # digit_char d # ds" using 1 d by (simp add: number_def bytes_0)
      have "digits_value 16 (digit_char d # ds) = unat w" unfolding d(1) [symmetric] by (rule digits_value_digits) simp_all
      then show ?thesis unfolding n
        by (intro strtoul_parts [where base = 16 and ds = "digit_char d # ds"])
          (use d(2) in \<open>simp_all add: base_of_def digit_value_char z(1)\<close>)
    qed
  next
    case 2
    let ?ds = "digits 8 (unat w)"
    have n: "number base w = 0x30 # ?ds" using 2 by (simp add: number_def bytes_0)
    have b: "base_of (0x30 # ?ds) = (8, 0x30 # ?ds)"
    proof (cases "0 < unat w")
      case True
      then obtain d ds where "?ds = digit_char d # ds" "d < 8" using digits_first [of 8 "unat w"] by auto
      with digit_char_x [of d] show ?thesis by (auto simp: base_of_def split: list.split)
    qed (simp add: base_of_def digits.simps)
    show ?thesis unfolding n
      by (rule strtoul_parts [OF b]) (simp_all add: digits_value_0 digits_value_digits z)
  next
    case 3
    then have "number base w = [0x30]" by (simp add: number_def bytes_0)
    then show ?thesis
      by (intro strtoul_parts [where base = 8 and ds = "[0x30]"])
        (simp_all add: base_of_def digits_value_def z isspace_def digit_value_def 3)
  next
    case 4
    then obtain d ds where d: "digits 10 (unat w) = digit_char d # ds" "0 < d" "d < 10"
      using digits_first [of 10 "unat w"] by auto
    have n: "number base w = digits 10 (unat w)" using 4 by (auto simp: number_def)
    show ?thesis unfolding n
      by (rule strtoul_parts [where base = 10])
        (use d digit_char_plain [of d] digits_value_digits [of 10 "unat w"] in \<open>simp_all add: base_of_def\<close>)
  qed
qed

section \<open>Command lines\<close>

text \<open>What a user asks for, and the strings that say so.\<close>

datatype choice = Address nat u64 | Stack nat u64 | Debug

fun choice_words :: "bool \<times> choice \<Rightarrow> u8 list list" where
  "choice_words (long, Address base w) = [if long then bytes ''--address'' else bytes ''-B'', number base w]"
| "choice_words (long, Stack base w) = [if long then bytes ''--stack'' else bytes ''-s'', number base w]"
| "choice_words (long, Debug) = [if long then bytes ''--debug'' else bytes ''-d'']"

fun apply_choice :: "bool \<times> choice \<Rightarrow> settings \<Rightarrow> settings" where
  "apply_choice (long, Address base w) st = st\<lparr>opt_guest_base := w\<rparr>"
| "apply_choice (long, Stack base w) st = st\<lparr>guest_stack_size := w\<rparr>"
| "apply_choice (long, Debug) st = st\<lparr>logoutf := True\<rparr>"

lemma find_option_simps:
  "find_option (bytes ''--help'') = Some (opt_table ! 0)" "find_option (bytes ''-h'') = Some (opt_table ! 0)"
  "find_option (bytes ''--address'') = Some (opt_table ! 1)" "find_option (bytes ''-B'') = Some (opt_table ! 1)"
  "find_option (bytes ''--stack'') = Some (opt_table ! 2)" "find_option (bytes ''-s'') = Some (opt_table ! 2)"
  "find_option (bytes ''--debug'') = Some (opt_table ! 3)" "find_option (bytes ''-d'') = Some (opt_table ! 3)"
  by (simp_all add: find_option_def opt_table_def bytes_def)

lemma scan_choice: "scan_options (map Some (choice_words c) @ opts) st = scan_options opts (apply_choice c st)"
proof -
  have h: "bytes (CHR ''-'' # r) \<noteq> []" "hd (bytes (CHR ''-'' # r)) = 0x2d" for r by (simp_all add: bytes_def)
  obtain long ch where "c = (long, ch)" by fastforce
  then show ?thesis
    by (cases ch)
      (auto simp: h find_option_simps opt_table_def run_option_def handle_guest_base_def handle_guest_stack_def
        handle_debug_def strtoul_number)
qed

lemma scan_choices:
  "scan_options (map Some (concat (map choice_words cs)) @ opts) st = scan_options opts (fold apply_choice cs st)"
  by (induction cs arbitrary: st) (simp_all add: scan_choice)

lemma strings_map: "strings (map Some ss @ None # v) = ss"
  by (induction ss) (simp_all add: strings_def)

lemma parse_choices:
  assumes "prog = [] \<or> hd prog \<noteq> 0x2d"
  shows "parse_options (map Some (concat (map choice_words cs)) @ Some prog # map Some args @ None # envp) st =
    Inr (fold apply_choice cs st, prog, Some prog # map Some args @ None # envp, envp)"
proof -
  have "dropWhile (\<lambda>s. s \<noteq> None) (map Some args @ None # envp) = None # envp"
    by (induction args) simp_all
  with assms show ?thesis by (simp add: parse_options_def scan_choices)
qed

end
