(* ===== verification/Real_Path.thy ===== *)
theory Real_Path
  imports Options
begin

text \<open>
  \<open>get_real_path\<close> of \<open>util.c\<close>: an absolute path without \<open>.\<close> and \<open>..\<close>, built in an array of \<open>PATH_MAX\<close> bytes.  The
  array is the caller's, or a local one that is copied to the heap at the end; either way it is not
  initialised, and the model gets its contents as an argument.  An index past its end is \<open>Undefined\<close>.
\<close>

section \<open>Operations\<close>

definition PATH_MAX :: nat where "PATH_MAX = 4096"

definition write_at :: "nat \<Rightarrow> u8 list \<Rightarrow> u8 list \<Rightarrow> failure + u8 list" where
  "write_at i bs buf =
    (if i + length bs \<le> length buf then Inr (take i buf @ bs @ drop (i + length bs) buf) else Inl Undefined)"

text \<open>The string that starts an array; without a zero the library reads on behind the array.\<close>

definition c_string :: "u8 list \<Rightarrow> failure + u8 list" where
  "c_string buf = (if 0 \<in> set buf then Inr (takeWhile (\<lambda>c. c \<noteq> 0) buf) else Inl Undefined)"

text \<open>The index of the last occurrence.\<close>

fun strrchr :: "u8 list \<Rightarrow> u8 \<Rightarrow> nat option" where
  "strrchr [] c = None"
| "strrchr (x # xs) c =
    (case strrchr xs c of Some i \<Rightarrow> Some (Suc i) | None \<Rightarrow> if x = c then Some 0 else None)"

text \<open>The state of the loop is the array and the end \<open>rp2\<close> of the path in it.\<close>

definition path_up :: "u8 list \<times> nat \<Rightarrow> failure + u8 list \<times> nat" where
  "path_up st =
    (let (buf, rp2) = st in
     case c_string buf of
       Inl e \<Rightarrow> Inl e
     | Inr s \<Rightarrow>
         (case strrchr s 0x2f of
            None \<Rightarrow> Inl Undefined
          | Some i \<Rightarrow>
              (case write_at (if i \<noteq> 0 then i else 1) [0] buf of Inl e \<Rightarrow> Inl e | Inr buf \<Rightarrow> Inr (buf, i))))"

definition path_down :: "u8 list \<Rightarrow> u8 list \<times> nat \<Rightarrow> failure + u8 list \<times> nat" where
  "path_down c st =
    (let (buf, rp2) = st in
     case write_at rp2 (0x2f # c) buf of Inl e \<Rightarrow> Inl e | Inr buf \<Rightarrow> Inr (buf, rp2 + 1 + length c))"

definition path_step :: "u8 list \<Rightarrow> u8 list \<times> nat \<Rightarrow> failure + u8 list \<times> nat" where
  "path_step c st =
    (if c = [] \<or> c = [0x2e] then Inr st
     else if c = [0x2e, 0x2e] then path_up st
     else path_down c st)"

text \<open>One round per piece between slashes, from \<open>p1\<close> on.\<close>

function path_walk :: "u8 list \<Rightarrow> u8 list \<times> nat \<Rightarrow> failure + u8 list \<times> nat" where
  "path_walk p1 st =
    (case path_step (takeWhile (\<lambda>c. c \<noteq> 0x2f) p1) st of
       Inl e \<Rightarrow> Inl e
     | Inr st \<Rightarrow>
         (case dropWhile (\<lambda>c. c \<noteq> 0x2f) p1 of [] \<Rightarrow> Inr st | _ # p1 \<Rightarrow> path_walk p1 st))"
  by pat_completeness auto
termination
proof (relation "measure (\<lambda>(p1, st). length p1)")
  fix p1 :: "u8 list" and x r
  assume "dropWhile (\<lambda>c. c \<noteq> 0x2f) p1 = x # r"
  then have "length (x # r) \<le> length p1" by (metis length_dropWhile_le)
  then show "((r, b), p1, st) \<in> measure (\<lambda>(p1, st). length p1)" for b st :: "u8 list \<times> nat" by simp
qed simp

definition path_start :: "'w os \<Rightarrow> u8 list \<Rightarrow> u8 list \<Rightarrow> 'w \<Rightarrow> (failure + u8 list \<times> u8 list \<times> nat) \<times> 'w" where
  "path_start os path buf w =
    (if path \<noteq> [] \<and> hd path = 0x2f then
       (case write_at 0 [0x2f, 0] buf of Inl e \<Rightarrow> (Inl e, w) | Inr buf \<Rightarrow> (Inr (tl path, buf, 0), w))
     else
       (case os_getcwd os w (of_nat PATH_MAX) of
          (None, w) \<Rightarrow> (Inl (Fail Sys_error), w)
        | (Some cwd, w) \<Rightarrow>
            (case write_at 0 (cwd @ [0]) buf of
               Inl e \<Rightarrow> (Inl e, w) | Inr buf \<Rightarrow> (Inr (path, buf, length cwd), w))))"

definition path_end :: "u8 list \<times> nat \<Rightarrow> failure + u8 list \<times> nat" where
  "path_end st =
    (let (buf, rp2) = st; rp2 = (if rp2 = 0 then rp2 + 1 else rp2)
     in case write_at rp2 [0] buf of Inl e \<Rightarrow> Inl e | Inr buf \<Rightarrow> Inr (buf, rp2))"

definition get_real_path ::
  "'w os \<Rightarrow> u8 list option \<Rightarrow> u8 list option \<Rightarrow> u8 list \<Rightarrow> 'w \<Rightarrow> (failure + u8 list) \<times> 'w" where
  "get_real_path os path real_path buf w =
    (case path of
       None \<Rightarrow> (Inl (Fail Null_path), w)
     | Some path \<Rightarrow>
         (case path_start os path (case real_path of None \<Rightarrow> buf | Some rp \<Rightarrow> rp) w of
            (Inl e, w) \<Rightarrow> (Inl e, w)
          | (Inr (p1, st), w) \<Rightarrow>
              (case (case (if p1 = [] then Inr st else path_walk p1 st) of Inl e \<Rightarrow> Inl e | Inr st \<Rightarrow> path_end st) of
                 Inl e \<Rightarrow> (Inl e, w)
               | Inr (buf, rp2) \<Rightarrow>
                   if real_path \<noteq> None then (Inr buf, w)
                   else (let (ok, w) = os_malloc os w (of_nat (rp2 + 1)) in
                     (if ok then Inr (take (rp2 + 1) buf) else Inl (Fail No_memory), w)))))"

section \<open>Paths as lists of names\<close>

definition path_text :: "u8 list list \<Rightarrow> u8 list" where
  "path_text cs = concat (map (\<lambda>c. 0x2f # c) cs)"

definition enter :: "u8 list \<Rightarrow> u8 list list \<Rightarrow> u8 list list" where
  "enter c cs = (if c = [] \<or> c = [0x2e] then cs else if c = [0x2e, 0x2e] then butlast cs else cs @ [c])"

fun pieces :: "u8 list \<Rightarrow> u8 list list" where
  "pieces [] = [[]]"
| "pieces (c # p) = (if c = 0x2f then [] # pieces p else (c # hd (pieces p)) # tl (pieces p))"

definition plain_name :: "u8 list \<Rightarrow> bool" where
  "plain_name c \<longleftrightarrow> 0 \<notin> set c \<and> 0x2f \<notin> set c"

lemma pieces_not_Nil [simp]: "pieces p \<noteq> []"
  by (cases p) auto

lemma pieces_unfold:
  "pieces p = takeWhile (\<lambda>c. c \<noteq> 0x2f) p #
    (case dropWhile (\<lambda>c. c \<noteq> 0x2f) p of [] \<Rightarrow> [] | _ # r \<Rightarrow> pieces r)"
  by (induction p) auto

lemma pieces_plain: "0 \<notin> set p \<Longrightarrow> c \<in> set (pieces p) \<Longrightarrow> plain_name c"
proof (induction p arbitrary: c)
  case Nil
  then show ?case by (simp add: plain_name_def)
next
  case (Cons x p)
  then have "plain_name (hd (pieces p))" by simp
  moreover have "plain_name d" if "d \<in> set (tl (pieces p))" for d
    using Cons that by (meson list.set_sel(2) pieces_not_Nil set_subset_Cons subsetD set_ConsD list.set_intros(2) insert_iff)
  ultimately show ?case using Cons by (auto simp: plain_name_def split: if_splits)
qed

lemma path_text_simps [simp]:
  "path_text [] = []" "path_text (c # cs) = 0x2f # c @ path_text cs" "path_text (as @ bs) = path_text as @ path_text bs"
  by (simp_all add: path_text_def)

lemma path_text_nonzero: "\<forall>c\<in>set cs. plain_name c \<Longrightarrow> 0 \<notin> set (path_text cs)"
  by (induction cs) (auto simp: plain_name_def)

lemma length_pieces: "sum_list (map (\<lambda>c. length c + 1) (pieces p)) = length p + 1"
proof (induction p)
  case (Cons x p)
  then show ?case by (cases "pieces p") auto
qed simp

section \<open>The loop follows the names\<close>

definition shown :: "u8 list list \<Rightarrow> u8 list" where
  "shown cs = (if cs = [] then [0x2f] else path_text cs)"

text \<open>The array holds the path and behind it no slash, so that the search for one stays within the path.\<close>

definition path_inv :: "nat \<Rightarrow> u8 list list \<Rightarrow> u8 list \<times> nat \<Rightarrow> bool" where
  "path_inv n cs st \<longleftrightarrow> snd st = length (path_text cs) \<and> (\<forall>c\<in>set cs. plain_name c) \<and>
     (\<exists>junk. fst st = shown cs @ junk @ [0] \<and> length (fst st) = n \<and> 0x2f \<notin> set junk)"

lemma strrchr_None: "c \<notin> set xs \<Longrightarrow> strrchr xs c = None"
  by (induction xs) auto

lemma strrchr_last: "c \<notin> set ys \<Longrightarrow> strrchr (xs @ c # ys) c = Some (length xs)"
  by (induction xs) (simp_all add: strrchr_None)

lemma c_string_app: "0 \<notin> set xs \<Longrightarrow> 0 \<in> set ys \<Longrightarrow> c_string (xs @ ys) = Inr (xs @ takeWhile (\<lambda>c. c \<noteq> 0) ys)"
  by (auto simp: c_string_def intro!: takeWhile_append2)

lemma shown_nonzero: "\<forall>c\<in>set cs. plain_name c \<Longrightarrow> 0 \<notin> set (shown cs)"
  using path_text_nonzero [of cs] by (auto simp: shown_def)

lemma write_at_app: "write_at (length xs) ys (xs @ zs) =
    (if length ys \<le> length zs then Inr (xs @ ys @ drop (length ys) zs) else Inl Undefined)"
  by (auto simp: write_at_def)

lemma write_root:
  assumes "0x2f \<notin> set junk"
  shows "\<exists>junk'. write_at 1 [0] (0x2f # junk @ [0]) = Inr (0x2f # junk' @ [0]) \<and> length junk' = length junk \<and>
    0x2f \<notin> set junk'"
proof (cases junk)
  case Nil
  then show ?thesis by (intro exI [of _ "[]"]) (simp add: write_at_def)
next
  case (Cons x r)
  with assms show ?thesis by (intro exI [of _ "0 # r"]) (simp add: write_at_def)
qed

lemma path_up_inv:
  assumes "path_inv n cs st"
  shows "\<exists>st'. path_up st = Inr st' \<and> path_inv n (butlast cs) st'"
proof -
  from assms obtain junk where st: "st = (shown cs @ junk @ [0], length (path_text cs))"
    and j: "length (shown cs @ junk @ [0]) = n" "0x2f \<notin> set junk" and plain: "\<forall>c\<in>set cs. plain_name c"
    by (cases st) (auto simp: path_inv_def)
  let ?j = "takeWhile (\<lambda>c. c \<noteq> 0) (junk @ [0])"
  have str: "c_string (shown cs @ junk @ [0]) = Inr (shown cs @ ?j)"
    by (rule c_string_app [OF shown_nonzero [OF plain]]) simp
  have j': "0x2f \<notin> set ?j" using j(2) by (auto dest: set_takeWhileD)
  show ?thesis
  proof (cases cs rule: rev_cases)
    case Nil
    obtain junk' where w: "write_at 1 [0] (0x2f # junk @ [0]) = Inr (0x2f # junk' @ [0])" "length junk' = length junk"
        "0x2f \<notin> set junk'"
      using write_root [OF j(2)] by blast
    have "strrchr (shown cs @ ?j) 0x2f = Some 0" using strrchr_last [OF j', of "[]"] Nil by (simp add: shown_def)
    with str w(1) Nil st have "path_up st = Inr (0x2f # junk' @ [0], 0)" by (simp add: path_up_def shown_def)
    with w j(1) Nil show ?thesis by (auto simp: path_inv_def shown_def)
  next
    case (snoc ds d)
    have d: "0x2f \<notin> set (d @ ?j)" "0x2f \<notin> set (d @ junk)" using plain j' j(2) by (auto simp: snoc plain_name_def)
    have sh: "shown cs = path_text ds @ 0x2f # d" by (simp add: shown_def snoc)
    have r: "strrchr (shown cs @ ?j) 0x2f = Some (length (path_text ds))"
      using strrchr_last [OF d(1), of "path_text ds"] by (simp add: sh)
    show ?thesis
    proof (cases "ds = []")
      case True
      obtain junk' where w: "write_at 1 [0] (0x2f # (d @ junk) @ [0]) = Inr (0x2f # junk' @ [0])"
          "length junk' = length (d @ junk)" "0x2f \<notin> set junk'"
        using write_root [OF d(2)] by blast
      with str r st sh True have "path_up st = Inr (0x2f # junk' @ [0], 0)" by (simp add: path_up_def)
      with w j(1) True sh show ?thesis by (auto simp: path_inv_def shown_def snoc)
    next
      case False
      then have "path_text ds \<noteq> []" by (cases ds) simp_all
      with str r st sh have "path_up st = Inr (path_text ds @ 0 # d @ junk @ [0], length (path_text ds))"
        using write_at_app [of "path_text ds" "[0]" "0x2f # d @ junk @ [0]"] by (simp add: path_up_def)
      with j(1) d(2) False plain sh show ?thesis
        unfolding path_inv_def shown_def snoc by (auto intro!: exI [of _ "0 # d @ junk"])
    qed
  qed
qed

lemma path_down_inv:
  assumes "path_inv n cs st" and "plain_name c" and "c \<noteq> []" and "length (path_text cs) + length c + 1 < n"
  shows "\<exists>st'. path_down c st = Inr st' \<and> path_inv n (cs @ [c]) st'"
proof -
  from assms(1) obtain junk where st: "st = (shown cs @ junk @ [0], length (path_text cs))"
    and j: "length (shown cs @ junk @ [0]) = n" "0x2f \<notin> set junk" and plain: "\<forall>c\<in>set cs. plain_name c"
    by (cases st) (auto simp: path_inv_def)
  have "\<exists>y. shown cs = path_text cs @ y \<and> length y \<le> 1" by (cases "cs = []") (auto simp: shown_def)
  then obtain y where y: "shown cs = path_text cs @ y" "length y \<le> 1" by blast
  define k where "k = length c + 1 - length y"
  have k: "k \<le> length junk" using j(1) assms(4) y by (simp add: k_def)
  have dr: "drop (length (0x2f # c)) (y @ junk @ [0]) = drop k junk @ [0]"
    using k y(2) by (simp add: k_def)
  have "path_down c st = Inr (path_text cs @ (0x2f # c) @ drop k junk @ [0], length (path_text cs) + 1 + length c)"
    unfolding st path_down_def y(1) append_assoc Let_def prod.case write_at_app dr
    using k j(1) y by (simp add: k_def)
  moreover have "0x2f \<notin> set (drop k junk)" using j(2) by (meson in_set_dropD)
  moreover have "length (path_text cs @ (0x2f # c) @ drop k junk @ [0]) = n"
    using j(1) k y assms(3) by (cases c) (auto simp: k_def)
  ultimately show ?thesis
    using plain assms(2) by (auto simp: path_inv_def shown_def)
qed

lemma path_step_inv:
  assumes "path_inv n cs st" and "plain_name c" and "length (path_text cs) + length c + 1 < n"
  shows "\<exists>st'. path_step c st = Inr st' \<and> path_inv n (enter c cs) st'"
  using assms path_up_inv [OF assms(1)] path_down_inv [OF assms(1,2)]
  by (cases "c = [] \<or> c = [0x2e]"; cases "c = [0x2e, 0x2e]") (auto simp: path_step_def enter_def simp del: split_paired_Ex)

lemma path_text_butlast: "length (path_text (butlast cs)) \<le> length (path_text cs)"
  by (cases cs rule: rev_cases) simp_all

lemma enter_length: "length (path_text (enter c cs)) \<le> length (path_text cs) + length c + 1"
  using path_text_butlast [of cs] by (simp add: enter_def)

lemma path_walk_inv:
  assumes "path_inv n cs st" and "0 \<notin> set p" and "length (path_text cs) + length p + 1 < n"
  shows "\<exists>st'. path_walk p st = Inr st' \<and> path_inv n (fold enter (pieces p) cs) st'"
  using assms
proof (induction "length p" arbitrary: p cs st rule: less_induct)
  case less
  let ?c = "takeWhile (\<lambda>c. c \<noteq> 0x2f) p" and ?r = "dropWhile (\<lambda>c. c \<noteq> 0x2f) p"
  have len: "length p = length ?c + length ?r" by (metis length_append takeWhile_dropWhile_id)
  have "plain_name ?c" using less.prems(2) by (auto simp: plain_name_def dest: set_takeWhileD)
  moreover have "length (path_text cs) + length ?c + 1 < n" using less.prems(3) len by simp
  ultimately obtain st1 where st1: "path_step ?c st = Inr st1" "path_inv n (enter ?c cs) st1"
    using path_step_inv [OF less.prems(1)] by blast
  show ?case
  proof (cases ?r)
    case Nil
    with st1 show ?thesis
      by (subst path_walk.simps, subst pieces_unfold) (simp del: dropWhile_eq_Nil_conv split_paired_Ex)
  next
    case (Cons x r)
    have "set ?r \<subseteq> set p" by (auto dest: set_dropWhileD)
    with Cons less.prems(2) have "0 \<notin> set r" by auto
    moreover have "length (path_text (enter ?c cs)) + length r + 1 < n"
      using less.prems(3) enter_length [of ?c cs] len Cons by simp
    moreover have "length r < length p" using len Cons by simp
    ultimately obtain st' where "path_walk r st1 = Inr st'" "path_inv n (fold enter (pieces r) (enter ?c cs)) st'"
      using less.hyps st1(2) by blast
    with st1 Cons show ?thesis by (subst path_walk.simps, subst pieces_unfold) simp
  qed
qed

lemma path_end_inv:
  assumes "path_inv n cs st"
  shows "\<exists>buf rp2. path_end st = Inr (buf, rp2) \<and> c_string buf = Inr (shown cs)"
proof -
  from assms obtain junk where st: "st = (shown cs @ junk @ [0], length (path_text cs))"
    and plain: "\<forall>c\<in>set cs. plain_name c"
    by (cases st) (auto simp: path_inv_def)
  have l: "(if length (path_text cs) = 0 then length (path_text cs) + 1 else length (path_text cs)) = length (shown cs)"
    by (cases cs) (simp_all add: shown_def)
  have "path_end st = Inr (shown cs @ [0] @ drop 1 (junk @ [0]), length (shown cs))"
    unfolding st path_end_def Let_def prod.case l write_at_app by simp
  then show ?thesis
    using c_string_app [OF shown_nonzero [OF plain], of "[0] @ drop 1 (junk @ [0])"] by simp
qed

text \<open>An array without slashes whose last byte is zero, cut by the zero of a string.\<close>

lemma clean_tail:
  fixes buf :: "u8 list"
  assumes "0x2f \<notin> set buf" and "last buf = 0" and "k < length buf"
  obtains junk where "0 # drop (Suc k) buf = junk @ [0]" and "0x2f \<notin> set junk" and "Suc k + length junk = length buf"
proof -
  have "buf \<noteq> []" using assms(3) by auto
  then have b: "buf = butlast buf @ [0]" using assms(2) by (metis append_butlast_last_id)
  show thesis
  proof (cases "Suc k = length buf")
    case True
    then show thesis by (intro that [of "[]"]) simp_all
  next
    case False
    with assms(3) have k: "k < length (butlast buf)" by simp
    have "drop (Suc k) buf = drop (Suc k) (butlast buf) @ [0]" by (subst b) (use k in simp)
    then show thesis
      using assms(1) k by (intro that [of "0 # drop (Suc k) (butlast buf)"]) (auto dest!: in_set_dropD in_set_butlastD)
  qed
qed

lemma path_start_inv:
  assumes "0x2f \<notin> set buf" and "last buf = 0" and "\<forall>c\<in>set cwd. plain_name c" and "cwd \<noteq> []"
    and "os_getcwd os w (of_nat PATH_MAX) = (Some (path_text cwd), w')"
    and "absolute \<longleftrightarrow> path \<noteq> [] \<and> hd path = 0x2f"
    and "length (if absolute then [0x2f] else path_text cwd) < length buf"
  shows "\<exists>st. path_start os path buf w =
      (Inr (if absolute then tl path else path, st), if absolute then w else w') \<and>
    path_inv (length buf) (if absolute then [] else cwd) st"
proof -
  define cs where "cs = (if absolute then [] else cwd)"
  have l: "length (shown cs) < length buf"
    using assms(4,7) by (simp add: shown_def cs_def split: if_splits)
  from clean_tail [OF assms(1,2) l] obtain junk where
    junk: "0 # drop (Suc (length (shown cs))) buf = junk @ [0]" "0x2f \<notin> set junk"
      "Suc (length (shown cs)) + length junk = length buf" by blast
  have "write_at 0 (shown cs @ [0]) buf = Inr (shown cs @ junk @ [0])"
    using l junk(1) by (simp add: write_at_def)
  moreover have "shown cs @ [0] = [0x2f, 0]" if absolute using that by (simp add: cs_def shown_def)
  moreover have "shown cs = path_text cwd" if "\<not> absolute" using that assms(4) by (simp add: cs_def shown_def)
  ultimately have "path_start os path buf w = (Inr (if absolute then tl path else path,
      shown cs @ junk @ [0], length (path_text cs)), if absolute then w else w')"
    using assms(5,6) by (cases absolute) (auto simp: path_start_def cs_def)
  moreover have "path_inv (length buf) cs (shown cs @ junk @ [0], length (path_text cs))"
    using junk(2,3) assms(3) by (auto simp: path_inv_def cs_def)
  ultimately show ?thesis unfolding cs_def by blast
qed

lemma get_real_path_names:
  assumes "0x2f \<notin> set buf" and "last buf = 0" and "\<forall>c\<in>set cwd. plain_name c" and "cwd \<noteq> []"
    and "os_getcwd os w (of_nat PATH_MAX) = (Some (path_text cwd), w')" and "0 \<notin> set path"
    and "absolute \<longleftrightarrow> path \<noteq> [] \<and> hd path = 0x2f"
    and "length (if absolute then [] else path_text cwd) + length path + 1 < length buf"
  shows "\<exists>buf'. get_real_path os (Some path) (Some buf) any w = (Inr buf', if absolute then w else w') \<and>
    c_string buf' = Inr (shown (fold enter (pieces path) (if absolute then [] else cwd)))"
proof -
  let ?cs = "if absolute then [] else cwd" and ?p = "if absolute then tl path else path"
  have "length (if absolute then [0x2f] else path_text cwd) < length buf" using assms(8) by (simp split: if_splits)
  from path_start_inv [OF assms(1-5,7) this] obtain st where
    st: "path_start os path buf w = (Inr (?p, st), if absolute then w else w')" "path_inv (length buf) ?cs st" by blast
  have z: "0 \<notin> set ?p" using assms(6) by (cases path) auto
  have len: "length (path_text ?cs) + length ?p + 1 < length buf" using assms(8) by auto
  have pc: "fold enter (pieces path) ?cs = fold enter (pieces ?p) ?cs"
    using assms(7) by (cases path) (auto simp: enter_def)
  obtain st' where st': "(if ?p = [] then Inr st else path_walk ?p st) = Inr st'"
      "path_inv (length buf) (fold enter (pieces ?p) ?cs) st'"
  proof (cases "?p = []")
    case True
    then show thesis using st(2) by (intro that [of st]) (simp_all add: enter_def)
  next
    case False
    then show thesis using path_walk_inv [OF st(2) z len] that by auto
  qed
  from path_end_inv [OF st'(2)] obtain buf' rp2 where
    "path_end st' = Inr (buf', rp2)" "c_string buf' = Inr (shown (fold enter (pieces ?p) ?cs))" by blast
  with st(1) st'(1) show ?thesis unfolding pc by (simp add: get_real_path_def)
qed

text \<open>Bytes from before that the search for the last slash can see: the name before \<open>..\<close> stays.\<close>

lemma get_real_path_stale:
  assumes "0x2f \<notin> set junk" and "0 \<in> set junk"
  shows "\<exists>buf'. get_real_path os (Some (bytes ''/a/..'')) (Some (x # y # 0x2f # junk)) any w = (Inr buf', w) \<and>
    c_string buf' = Inr (bytes ''/a'')"
proof -
  let ?j = "takeWhile (\<lambda>c. c \<noteq> 0) junk"
  have b: "bytes ''/a/..'' = [0x2f, 0x61, 0x2f, 0x2e, 0x2e]" "bytes ''/a'' = [0x2f, 0x61]" by (simp_all add: bytes_def)
  have 1: "path_step [0x61] (0x2f # 0 # 0x2f # junk, 0) = Inr (0x2f # 0x61 # 0x2f # junk, 2)"
    by (simp add: path_step_def path_down_def write_at_def)
  have "c_string (0x2f # 0x61 # 0x2f # junk) = Inr (0x2f # 0x61 # 0x2f # ?j)"
    using assms(2) by (simp add: c_string_def)
  moreover have "0x2f \<notin> set ?j" using assms(1) by (auto dest: set_takeWhileD)
  then have "strrchr (0x2f # 0x61 # 0x2f # ?j) 0x2f = Some 2" by (simp add: strrchr_None)
  ultimately have 2: "path_step [0x2e, 0x2e] (0x2f # 0x61 # 0x2f # junk, 2) = Inr (0x2f # 0x61 # 0 # junk, 2)"
    by (simp add: path_step_def path_up_def write_at_def numeral_2_eq_2 del: strrchr.simps)
  have "path_walk [0x61, 0x2f, 0x2e, 0x2e] (0x2f # 0 # 0x2f # junk, 0) = Inr (0x2f # 0x61 # 0 # junk, 2)"
    by (subst path_walk.simps, simp add: 1, subst path_walk.simps, simp add: 2)
  then show ?thesis
    by (simp add: get_real_path_def path_start_def b write_at_def path_end_def c_string_def)
qed

end
