(* ===== verification/Main_Program.thy ===== *)
theory Main_Program
  imports Cpu_Loop Elf_Loader Real_Path
begin

text \<open>
  \<open>main\<close> of \<open>main.c\<close>: options, path, loader, program break, registers and the loop.  The messages on
  \<open>stderr\<close> are left out; what is left of them is the exit status.
\<close>

section \<open>Operations\<close>

record task_t =
  stack_base :: u64
  heap_base :: u64
  heap_limit :: u64

definition target_cpu_copy_regs :: "state_t \<Rightarrow> task_t \<Rightarrow> image_info \<Rightarrow> target_pt_regs \<Rightarrow> state_t \<times> task_t" where
  "target_cpu_copy_regs e ts info regs =
    (e\<lparr>env_pc := regs_sepc regs, gpr := (gpr e)[xSP := regs_sp regs]\<rparr>,
     ts\<lparr>stack_base := start_stack info, heap_base := info_brk info, heap_limit := 0\<rparr>)"

text \<open>The static variables at the start, and the registers after \<open>memset\<close>.\<close>

definition initial_proc :: "host_mem \<Rightarrow> 'w \<Rightarrow> 'w proc" where
  "initial_proc h w = \<lparr>mach = \<lparr>env = zero_env, mem = h, guest_base = opt_guest_base default_settings\<rparr>, world = w,
     mmap_next_start = TASK_UNMAPPED_BASE, target_brk = 0, initial_target_brk = 0\<rparr>"

definition zero_task :: task_t where
  "zero_task = \<lparr>stack_base = 0, heap_base = 0, heap_limit = 0\<rparr>"

text \<open>The label \<open>fail\<close>: a message and the status 1.\<close>

definition give_up :: "failure \<Rightarrow> failure" where
  "give_up f = (case f of Fail _ \<Rightarrow> Fault (Exited 1) | _ \<Rightarrow> f)"

text \<open>
  \<open>opts\<close> is the vector from \<open>argv[1]\<close> on, \<open>buf\<close> the contents of the array \<open>prog_real_path\<close>, \<open>h\<close> the memory
  of the process.
\<close>

definition run_main :: "'w os \<Rightarrow> vector \<Rightarrow> u8 list \<Rightarrow> host_mem \<Rightarrow> 'w \<Rightarrow> (failure \<times> 'w) option" where
  "run_main os opts buf h w =
    (case parse_options opts default_settings of
       Inl f \<Rightarrow> Some (give_up f, w)
     | Inr (st, prog_path, prog_argv, prog_envp) \<Rightarrow>
         (case get_real_path os (Some prog_path) (Some buf) [] w of
            (Inl f, w) \<Rightarrow> Some (give_up f, w)
          | (Inr prog_real_path, w) \<Rightarrow>
              (case c_string prog_real_path of
                 Inl f \<Rightarrow> Some (f, w)
               | Inr prog_path \<Rightarrow>
                   (let (progfd, w) = os_open_read os w prog_path;
                        p = initial_proc h w;
                        p = p\<lparr>mach := (mach p)\<lparr>guest_base := opt_guest_base st\<rparr>\<rparr>
                    in if progfd <s 0 then Some (Fault (Exited 1), w)
                       else if None \<notin> set prog_envp then Some (Undefined, w)
                       else (case elf_load os (guest_stack_size st) progfd prog_path (strings prog_argv)
                           (strings prog_envp) p of
                         None \<Rightarrow> None
                       | Some (Inl f, p) \<Rightarrow> Some (give_up f, world p)
                       | Some (Inr (info, regs), p) \<Rightarrow>
                           (let p = target_set_brk (info_brk info) p;
                                (e, ts) = target_cpu_copy_regs (env (mach p)) zero_task info regs
                            in map_option (\<lambda>(s, w). (Fault s, w)) (cpu_loop os (set_env e p))))))))"

section \<open>A well-formed command line\<close>

lemma run_main_choices:
  assumes "prog = [] \<or> hd prog \<noteq> 0x2d" and "0 \<notin> set prog" and "0x2f \<notin> set buf" and "last buf = 0"
    and "\<forall>c\<in>set cwd. plain_name c" and "cwd \<noteq> []"
    and "os_getcwd os w (of_nat PATH_MAX) = (Some (path_text cwd), w')"
    and "length (path_text cwd) + length prog + 1 < length buf"
    and "absolute \<longleftrightarrow> prog \<noteq> [] \<and> hd prog = 0x2f"
    and "path = shown (fold enter (pieces prog) (if absolute then [] else cwd))"
    and "os_open_read os (if absolute then w else w') path = (fd, w2)"
    and "st = fold apply_choice cs default_settings"
  shows "run_main os (map Some (concat (map choice_words cs)) @ Some prog # map Some args @ None # map Some envs @ [None])
      buf h w =
    (if fd <s 0 then Some (Fault (Exited 1), w2)
     else (case elf_load os (guest_stack_size st) fd path (prog # args) envs
         ((initial_proc h w2)\<lparr>mach := (mach (initial_proc h w2))\<lparr>guest_base := opt_guest_base st\<rparr>\<rparr>) of
       None \<Rightarrow> None
     | Some (Inl f, p) \<Rightarrow> Some (give_up f, world p)
     | Some (Inr (info, regs), p) \<Rightarrow> map_option (\<lambda>(s, w). (Fault s, w))
         (cpu_loop os (set_env (fst (target_cpu_copy_regs (env (mach p)) zero_task info regs))
           (target_set_brk (info_brk info) p)))))"
proof -
  have "length (if absolute then [] else path_text cwd) + length prog + 1 < length buf" using assms(8) by simp
  from get_real_path_names [OF assms(3-7) assms(2,9) this, of "[]"] obtain buf' where
    rp: "get_real_path os (Some prog) (Some buf) [] w = (Inr buf', if absolute then w else w')"
      "c_string buf' = Inr path"
    unfolding assms(10) by blast
  have argv: "strings (Some prog # map Some args @ None # map Some envs @ [None]) = prog # args"
    using strings_map [of "prog # args" "map Some envs @ [None]"] by simp
  have envs: "strings (map Some envs @ [None]) = envs" using strings_map [of envs "[]"] by simp
  have brk: "mach (target_set_brk b p) = mach p" for b and p :: "'a proc"
    by (simp add: target_set_brk_def Let_def)
  show ?thesis
    unfolding run_main_def parse_choices [OF assms(1)] assms(12) [symmetric]
    by (simp add: rp assms(11) argv envs brk Let_def split_def split: option.split sum.split)
qed

end
