(* ===== verification/Loader_Props.thy ===== *)
theory Loader_Props
  imports Elf_Props Main_Program
begin

text \<open>
  The loader as a whole: what it leaves alone, and the process it hands to the CPU loop.
\<close>

section \<open>What the loader leaves alone\<close>

definition same_cpu :: "'w proc \<Rightarrow> 'w proc \<Rightarrow> bool" where
  "same_cpu p p' \<longleftrightarrow> env (mach p') = env (mach p) \<and> guest_base (mach p') = guest_base (mach p)"

lemma same_cpu_refl [simp]: "same_cpu p p"
  by (simp add: same_cpu_def)

lemma same_cpu_trans: "same_cpu p q \<Longrightarrow> same_cpu q r \<Longrightarrow> same_cpu p r"
  by (simp add: same_cpu_def)

lemma same_cpu_world [simp]: "same_cpu p (p\<lparr>world := w\<rparr>)" "same_cpu p (set_mem h w p)"
  by (simp_all add: same_cpu_def)

lemma same_cpu_then_do:
  assumes "same_cpu p (snd r)" and "\<And>a q. same_cpu q (snd (f a q))"
  shows "same_cpu p (snd (then_do r f))"
  using assms by (cases r; cases "fst r") (auto intro: same_cpu_trans)

lemma same_cpu_mmap:
  "same_cpu p (snd (host_mmap os addr len prot flags fd off p))"
  "same_cpu p (snd (target_mmap os addr len prot flags fd off p))"
  using host_mmap_frame [OF prod.collapse [symmetric], of os addr len prot flags fd off p]
    target_mmap_frame [OF prod.collapse [symmetric], of os addr len prot flags fd off p]
  by (simp_all add: same_cpu_def)

lemma same_cpu_try_mmap: "same_cpu p (snd r) \<Longrightarrow> same_cpu p (snd (try_mmap e r))"
  by (cases r) (simp add: try_mmap_def)

lemmas same_cpu_try = same_cpu_mmap [THEN same_cpu_try_mmap]

lemma same_cpu_mprotect: "same_cpu p (snd (target_mprotect os addr len prot p))"
  by (simp add: target_mprotect_def split: prod.split)

lemma same_cpu_zero_bss: "same_cpu p (snd (zero_bss os bss brk prot p))"
  unfolding zero_bss_def Let_def
  by (rule same_cpu_then_do) (auto simp: same_cpu_try split: option.split)

lemma same_cpu_segment: "same_cpu p (snd (map_segment os fd ph vaddr prot p))"
  unfolding map_segment_def Let_def
  by (auto intro!: same_cpu_then_do simp: same_cpu_try same_cpu_zero_bss)

lemma same_cpu_load_segment: "same_cpu p (snd (load_segment os fd ph info p))"
  unfolding load_segment_def Let_def
  by (auto intro!: same_cpu_then_do simp: same_cpu_segment)

lemma same_cpu_load_segments: "same_cpu p (snd (load_segments os fd phs info p))"
  by (induction phs arbitrary: info p) (auto intro!: same_cpu_then_do simp: same_cpu_load_segment)

lemma same_cpu_reserve: "same_cpu p (snd (reserve_image os ehdr phs info p))"
  unfolding reserve_image_def Let_def
  by (auto intro!: same_cpu_then_do simp: same_cpu_try split: prod.split)

lemma same_cpu_heap: "same_cpu p (snd (map_heap os ehdr hiaddr info p))"
  by (simp add: map_heap_def Let_def same_cpu_try)

lemma same_cpu_stack: "same_cpu p (snd (map_stack os sz info b p))"
  unfolding map_stack_def Let_def
proof (rule same_cpu_then_do)
  fix limit and q :: "'a proc"
  show "same_cpu q (snd (case target_mprotect os limit TARGET_PAGE_SIZE PROT_NONE q of (ret, p) \<Rightarrow>
      if ret <s 0 then (Inl (Fail Sys_error), p)
      else (Inr (info\<lparr>stack_limit := limit + TARGET_PAGE_SIZE\<rparr>, b\<lparr>bp_p := limit + TARGET_PAGE_SIZE + sz - 8\<rparr>), p)))"
    using same_cpu_mprotect [of q os limit TARGET_PAGE_SIZE PROT_NONE] by (auto split: prod.split)
qed (rule same_cpu_try)

lemma same_cpu_copy: "same_cpu p (snd (copy_out addr bs p))"
  by (auto simp: copy_out_def target_memory_copy_def bind_result_def split: sum.split)

lemma same_cpu_string: "same_cpu p (snd (push_string s st p))"
  unfolding push_string_def Let_def by (auto intro!: same_cpu_then_do simp: same_cpu_copy split: prod.split)

lemma same_cpu_strings: "same_cpu p (snd (push_strings ss st p))"
  by (induction ss arbitrary: st p) (auto intro!: same_cpu_then_do simp: same_cpu_string)

lemma same_cpu_ptrs: "same_cpu p (snd (push_ptrs vs tos p))"
  by (induction vs arbitrary: tos p) (auto simp: Let_def intro!: same_cpu_then_do same_cpu_copy)

lemma same_cpu_tables: "same_cpu p (snd (create_elf_tables os b p))"
proof -
  obtain ok w where m: "os_malloc os (world p) (of_nat ((1 + bp_envc b + 1 + bp_argc b + 1) * 8)) = (ok, w)" by fastforce
  let ?q = "p\<lparr>world := w\<rparr>"
  have step: "same_cpu ?q (snd (then_do (push_strings (rev (bp_envp b)) (bp_p b, [0]) ?q) (\<lambda>(tos, ptrs) p.
      then_do (push_strings (rev (tl (bp_argv b))) (tos, ptrs @ [0]) p) (\<lambda>st p.
      then_do (push_string (bp_filename b) st p) (\<lambda>(tos, ptrs) p.
      then_do (push_ptrs (ptrs @ [of_nat (bp_argc b)]) (ROUND_DOWN tos 8 - 8 - of_nat SIZEOF_AUXV) p)
        (\<lambda>tos p. (Inr (b\<lparr>bp_p := tos\<rparr>), p)))))))"
    by (auto intro!: same_cpu_then_do simp: same_cpu_strings same_cpu_string same_cpu_ptrs split: prod.split)
  have "same_cpu p ?q" by simp
  from this same_cpu_trans [OF this step] show ?thesis
    unfolding create_elf_tables_def m Let_def prod.case by (cases ok) simp_all
qed

lemmas same_cpu_loader = same_cpu_reserve same_cpu_load_segments same_cpu_heap same_cpu_stack same_cpu_tables

lemma same_cpu_Inr:
  assumes "same_cpu p (snd r)" and "r = (x, p')"
  shows "same_cpu p p'"
  using assms by simp

section \<open>The loaded program\<close>

lemma map_stack_Inr:
  assumes "map_stack os sz info b p = (Inr (info', b'), p')"
  shows "info' = info\<lparr>stack_limit := stack_limit info'\<rparr> \<and> b' = b\<lparr>bp_p := stack_limit info' + sz - 8\<rparr>"
proof -
  from assms obtain limit q where "(case target_mprotect os limit TARGET_PAGE_SIZE PROT_NONE q of (ret, p) \<Rightarrow>
      if ret <s 0 then (Inl (Fail Sys_error), p)
      else (Inr (info\<lparr>stack_limit := limit + TARGET_PAGE_SIZE\<rparr>, b\<lparr>bp_p := limit + TARGET_PAGE_SIZE + sz - 8\<rparr>), p)) =
      (Inr (info', b'), p')"
    unfolding map_stack_def Let_def then_do_Inr by blast
  then show ?thesis by (auto split: prod.splits if_splits)
qed

lemma prepare_binprm_Inr:
  assumes "prepare_binprm os b p = Some (Inr b', p')"
  obtains bs w where "readn os (execfd b) (of_nat BINPRM_BUF_SIZE) (world p) = Some (Inr bs, w)"
    "b' = b\<lparr>bp_buf := bs @ replicate (BINPRM_BUF_SIZE - length bs) 0\<rparr>" "p' = p\<lparr>world := w\<rparr>"
proof -
  from assms obtain r w where "readn os (execfd b) (of_nat BINPRM_BUF_SIZE) (world p) = Some (r, w)"
    "(case r of Inl _ \<Rightarrow> (Inl (Fail Sys_error), p\<lparr>world := w\<rparr>)
      | Inr bs \<Rightarrow> (Inr (b\<lparr>bp_buf := bs @ replicate (BINPRM_BUF_SIZE - length bs) 0\<rparr>), p\<lparr>world := w\<rparr>)) = (Inr b', p')"
    by (auto simp: prepare_binprm_def)
  with that show ?thesis by (cases r) auto
qed

text \<open>The parts of a successful \<open>load_elf_binary\<close>.\<close>

lemma load_elf_binary_Inr:
  assumes "load_elf_binary os sz b info p = Some (Inr (info', b'), p')"
  obtains phs hi info1 info2 info3 a b1 p0 p1 p2 p3 p4 p5 where
    "elf_check_ehdr (ehdr_of_bytes (bp_buf b)) = None"
    "load_elf_phdrs os (ehdr_of_bytes (bp_buf b)) (execfd b) p = Some (Inr phs, p0)"
    "reserve_image os (ehdr_of_bytes (bp_buf b)) phs info p0 = (Inr (hi, info1), p1)"
    "load_segments os (execfd b) phs info1 p1 = (Inr info2, p2)"
    "map_heap os (ehdr_of_bytes (bp_buf b)) hi info2 p2 = (Inr a, p3)"
    "map_stack os sz info2 b p3 = (Inr (info3, b1), p4)"
    "create_elf_tables os b1 p4 = (Inr b', p5)"
    "info' = info3\<lparr>start_stack := bp_p b'\<rparr>"
    "info3 = info2\<lparr>stack_limit := stack_limit info3\<rparr>"
    "p' = p5\<lparr>world := os_close os (world p5) (execfd b1)\<rparr>"
    "b1 = b\<lparr>bp_p := stack_limit info3 + sz - 8\<rparr>"
proof -
  have chk: "elf_check_ehdr (ehdr_of_bytes (bp_buf b)) = None"
    using assms by (auto simp: load_elf_binary_def Let_def split: option.splits)
  from assms chk obtain r where "load_elf_phdrs os (ehdr_of_bytes (bp_buf b)) (execfd b) p = Some r"
    and r: "then_do r (\<lambda>phs p.
           then_do (reserve_image os (ehdr_of_bytes (bp_buf b)) phs info p) (\<lambda>(hiaddr, info) p.
           then_do (load_segments os (execfd b) phs info p) (\<lambda>info p.
           then_do (map_heap os (ehdr_of_bytes (bp_buf b)) hiaddr info p) (\<lambda>_ p.
           then_do (map_stack os sz info b p) (\<lambda>(info, bprm) p.
           then_do (create_elf_tables os bprm p) (\<lambda>bprm p.
             (Inr (info\<lparr>start_stack := bp_p bprm\<rparr>, bprm),
              p\<lparr>world := os_close os (world p) (execfd bprm)\<rparr>))))))) = (Inr (info', b'), p')"
    by (auto simp: load_elf_binary_def Let_def)
  then obtain phs p0 hi info1 p1 info2 p2 a p3 info3 b1 p4 p5 where
    1: "load_elf_phdrs os (ehdr_of_bytes (bp_buf b)) (execfd b) p = Some (Inr phs, p0)"
      "reserve_image os (ehdr_of_bytes (bp_buf b)) phs info p0 = (Inr (hi, info1), p1)"
      "load_segments os (execfd b) phs info1 p1 = (Inr info2, p2)"
      "map_heap os (ehdr_of_bytes (bp_buf b)) hi info2 p2 = (Inr a, p3)"
      "create_elf_tables os b1 p4 = (Inr b', p5)" "p' = p5\<lparr>world := os_close os (world p5) (execfd b')\<rparr>"
    and s: "map_stack os sz info2 b p3 = (Inr (info3, b1), p4)" "info' = info3\<lparr>start_stack := bp_p b'\<rparr>"
    unfolding then_do_Inr by (auto simp: then_do_Inr)
  have 3: "info3 = info2\<lparr>stack_limit := stack_limit info3\<rparr>" "b1 = b\<lparr>bp_p := stack_limit info3 + sz - 8\<rparr>"
    using map_stack_Inr [OF s(1)] by blast+
  have "execfd b' = execfd b1"
    using 1(5) by (auto simp: create_elf_tables_def Let_def then_do_Inr split: prod.splits if_splits)
  with 1(6) have "p' = p5\<lparr>world := os_close os (world p5) (execfd b1)\<rparr>" by simp
  from that [OF chk 1(1-4) s(1) 1(5) s(2) 3(1) this 3(2)] show thesis .
qed

lemma load_elf_phdrs_Inr:
  assumes "load_elf_phdrs os ehdr fd p = Some (Inr phs, p')"
  shows "same_cpu p p' \<and> (\<exists>w1 hs w2. os_malloc os (world p) (of_nat (unat (e_phnum ehdr) * 56)) = (True, w1) \<and>
    pread os fd (of_nat (unat (e_phnum ehdr) * 56)) (e_phoff ehdr) w1 = Some (Some hs, w2) \<and>
    length hs = unat (e_phnum ehdr) * 56 \<and> phs = phdrs_of_bytes (unat (e_phnum ehdr)) hs)"
  using assms
  by (auto simp: load_elf_phdrs_def Let_def TARGET_ELF_MIN_ALIGN_def SIZEOF_PHDR_def
      split: if_splits prod.splits option.splits)

text \<open>A file header that the loader takes, with its number of program headers.\<close>

definition riscv_header :: "elf_ehdr_t \<Rightarrow> bool" where
  "riscv_header h \<longleftrightarrow> e_ident h ! 0 = 0x7f \<and> e_ident h ! 1 = 0x45 \<and> e_ident h ! 2 = 0x4c \<and> e_ident h ! 3 = 0x46 \<and>
     e_ident h ! 4 = 2 \<and> e_ident h ! 5 = 1 \<and> e_ident h ! 6 = 1 \<and> e_type h \<in> {2, 3} \<and> e_machine h = 243 \<and>
     e_version h = 1 \<and> e_ehsize h = 64 \<and> e_phentsize h = 56 \<and> 0 < unat (e_phnum h) \<and> unat (e_phnum h) \<le> 73"

lemma elf_load_bad_header:
  assumes "readn os fd 256 (world p) = Some (Inr bs, w)"
    and "h = ehdr_of_bytes (bs @ replicate (256 - length bs) 0)" and "\<not> riscv_header h"
  obtains e where "elf_load os sz fd name argv envp p = Some (Inl (Fail e), p\<lparr>world := w\<rparr>)"
    "e \<in> {Bad_ident, Bad_ehdr, Bad_phdrs_size}"
proof -
  let ?q = "p\<lparr>world := w\<rparr>"
  have "elf_check_ehdr h = Some Bad_ident \<or> elf_check_ehdr h = Some Bad_ehdr \<or>
    elf_check_ehdr h = None \<and> load_elf_phdrs os h fd ?q = Some (Inl (Fail Bad_phdrs_size), ?q)"
    using assms(3)
    by (auto simp: riscv_header_def elf_check_ehdr_def elf_check_ehdr_ident_def elf_check_ehdr1_def EI_CLASS_def
        EI_DATA_def EI_VERSION_def ELFCLASS64_def ELFDATA2LSB_def EV_CURRENT_def ET_EXEC_def ET_DYN_def EM_RISCV_def
        SIZEOF_EHDR_def SIZEOF_PHDR_def load_elf_phdrs_def TARGET_ELF_MIN_ALIGN_def)
  then obtain e where e: "e \<in> {Bad_ident, Bad_ehdr, Bad_phdrs_size}"
    and c: "elf_check_ehdr h = Some e \<or> elf_check_ehdr h = None \<and> load_elf_phdrs os h fd ?q = Some (Inl (Fail e), ?q)"
    by blast
  have "elf_load os sz fd name argv envp p = Some (Inl (Fail e), ?q)"
    using assms(1) c unfolding assms(2)
    by (elim disjE) (simp_all add: elf_load_def Let_def prepare_binprm_def BINPRM_BUF_SIZE_def load_elf_binary_def)
  with e that show ?thesis by blast
qed

text \<open>The size of the strings and the table on the stack.\<close>

definition stack_use :: "u8 list \<Rightarrow> u8 list list \<Rightarrow> u8 list list \<Rightarrow> nat" where
  "stack_use name argv envp = str_size envp + str_size (tl argv) + length name + 32 + 8 * (length argv + length envp + 3)"

definition starts_with :: "'w proc \<Rightarrow> u64 \<Rightarrow> u8 list \<Rightarrow> u8 list list \<Rightarrow> u8 list list \<Rightarrow> bool" where
  "starts_with p sp name argv envp \<longleftrightarrow> take_bit 3 sp = 0 \<and>
     (\<exists>f as es. length as = length argv - 1 \<and> length es = length envp \<and>
        table_at p sp (of_nat (length argv) # f # as @ [0] @ es @ [0]) \<and>
        string_at p f name \<and> list_all2 (string_at p) as (tl argv) \<and> list_all2 (string_at p) es envp)"

lemma starts_with_world: "starts_with (p\<lparr>world := w\<rparr>) = starts_with p"
proof -
  have "table_at (p\<lparr>world := w\<rparr>) = table_at p" "string_at (p\<lparr>world := w\<rparr>) = string_at p"
    by (simp_all add: fun_eq_iff table_at_def string_at_def peek_def)
  then show ?thesis unfolding starts_with_def by (intro ext) (simp only:)
qed

lemma elf_load_Inr:
  assumes "elf_load os sz fd name argv envp p = Some (Inr (info, regs), p')" and "argv \<noteq> []"
    and "stack_use name argv envp \<le> 2 ^ 64"
  shows "\<exists>bs w ehdr w1 hs w2 phs.
    readn os fd 256 (world p) = Some (Inr bs, w) \<and> ehdr = ehdr_of_bytes (bs @ replicate (256 - length bs) 0) \<and>
    elf_check_ehdr ehdr = None \<and> os_malloc os w (of_nat (unat (e_phnum ehdr) * 56)) = (True, w1) \<and>
    pread os fd (of_nat (unat (e_phnum ehdr) * 56)) (e_phoff ehdr) w1 = Some (Some hs, w2) \<and>
    length hs = unat (e_phnum ehdr) * 56 \<and> phs = phdrs_of_bytes (unat (e_phnum ehdr)) hs \<and>
    regs_sepc regs = e_entry ehdr + load_bias info \<and> regs_sp regs = start_stack info \<and>
    (e_type ehdr = ET_EXEC \<longrightarrow> load_bias info = 0) \<and>
    (\<forall>ph\<in>loadable phs. load_bias info + p_vaddr ph + p_memsz ph \<le> info_brk info) \<and>
    (info_brk info = 0 \<or> (\<exists>ph\<in>loadable phs. info_brk info = load_bias info + p_vaddr ph + p_memsz ph)) \<and>
    starts_with p' (start_stack info) name argv envp \<and> same_cpu p p'"
proof -
  let ?b = "\<lparr>bp_buf = [], bp_p = 0, execfd = fd, bp_argc = length argv, bp_envc = length envp,
       bp_argv = argv, bp_envp = envp, bp_filename = name\<rparr>"
  from assms(1) obtain b p0 b' where prep: "prepare_binprm os ?b p = Some (Inr b, p0)"
    and load: "load_elf_binary os sz b zero_info p0 = Some (Inr (info, b'), p')"
    and regs: "regs = init_thread info"
    by (auto simp: elf_load_def Let_def then_do_Inr split: option.splits sum.splits prod.splits)
  obtain bs w where rd: "readn os fd 256 (world p) = Some (Inr bs, w)"
    and bw: "b = ?b\<lparr>bp_buf := bs @ replicate (256 - length bs) 0\<rparr>" "p0 = p\<lparr>world := w\<rparr>"
    by (rule prepare_binprm_Inr [OF prep]) (simp_all add: BINPRM_BUF_SIZE_def)
  then have b: "b = ?b\<lparr>bp_buf := bp_buf b\<rparr>" and c0: "same_cpu p p0" and fd: "execfd b = fd" "world p0 = w"
    and buf: "bp_buf b = bs @ replicate (256 - length bs) 0"
    by simp_all
  let ?e = "ehdr_of_bytes (bp_buf b)"
  obtain phs hi info1 info2 info3 a b1 q0 q1 q2 q3 q4 q5 where
    chk: "elf_check_ehdr ?e = None" and phd: "load_elf_phdrs os ?e (execfd b) p0 = Some (Inr phs, q0)"
    and res: "reserve_image os ?e phs zero_info q0 = (Inr (hi, info1), q1)"
    and seg: "load_segments os (execfd b) phs info1 q1 = (Inr info2, q2)"
    and heap: "map_heap os ?e hi info2 q2 = (Inr a, q3)"
    and stk: "map_stack os sz info2 b q3 = (Inr (info3, b1), q4)"
    and tab: "create_elf_tables os b1 q4 = (Inr b', q5)"
    and info: "info = info3\<lparr>start_stack := bp_p b'\<rparr>" "info3 = info2\<lparr>stack_limit := stack_limit info3\<rparr>"
    and p': "p' = q5\<lparr>world := os_close os (world q5) (execfd b1)\<rparr>"
    and b1: "b1 = b\<lparr>bp_p := stack_limit info3 + sz - 8\<rparr>"
    by (rule load_elf_binary_Inr [OF load])
  have sel: "load_bias info = load_bias info2" "info_brk info = info_brk info2" "info_entry info = info_entry info2"
      "start_stack info = bp_p b'"
    using arg_cong [OF info(2), of load_bias] arg_cong [OF info(2), of info_brk] arg_cong [OF info(2), of info_entry]
    by (simp_all add: info(1))
  have args: "bp_argv b1 = argv" "bp_envp b1 = envp" "bp_filename b1 = name" "bp_argc b1 = length argv"
      "bp_envc b1 = length envp"
    using arg_cong [OF b, of bp_argv] arg_cong [OF b, of bp_envp] arg_cong [OF b, of bp_filename]
      arg_cong [OF b, of bp_argc] arg_cong [OF b, of bp_envc]
    by (simp_all add: b1)
  have size: "tables_size b1 \<le> 2 ^ 64"
    using assms(3) by (simp add: tables_size_def args stack_use_def)
  from create_elf_tables_layout(1) [OF tab] assms(2) size have "starts_with q5 (bp_p b') name argv envp"
    unfolding starts_with_def args by auto
  then have st: "starts_with p' (bp_p b') name argv envp"
    by (simp add: p' starts_with_world)
  have "same_cpu q0 q5"
    by (intro same_cpu_trans [OF same_cpu_Inr [OF same_cpu_reserve res]]
        same_cpu_trans [OF same_cpu_Inr [OF same_cpu_load_segments seg]]
        same_cpu_trans [OF same_cpu_Inr [OF same_cpu_heap heap]]
        same_cpu_trans [OF same_cpu_Inr [OF same_cpu_stack stk]] same_cpu_Inr [OF same_cpu_tables tab])
  with load_elf_phdrs_Inr [OF phd] c0 have cpu: "same_cpu p p'"
    by (auto simp: p' same_cpu_def)
  note bounds = load_segments_bounds [OF seg]
  have entry: "regs_sepc regs = e_entry ?e + load_bias info \<and> (e_type ?e = ET_EXEC \<longrightarrow> load_bias info = 0)"
    using reserve_image_Inr [OF res] bounds unfolding regs init_thread_def sel by auto
  have "regs_sp regs = start_stack info" by (simp add: regs init_thread_def)
  moreover have "\<forall>ph\<in>loadable phs. load_bias info + p_vaddr ph + p_memsz ph \<le> info_brk info"
    using bounds unfolding sel by simp
  moreover have "info_brk info = 0 \<or> (\<exists>ph\<in>loadable phs. info_brk info = load_bias info + p_vaddr ph + p_memsz ph)"
    using bounds reserve_image_Inr [OF res] unfolding sel by auto
  moreover obtain w1 hs w2 where "os_malloc os w (of_nat (unat (e_phnum ?e) * 56)) = (True, w1)"
    "pread os fd (of_nat (unat (e_phnum ?e) * 56)) (e_phoff ?e) w1 = Some (Some hs, w2)"
    "length hs = unat (e_phnum ?e) * 56" "phs = phdrs_of_bytes (unat (e_phnum ?e)) hs"
    using load_elf_phdrs_Inr [OF phd] unfolding fd by blast
  ultimately show ?thesis
    using rd chk st cpu entry unfolding sel(4) buf by blast
qed

end
