(* ===== verification/Stack_Room.thy ===== *)
theory Stack_Room
  imports Elf_Stack
begin

text \<open>
  Building the initial stack succeeds when the bytes below its top may be written, and it writes only such
  bytes.
\<close>

section \<open>Room\<close>

text \<open>The \<open>n\<close> bytes below \<open>tos\<close> may be written.\<close>

definition room :: "'w proc \<Rightarrow> u64 \<Rightarrow> nat \<Rightarrow> bool" where
  "room p tos n \<longleftrightarrow> (\<forall>k. 0 < k \<longrightarrow> k \<le> n \<longrightarrow> hwrite (mem (mach p)) (g2h (guest_base (mach p)) (tos - of_nat k)))"

definition pushed :: "'w proc \<Rightarrow> 'w proc \<Rightarrow> bool" where
  "pushed p p' \<longleftrightarrow> frame_but_mem p p' \<and>
     (\<forall>x. \<not> hwrite (mem (mach p)) x \<longrightarrow> hbytes (mem (mach p')) x = hbytes (mem (mach p)) x)"

lemma pushed_refl [simp]: "pushed p p"
  by (simp add: pushed_def frame_but_mem_refl)

lemma pushed_trans: "pushed p q \<Longrightarrow> pushed q r \<Longrightarrow> pushed p r"
  unfolding pushed_def by (auto simp: frame_but_mem_def)

lemma roomD: "room p tos n \<Longrightarrow> 0 < k \<Longrightarrow> k \<le> n \<Longrightarrow> hwrite (mem (mach p)) (g2h (guest_base (mach p)) (tos - of_nat k))"
  by (simp add: room_def)

lemma room_pushed: "room p tos n \<Longrightarrow> pushed p p' \<Longrightarrow> room p' tos n"
  by (auto simp: room_def pushed_def frame_but_mem_def)

lemma room_down:
  assumes "room p tos n" and "m \<le> n"
  shows "room p (tos - of_nat m) (n - m)"
  unfolding room_def
proof (intro allI impI)
  fix k assume "0 < k" "k \<le> n - m"
  moreover have "tos - of_nat m - of_nat k = tos - of_nat (m + k)" by (simp add: diff_diff_eq)
  ultimately show "hwrite (mem (mach p)) (g2h (guest_base (mach p)) (tos - of_nat m - of_nat k))"
    using roomD [OF assms(1), of "m + k"] assms(2) by (simp add: diff_diff_eq)
qed

lemma copy_out_ok:
  assumes "room p tos n" and "length bs \<le> n"
  shows "\<exists>p'. copy_out (tos - of_nat (length bs)) bs p = (Inr (), p') \<and> pushed p p' \<and>
    room p' (tos - of_nat (length bs)) (n - length bs)"
proof -
  let ?gb = "guest_base (mach p)" and ?h = "mem (mach p)" and ?t = "tos - of_nat (length bs)"
  have w: "hwrite ?h (g2h ?gb ?t + of_nat i)" if "i < length bs" for i
  proof -
    have "of_nat (length bs) = (of_nat (length bs - i) + of_nat i :: u64)"
      using that by (simp only: of_nat_add [symmetric]) simp
    then have "g2h ?gb ?t + of_nat i = g2h ?gb (tos - of_nat (length bs - i))" by (simp add: g2h_def algebra_simps)
    with roomD [OF assms(1), of "length bs - i"] assms(2) that show ?thesis by (metis diff_le_self le_trans zero_less_diff)
  qed
  define h where "h = ?h\<lparr>hbytes := \<lambda>x. if in_range (g2h ?gb ?t) (length bs) x then bs ! unat (x - g2h ?gb ?t) else hbytes ?h x\<rparr>"
  have st: "store_bytes ?h (g2h ?gb ?t) bs = Some h"
    using w by (simp add: store_bytes_Some h_def)
  have c: "copy_out ?t bs p = (Inr (), set_mem h (world p) p)"
    using st by (simp add: copy_out_def target_memory_copy_def)
  moreover have "pushed p (set_mem h (world p) p)"
    using copy_out_Inr(1) [OF c] hmem.st_in_range_wrable [OF st] by (auto simp: pushed_def h_def)
  ultimately show ?thesis
    using room_pushed room_down [OF assms] by blast
qed

lemma push_string_ok:
  assumes "room p tos n" and "length s + 1 \<le> n"
  shows "\<exists>p'. push_string s (tos, ptrs) p = (Inr (tos - of_nat (length s + 1), ptrs @ [tos - of_nat (length s + 1)]), p') \<and>
    pushed p p' \<and> room p' (tos - of_nat (length s + 1)) (n - (length s + 1))"
  using copy_out_ok [OF assms(1), of "s @ [0]"] assms(2) by (auto simp: push_string_def Let_def)

lemma push_strings_ok:
  assumes "room p tos n" and "str_size ss \<le> n"
  shows "\<exists>ptrs' p'. push_strings ss (tos, ptrs) p = (Inr (tos - of_nat (str_size ss), ptrs'), p') \<and>
    pushed p p' \<and> length ptrs' = length ptrs + length ss \<and> room p' (tos - of_nat (str_size ss)) (n - str_size ss)"
  using assms
proof (induction ss arbitrary: tos ptrs p n)
  case (Cons s ss)
  let ?m = "length s + 1"
  have "?m \<le> n" using Cons.prems(2) by simp
  from push_string_ok [OF Cons.prems(1) this] obtain p1 where
    1: "push_string s (tos, ptrs) p = (Inr (tos - of_nat ?m, ptrs @ [tos - of_nat ?m]), p1)" "pushed p p1"
      "room p1 (tos - of_nat ?m) (n - ?m)" by blast
  have "str_size ss \<le> n - ?m" using Cons.prems(2) by simp
  from Cons.IH [OF 1(3) this, of "ptrs @ [tos - of_nat ?m]"] obtain ptrs' p' where
    2: "push_strings ss (tos - of_nat ?m, ptrs @ [tos - of_nat ?m]) p1 =
        (Inr (tos - of_nat ?m - of_nat (str_size ss), ptrs'), p')" "pushed p1 p'"
      "length ptrs' = length (ptrs @ [tos - of_nat ?m]) + length ss"
      "room p' (tos - of_nat ?m - of_nat (str_size ss)) (n - ?m - str_size ss)" by blast
  have t: "tos - of_nat ?m - of_nat (str_size ss) = tos - of_nat (str_size (s # ss))"
    unfolding str_size_simps of_nat_add by (simp add: diff_diff_eq)
  have "push_strings (s # ss) (tos, ptrs) p = (Inr (tos - of_nat (str_size (s # ss)), ptrs'), p')"
    using 1(1) 2(1) unfolding t by simp
  moreover have "n - ?m - str_size ss = n - str_size (s # ss)" by simp
  ultimately show ?case
    using pushed_trans [OF 1(2) 2(2)] 2(3,4) unfolding t by auto
qed simp

lemma push_ptrs_ok:
  assumes "room p tos n" and "8 * length vs \<le> n"
  shows "\<exists>p'. push_ptrs vs tos p = (Inr (tos - of_nat (8 * length vs)), p') \<and> pushed p p'"
  using assms
proof (induction vs arbitrary: tos p n)
  case (Cons v vs)
  have "length (le_bytes 8 v) \<le> n" using Cons.prems(2) by simp
  from copy_out_ok [OF Cons.prems(1) this] obtain p1 where
    1: "copy_out (tos - 8) (le_bytes 8 v) p = (Inr (), p1)" "pushed p p1" "room p1 (tos - 8) (n - 8)" by auto
  have "8 * length vs \<le> n - 8" using Cons.prems(2) by simp
  from Cons.IH [OF 1(3) this] obtain p' where
    2: "push_ptrs vs (tos - 8) p1 = (Inr (tos - 8 - of_nat (8 * length vs)), p')" "pushed p1 p'" by blast
  have "tos - 8 - of_nat (8 * length vs) = tos - of_nat (8 * length (v # vs))" by simp
  with 1 2 show ?case using pushed_trans by (auto simp: Let_def)
qed simp

lemma create_elf_tables_ok:
  assumes "os_malloc os (world p) (of_nat ((1 + bp_envc b + 1 + bp_argc b + 1) * 8)) = (True, w)"
    and "bp_argv b \<noteq> []" and "bp_argc b = length (bp_argv b)" and "bp_envc b = length (bp_envp b)"
    and "room p (bp_p b) (tables_size b)"
  shows "\<exists>b' p'. create_elf_tables os b p = (Inr b', p') \<and> pushed (p\<lparr>world := w\<rparr>) p' \<and>
    (\<exists>sp. b' = b\<lparr>bp_p := sp\<rparr>)"
proof -
  let ?p = "p\<lparr>world := w\<rparr>" and ?E = "rev (bp_envp b)" and ?A = "rev (tl (bp_argv b))" and ?F = "bp_filename b"
  let ?n = "tables_size b"
  have r: "room ?p (bp_p b) ?n" using assms(5) by (simp add: room_def)
  have sz: "?n = str_size ?E + str_size ?A + (length ?F + 1) + (7 + 24 + 8 * (bp_argc b + bp_envc b + 3))"
    by (simp add: tables_size_def)
  have "str_size ?E \<le> ?n" using sz by simp
  from push_strings_ok [OF r this, of "[0]"] obtain ptrs1 p1 t1 where
    1: "push_strings ?E (bp_p b, [0]) ?p = (Inr (t1, ptrs1), p1)" "pushed ?p p1"
      "length ptrs1 = 1 + length (bp_envp b)" "room p1 t1 (?n - str_size ?E)" by auto
  have "str_size ?A \<le> ?n - str_size ?E" using sz by simp
  from push_strings_ok [OF 1(4) this, of "ptrs1 @ [0]"] obtain ptrs2 p2 t2 where
    2: "push_strings ?A (t1, ptrs1 @ [0]) p1 = (Inr (t2, ptrs2), p2)" "pushed p1 p2"
      "length ptrs2 = length ptrs1 + 1 + length (tl (bp_argv b))" "room p2 t2 (?n - str_size ?E - str_size ?A)" by auto
  have "length ?F + 1 \<le> ?n - str_size ?E - str_size ?A" using sz by simp
  from push_string_ok [OF 2(4) this, of ptrs2] obtain p3 t3 where
    3: "push_string ?F (t2, ptrs2) p2 = (Inr (t3, ptrs2 @ [t3]), p3)" "pushed p2 p3"
      "room p3 t3 (7 + 24 + 8 * (bp_argc b + bp_envc b + 3))" by (auto simp: sz)
  obtain g y where g: "g < 8" "ROUND_DOWN t3 8 = t3 - of_nat g" by (rule ROUND_DOWN_8)
  let ?t = "t3 - of_nat (g + 24)" and ?vs = "(ptrs2 @ [t3]) @ [of_nat (bp_argc b)]"
  have t: "ROUND_DOWN t3 8 - 8 - of_nat SIZEOF_AUXV = ?t" using g(2) by (simp add: SIZEOF_AUXV_def)
  have vs: "length ?vs = bp_argc b + bp_envc b + 3"
    using 1(3) 2(3) assms(2-4) by (cases "bp_argv b") auto
  have "room p3 ?t (7 + 24 + 8 * (bp_argc b + bp_envc b + 3) - (g + 24))"
    by (rule room_down [OF 3(3)]) (use g(1) in simp)
  moreover have "8 * length ?vs \<le> 7 + 24 + 8 * (bp_argc b + bp_envc b + 3) - (g + 24)"
    unfolding vs using g(1) by simp
  ultimately obtain p' where 4: "push_ptrs ?vs ?t p3 = (Inr (?t - of_nat (8 * length ?vs)), p')" "pushed p3 p'"
    using push_ptrs_ok by blast
  have "create_elf_tables os b p = (Inr (b\<lparr>bp_p := ?t - of_nat (8 * length ?vs)\<rparr>), p')"
    unfolding create_elf_tables_def assms(1) Let_def prod.case 1(1)
    by (simp add: 1(1) 2(1) 3(1) t 4(1) del: of_nat_add of_nat_mult length_append append_assoc)
  moreover have "pushed ?p p'"
    using 1(2) 2(2) 3(2) 4(2) pushed_trans by blast
  ultimately show ?thesis by blast
qed

end
