(* ===== verification/Demo_Host.thy ===== *)
theory Demo_Host
  imports Loader_Props Stack_Room Isa_Step
begin

text \<open>
  A host with one file: a statically linked program of three instructions, \<open>li a7, 93; li a0, 42; ecall\<close>,
  behind its ELF header and one program header.  The world is the file position; descriptor 3 is
  \<open>/dev/zero\<close> and 4 is the file.
\<close>

section \<open>The file\<close>

text \<open>The bytes of the headers, at the offsets of the structures in \<open>include/elf.h\<close>; the program writes none, they only make up the file below.\<close>

definition ehdr_bytes :: "elf_ehdr_t \<Rightarrow> u8 list" where
  "ehdr_bytes h = e_ident h @ le_bytes 2 (ucast (e_type h)) @ le_bytes 2 (ucast (e_machine h)) @
     le_bytes 4 (ucast (e_version h)) @ le_bytes 8 (e_entry h) @ le_bytes 8 (e_phoff h) @
     le_bytes 8 (e_shoff h) @ le_bytes 4 (ucast (e_flags h)) @ le_bytes 2 (ucast (e_ehsize h)) @
     le_bytes 2 (ucast (e_phentsize h)) @ le_bytes 2 (ucast (e_phnum h)) @
     le_bytes 2 (ucast (e_shentsize h)) @ le_bytes 2 (ucast (e_shnum h)) @
     le_bytes 2 (ucast (e_shstrndx h))"

definition phdr_bytes :: "elf_phdr_t \<Rightarrow> u8 list" where
  "phdr_bytes p = le_bytes 4 (ucast (p_type p)) @ le_bytes 4 (ucast (p_flags p)) @
     le_bytes 8 (p_offset p) @ le_bytes 8 (p_vaddr p) @ le_bytes 8 (p_paddr p) @
     le_bytes 8 (p_filesz p) @ le_bytes 8 (p_memsz p) @ le_bytes 8 (p_align p)"

lemma length_phdr_bytes [simp]: "length (phdr_bytes p) = SIZEOF_PHDR"
  by (simp add: phdr_bytes_def SIZEOF_PHDR_def)

lemma narrow_take_bit:
  "(ucast (take_bit 16 (ucast (a :: u16) :: u64)) :: u16) = a"
  "(ucast (take_bit 32 (ucast (b :: u32) :: u64)) :: u32) = b"
  "take_bit 64 (c :: u64) = c"
  by (rule bit_word_eqI; simp add: bit_ucast_iff bit_take_bit_iff)+

lemma ehdr_of_bytes_inverse:
  assumes "length (e_ident h) = 16"
  shows "ehdr_of_bytes (ehdr_bytes h @ rest) = h"
  using assms
  by (simp add: ehdr_of_bytes_def ehdr_bytes_def get_le_def le_word_le_bytes narrow_take_bit)

lemma phdr_of_bytes_inverse: "phdr_of_bytes (phdr_bytes p @ rest) = p"
  by (simp add: phdr_of_bytes_def phdr_bytes_def get_le_def le_word_le_bytes narrow_take_bit)

lemma phdrs_of_bytes_inverse: "phdrs_of_bytes (length ps) (concat (map phdr_bytes ps) @ rest) = ps"
  by (induction ps) (simp_all add: phdr_of_bytes_inverse)

definition demo_ehdr :: elf_ehdr_t where
  "demo_ehdr = \<lparr>e_ident = [0x7f, 0x45, 0x4c, 0x46, 2, 1, 1, 0, 0, 0, 0, 0, 0, 0, 0, 0], e_type = ET_EXEC,
     e_machine = EM_RISCV, e_version = EV_CURRENT, e_entry = 0x10078, e_phoff = 64, e_shoff = 0, e_flags = 0,
     e_ehsize = 64, e_phentsize = 56, e_phnum = 1, e_shentsize = 0, e_shnum = 0, e_shstrndx = 0\<rparr>"

definition demo_phdr :: elf_phdr_t where
  "demo_phdr = \<lparr>p_type = PT_LOAD, p_flags = 5, p_offset = 0, p_vaddr = 0x10000, p_paddr = 0x10000,
     p_filesz = 132, p_memsz = 132, p_align = 0x1000\<rparr>"

definition demo_code :: "u8 list" where
  "demo_code = [0x93, 0x08, 0xd0, 0x05, 0x13, 0x05, 0xa0, 0x02, 0x73, 0, 0, 0]"

definition demo_file :: "u8 list" where
  "demo_file = ehdr_bytes demo_ehdr @ phdr_bytes demo_phdr @ demo_code"

definition demo_bytes :: "c_int \<Rightarrow> u64 \<Rightarrow> u8" where
  "demo_bytes fd off = (if fd = 4 \<and> unat off < length demo_file then demo_file ! unat off else 0)"

definition demo_map :: "host_mem \<Rightarrow> u64 \<Rightarrow> u64 \<Rightarrow> c_int \<Rightarrow> (u64 \<Rightarrow> u8) option \<Rightarrow> host_mem" where
  "demo_map h addr len prot bs =
    (let n = page_len len in
     \<lparr>hbytes = (case bs of None \<Rightarrow> hbytes h | Some f \<Rightarrow> (\<lambda>x. if in_range addr n x then f (x - addr) else hbytes h x)),
      hread = (\<lambda>x. if in_range addr n x then prot AND PROT_READ \<noteq> 0 else hread h x),
      hwrite = (\<lambda>x. if in_range addr n x then prot AND PROT_WRITE \<noteq> 0 else hwrite h x)\<rparr>)"

definition demo_stat :: host_stat where
  "demo_stat = \<lparr>st_dev = 0, st_ino = 0, st_mode = 0, st_nlink = 0, st_uid = 0, st_gid = 0, st_rdev = 0,
     st_size = 0, st_blksize = 0, st_blocks = 0, st_atime = 0, st_atimensec = 0, st_mtime = 0,
     st_mtimensec = 0, st_ctime = 0, st_ctimensec = 0\<rparr>"

definition demo_host :: "u64 os" where
  "demo_host = \<lparr>os_mmap = \<lambda>w h a l prot fl fd off. (a, demo_map h a l prot (Some (\<lambda>k. demo_bytes fd (off + k))), w),
    os_mprotect = \<lambda>w h a l prot. (0, demo_map h a l prot None, w),
    os_open_zero = \<lambda>w. (3, w), os_close = \<lambda>w fd. w, os_access = \<lambda>w h a md. (0, w),
    os_fstat = \<lambda>w fd. (- 1, demo_stat, w), os_write = \<lambda>w h fd a n. (n, w),
    os_read = \<lambda>w fd n. let bs = take (unat n) (drop (unat w) demo_file) in (Inr bs, w + of_nat (length bs)),
    os_lseek_set = \<lambda>w fd off. (off, off), os_malloc = \<lambda>w n. (True, w),
    os_getcwd = \<lambda>w n. (Some [0x2f], w), os_open_read = \<lambda>w s. (4, 0)\<rparr>"

text \<open>Nothing is mapped at first.\<close>

definition demo_mem :: host_mem where
  "demo_mem = \<lparr>hbytes = \<lambda>_. 0, hread = \<lambda>_. False, hwrite = \<lambda>_. False\<rparr>"

section \<open>Its calls\<close>

lemma demo_host_sel [simp]:
  "os_mmap demo_host w h a l prot fl fd off = (a, demo_map h a l prot (Some (\<lambda>k. demo_bytes fd (off + k))), w)"
  "os_mprotect demo_host w h a l prot = (0, demo_map h a l prot None, w)"
  "os_open_zero demo_host w = (3, w)" "os_close demo_host w fd = w"
  "os_read demo_host w fd n = (Inr (take (unat n) (drop (unat w) demo_file)),
     w + of_nat (length (take (unat n) (drop (unat w) demo_file))))"
  "os_lseek_set demo_host w fd off = (off, off)" "os_malloc demo_host w n = (True, w)"
  "os_getcwd demo_host w n = (Some [0x2f], w)" "os_open_read demo_host w s = (4, 0)"
  by (simp_all add: demo_host_def Let_def)

text \<open>The process with a given memory, next free address and world.\<close>

definition demo_proc_at :: "host_mem \<Rightarrow> u64 \<Rightarrow> u64 \<Rightarrow> u64 proc" where
  "demo_proc_at h n w = (initial_proc h w)\<lparr>mmap_next_start := n\<rparr>"

abbreviation (input) demo_gb :: u64 where "demo_gb \<equiv> 0x400000000000"

lemma demo_proc_sel [simp]:
  "mem (mach (demo_proc_at h n w)) = h" "mmap_next_start (demo_proc_at h n w) = n" "world (demo_proc_at h n w) = w"
  "guest_base (mach (demo_proc_at h n w)) = demo_gb"
  "set_mem h' w' (demo_proc_at h n w) = demo_proc_at h' n w'"
  "(demo_proc_at h n w)\<lparr>world := w'\<rparr> = demo_proc_at h n w'"
  "(demo_proc_at h n w)\<lparr>mmap_next_start := n'\<rparr> = demo_proc_at h n' w"
  by (simp_all add: demo_proc_at_def initial_proc_def set_mem_def default_settings_def)

definition demo_map_file :: "host_mem \<Rightarrow> u64 \<Rightarrow> u64 \<Rightarrow> c_int \<Rightarrow> c_int \<Rightarrow> u64 \<Rightarrow> host_mem" where
  "demo_map_file h a l prot fd off = demo_map h a l prot (Some (\<lambda>k. demo_bytes (if fd <s 0 then 3 else fd) (off + k)))"

lemma demo_host_mmap:
  "host_mmap demo_host a l prot fl fd off (demo_proc_at h n w) = (a, demo_proc_at (demo_map_file h a l prot fd off) n w)"
  by (simp add: host_mmap_def Let_def demo_map_file_def)

lemma demo_target_mmap:
  assumes "fl AND MAP_FIXED \<noteq> 0" and "a + demo_gb \<noteq> - 1"
  shows "target_mmap demo_host a l prot fl fd off (demo_proc_at h n w) =
    (a, demo_proc_at (demo_map_file h (a + demo_gb) l prot fd off) n w)"
  using assms by (simp add: Let_def target_mmap_def demo_host_mmap g2h_def MAP_FAILED_def)

lemma demo_mmap_find:
  assumes "fl AND MAP_FIXED = 0" and "n \<ge> TASK_UNMAPPED_BASE" and "n + demo_gb \<noteq> - 1" and "n \<noteq> - 1"
  shows "target_mmap demo_host 0 l prot fl fd off (demo_proc_at h n w) =
    (n, demo_proc_at (demo_map_file (demo_map_file h (n + demo_gb) (HOST_PAGE_ALIGN l) PROT_NONE (- 1) 0)
       (n + demo_gb) l prot fd off) (n + HOST_PAGE_ALIGN l) w)"
  using assms fixed_flags(2) [of fl]
  by (simp add: target_mmap_def mmap_find_vma_def demo_host_mmap g2h_def h2g_def MAP_FAILED_def Let_def)

section \<open>Loading\<close>

lemma demo_lengths: "length demo_file = 132" "length (ehdr_bytes demo_ehdr) = 64" "SIZEOF_PHDR = 56"
  by (simp_all add: demo_file_def ehdr_bytes_def demo_ehdr_def demo_code_def SIZEOF_PHDR_def)

lemma demo_readn: "readn demo_host fd n w = Some (Inr (take (unat n) (drop (unat w) demo_file)),
    w + of_nat (length (take (unat n) (drop (unat w) demo_file))))"
  by (subst readn_step) (simp add: interrupted_def)

lemma demo_prepare:
  assumes "execfd b = 4"
  shows "prepare_binprm demo_host b (demo_proc_at h n 0) =
    Some (Inr (b\<lparr>bp_buf := demo_file @ replicate 124 0\<rparr>), demo_proc_at h n 132)"
  using assms demo_lengths(1)
  by (simp add: prepare_binprm_def demo_readn BINPRM_BUF_SIZE_def)

lemma demo_ehdr_read: "ehdr_of_bytes (demo_file @ replicate 124 0) = demo_ehdr"
  unfolding demo_file_def append_assoc by (rule ehdr_of_bytes_inverse) (simp add: demo_ehdr_def)

lemma demo_ehdr_ok: "elf_check_ehdr demo_ehdr = None"
  by (simp add: elf_check_ehdr_def elf_check_ehdr_ident_def elf_check_ehdr1_def demo_ehdr_def EI_CLASS_def
      EI_DATA_def EI_VERSION_def ELFCLASS64_def ELFDATA2LSB_def EV_CURRENT_def SIZEOF_EHDR_def SIZEOF_PHDR_def)

lemma demo_phdrs: "load_elf_phdrs demo_host demo_ehdr 4 (demo_proc_at h n w) = Some (Inr [demo_phdr], demo_proc_at h n 0)"
proof -
  have t: "take 56 (drop 64 demo_file) = phdr_bytes demo_phdr"
    unfolding demo_file_def using demo_lengths by simp
  have "phdrs_of_bytes 1 (phdr_bytes demo_phdr) = [demo_phdr]"
    using phdrs_of_bytes_inverse [of "[demo_phdr]" "[]"] by simp
  moreover have "e_phnum demo_ehdr = 1" "e_phoff demo_ehdr = 64" by (simp_all add: demo_ehdr_def)
  ultimately show ?thesis
    using t demo_lengths(1)
    by (simp add: load_elf_phdrs_def SIZEOF_PHDR_def TARGET_ELF_MIN_ALIGN_def pread_def demo_readn Let_def)
qed

text \<open>The memory after each mapping.\<close>

definition demo_mem1 :: host_mem where "demo_mem1 = demo_map_file demo_mem 0x400000010000 0x2000084 PROT_NONE (- 1) 0"
definition demo_mem2 :: host_mem where "demo_mem2 = demo_map_file demo_mem1 0x400000010000 0x1000 5 4 0"
definition demo_mem3 :: host_mem where "demo_mem3 = demo_map_file demo_mem2 0x400000011000 0x1fff084 3 (- 1) 0"
definition demo_mem4 :: host_mem where
  "demo_mem4 = demo_map (demo_map_file (demo_map_file demo_mem3 0x404000000000 0x801000 PROT_NONE (- 1) 0)
     0x404000000000 0x801000 3 (- 1) 0) 0x404000000000 0x1000 PROT_NONE None"

lemmas demo_flags = MAP_PRIVATE_def MAP_FIXED_def PROT_READ_def PROT_WRITE_def PROT_EXEC_def PROT_NONE_def
  TARGET_PAGE_SIZE_def TARGET_ELF_PAGELENGTH_def TARGET_ELF_PAGESTART_def TARGET_ELF_PAGEOFFSET_def
  TARGET_ELF_MIN_ALIGN_def PF_R_def PF_W_def PF_X_def ROUND_UP_def ROUND_DOWN_def HOST_PAGE_ALIGN_def
  HOST_PAGE_SIZE_def PT_LOAD_def ET_EXEC_def TASK_UNMAPPED_BASE_def

definition demo_info1 :: image_info where
  "demo_info1 = zero_info\<lparr>nsegs := 1, alignment := 0x1000, reserve_brk := 0x2000000, load_addr := 0x10000,
     info_entry := 0x10078, start_code := - 1, start_data := - 1\<rparr>"

lemma demo_reserve:
  "reserve_image demo_host demo_ehdr [demo_phdr] zero_info (demo_proc_at demo_mem n w) =
    (Inr (0x2010083, demo_info1), demo_proc_at demo_mem1 n w)"
  by (simp add: reserve_image_def scan_phdrs_def scan_phdr_def demo_phdr_def zero_info_def demo_info1_def Let_def
      demo_target_mmap try_mmap_def demo_mem1_def image_flags_def demo_ehdr_def demo_flags)

definition demo_info2 :: image_info where
  "demo_info2 = demo_info1\<lparr>start_code := 0x10000, end_code := 0x10084, start_data := 0x10000, end_data := 0x10084,
     info_brk := 0x10084\<rparr>"

lemma demo_segments:
  "load_segments demo_host 4 [demo_phdr] demo_info1 (demo_proc_at demo_mem1 n w) =
    (Inr demo_info2, demo_proc_at demo_mem2 n w)"
  by (simp add: load_segment_def map_segment_def demo_phdr_def demo_info1_def demo_info2_def zero_info_def Let_def
      segment_prot_def segment_bounds_def demo_target_mmap try_mmap_def demo_mem2_def demo_flags)

lemma demo_heap:
  "map_heap demo_host demo_ehdr 0x2010083 demo_info2 (demo_proc_at demo_mem2 n w) =
    (Inr 0x11000, demo_proc_at demo_mem3 n w)"
  by (simp add: map_heap_def demo_info2_def Let_def image_flags_def demo_ehdr_def demo_target_mmap try_mmap_def
      demo_mem3_def demo_flags)

lemma demo_stack:
  "map_stack demo_host 8388608 demo_info2 b (demo_proc_at demo_mem3 TASK_UNMAPPED_BASE w) =
    (Inr (demo_info2\<lparr>stack_limit := 0x4000001000\<rparr>, b\<lparr>bp_p := 0x4000800ff8\<rparr>),
     demo_proc_at demo_mem4 0x4000801000 w)"
  by (simp add: map_stack_def demo_info2_def demo_info1_def zero_info_def Let_def demo_mmap_find try_mmap_def
      demo_mem4_def target_mprotect_def g2h_def demo_flags)

lemma demo_room: "room (demo_proc_at demo_mem4 n w) 0x4000800ff8 4096"
  unfolding room_def
proof (intro allI impI)
  fix k :: nat assume k: "0 < k" "k \<le> 4096"
  have u: "unat (of_nat k :: u64) = k" using k by (simp add: unat_of_nat take_bit_nat_eq_self)
  have "g2h demo_gb (0x4000800ff8 - of_nat k) - 0x404000000000 = 0x800ff8 - of_nat k" by (simp add: g2h_def)
  moreover have "unat (0x800ff8 - of_nat k :: u64) = 0x800ff8 - k"
    using k u by (subst unat_sub) (simp_all add: word_le_nat_alt)
  ultimately have d: "unat (g2h demo_gb (0x4000800ff8 - of_nat k) - 0x404000000000) = 0x800ff8 - k" by simp
  show "hwrite (mem (mach (demo_proc_at demo_mem4 n w))) (g2h (guest_base (mach (demo_proc_at demo_mem4 n w)))
      (0x4000800ff8 - of_nat k))"
    unfolding demo_proc_sel demo_mem4_def demo_map_file_def demo_map_def Let_def in_range_def d
    using k by (auto simp: page_len_def d in_range_def PROT_WRITE_def)
qed

text \<open>The code in memory: readable, not writable, and the bytes of the file.\<close>

lemma demo_code_bytes:
  assumes "k < 12"
  shows "hread demo_mem4 (0x400000010078 + of_nat k) \<and> \<not> hwrite demo_mem4 (0x400000010078 + of_nat k) \<and>
    hbytes demo_mem4 (0x400000010078 + of_nat k) = demo_code ! k"
proof -
  have u: "unat (of_nat k :: u64) = k" using assms by (simp add: unat_of_nat take_bit_nat_eq_self)
  let ?x = "0x400000010078 + of_nat k :: u64"
  have n: "unat (0x78 + of_nat k :: u64) = 0x78 + k"
    using unat_plus [of "0x78" k] assms by simp
  have d: "?x - 0x400000010000 = 0x78 + of_nat k" by simp
  have ux: "unat ?x = 0x400000010078 + k" using unat_plus [of "0x400000010078" k] assms by simp
  have out: "\<not> in_range 0x404000000000 m ?x" "\<not> in_range 0x400000011000 m ?x" if "m \<le> 2 ^ 32" for m
    using that assms ux by (subst in_range_nat; simp)+
  have "in_range 0x400000010000 m ?x" if "m \<ge> 4096" for m
    using that assms n unfolding in_range_def d by simp
  moreover have "demo_file ! (0x78 + k) = demo_code ! k"
    using demo_lengths assms unfolding demo_file_def by (simp add: nth_append)
  ultimately show ?thesis
    using assms n d demo_lengths(1) out
    by (simp add: demo_mem4_def demo_mem3_def demo_mem2_def demo_map_file_def demo_map_def page_len_def
        demo_bytes_def demo_flags word_sless_alt)
qed

text \<open>What the loader returns.\<close>

definition demo_args :: "u8 list list" where "demo_args = [bytes ''/p'', bytes ''x'']"
definition demo_envs :: "u8 list list" where "demo_envs = [bytes ''A=1'']"

lemma demo_load:
  obtains info regs p where
    "elf_load demo_host (8 * 2 ^ 20) 4 (bytes ''/p'') demo_args demo_envs
       (demo_proc_at demo_mem TASK_UNMAPPED_BASE 0) = Some (Inr (info, regs), p)"
    "regs_sepc regs = 0x10078" "pushed (demo_proc_at demo_mem4 0x4000801000 0) p" "info_brk info = 0x10084"
proof -
  let ?b = "\<lparr>bp_buf = demo_file @ replicate 124 0, bp_p = 0x4000800ff8, execfd = 4, bp_argc = length demo_args,
      bp_envc = length demo_envs, bp_argv = demo_args, bp_envp = demo_envs, bp_filename = bytes ''/p''\<rparr>"
  let ?p = "demo_proc_at demo_mem4 0x4000801000 0"
  have "room ?p (bp_p ?b) (tables_size ?b)"
  proof -
    have "tables_size ?b \<le> 4096"
      by (simp add: tables_size_def demo_args_def demo_envs_def bytes_def)
    then show ?thesis using demo_room [of "0x4000801000" 0] unfolding room_def by simp
  qed
  from create_elf_tables_ok [of demo_host ?p ?b 0, OF _ _ _ _ this] obtain sp p' where
    t: "create_elf_tables demo_host ?b ?p = (Inr (?b\<lparr>bp_p := sp\<rparr>), p')" "pushed ?p p'"
    by (auto simp: demo_args_def)
  show thesis
  proof (rule that)
    show "elf_load demo_host (8 * 2 ^ 20) 4 (bytes ''/p'') demo_args demo_envs
        (demo_proc_at demo_mem TASK_UNMAPPED_BASE 0) =
      Some (Inr (demo_info2\<lparr>stack_limit := 0x4000001000, start_stack := sp\<rparr>,
        init_thread (demo_info2\<lparr>stack_limit := 0x4000001000, start_stack := sp\<rparr>)), p')"
      using t(1) by (simp add: elf_load_def Let_def demo_prepare load_elf_binary_def demo_ehdr_read demo_ehdr_ok
          demo_phdrs demo_reserve demo_segments demo_heap demo_stack del: load_segments.simps)
    show "regs_sepc (init_thread (demo_info2\<lparr>stack_limit := 0x4000001000, start_stack := sp\<rparr>)) = 0x10078"
      "info_brk (demo_info2\<lparr>stack_limit := 0x4000001000, start_stack := sp\<rparr>) = 0x10084"
      by (simp_all add: init_thread_def demo_info2_def demo_info1_def)
  qed (rule t(2))
qed

section \<open>Running\<close>

definition code_there :: "host_mem \<Rightarrow> bool" where
  "code_there h \<longleftrightarrow> (\<forall>k<12. hread h (0x400000010078 + of_nat k) \<and> \<not> hwrite h (0x400000010078 + of_nat k) \<and>
     hbytes h (0x400000010078 + of_nat k) = demo_code ! k)"

lemma code_there_pushed: "pushed (demo_proc_at demo_mem4 n w) p \<Longrightarrow> code_there (mem (mach p))"
  using demo_code_bytes by (auto simp: code_there_def pushed_def frame_but_mem_def)

lemma code_there_buffer:
  assumes "code_there h"
  shows "code_there (demo_map_file h INSN_BUFFER_MAP_START (of_nat INSN_BUFFER_SIZE) prot fd off)"
proof -
  have "\<not> in_range INSN_BUFFER_MAP_START m (0x400000010078 + of_nat k)" if "m \<le> 2 ^ 32" "k < 12" for m k
  proof -
    have "unat (0x400000010078 + of_nat k :: u64) = 0x400000010078 + k"
      using unat_plus [of "0x400000010078" k] that by simp
    with that show ?thesis by (subst in_range_nat) (simp_all add: INSN_BUFFER_MAP_START_def)
  qed
  moreover have "page_len (of_nat INSN_BUFFER_SIZE) \<le> 2 ^ 32"
    by (simp add: page_len_def INSN_BUFFER_SIZE_def)
  ultimately show ?thesis
    using assms by (simp add: code_there_def demo_map_file_def demo_map_def Let_def)
qed

lemma demo_opcodes:
  assumes "code_there h"
  shows "fixed_code h demo_gb 0x10078 = Some 0x05d00893" and "fixed_code h demo_gb 0x1007c = Some 0x02a00513"
    and "fixed_code h demo_gb 0x10080 = Some 0x73"
proof -
  have b: "hread h (0x400000010078 + of_nat k) \<and> \<not> hwrite h (0x400000010078 + of_nat k) \<and>
    hbytes h (0x400000010078 + of_nat k) = demo_code ! k" if "k < 12" for k
    using that assms by (simp add: code_there_def)
  note bs = b [of 0] b [of 1] b [of 2] b [of 3] b [of 4] b [of 5] b [of 6] b [of 7] b [of 8] b [of 9] b [of 10] b [of 11]
  show "fixed_code h demo_gb 0x10078 = Some 0x05d00893" "fixed_code h demo_gb 0x1007c = Some 0x02a00513"
    "fixed_code h demo_gb 0x10080 = Some 0x73"
    using bs by (simp_all add: fixed_code_def guest_code_def cpu_lduw_def host_load_def load_bytes_def g2h_def
        demo_code_def upt_rec)
qed

definition demo_insns :: "insn_t list" where
  "demo_insns = [zero_insn\<lparr>rd := 17, imm := 93, insn_handler := H_i Do_addi\<rparr>,
    zero_insn\<lparr>rd := 10, imm := 42, insn_handler := H_i Do_addi\<rparr>,
    zero_insn\<lparr>insn_pc := 0x10080, insn_handler := Do_ecall\<rparr>]"

lemma demo_block:
  assumes "code_there (mem m)" and "guest_base m = demo_gb"
  shows "block_at m 0x10078 = Some (demo_insns, (start_ctx 0x10080)\<lparr>tc_exit := True\<rparr>)"
proof -
  have d: "decode_one (start_ctx 0x10078) zero_insn 0x05d00893 = (start_ctx 0x10078, demo_insns ! 0)"
    "decode_one (start_ctx 0x1007c) zero_insn 0x02a00513 = (start_ctx 0x1007c, demo_insns ! 1)"
    "decode_one (start_ctx 0x10080) zero_insn 0x73 = ((start_ctx 0x10080)\<lparr>tc_exit := True\<rparr>, demo_insns ! 2)"
    "insn_len 0x05d00893 = 4" "insn_len 0x02a00513 = 4"
    by code_simp+
  have c: "\<not> tc_exit (start_ctx pc)" "tc_pc (start_ctx pc) = pc" "(start_ctx pc)\<lparr>tc_pc := pc'\<rparr> = start_ctx pc'" for pc pc'
    by (simp_all add: start_ctx_def)
  show ?thesis
    unfolding block_at_def assms(2)
    by (subst fetch_block.simps, simp add: c d demo_opcodes [OF assms(1)] TRANS_MAX_def,
        subst fetch_block.simps, simp add: c d demo_opcodes [OF assms(1)] TRANS_MAX_def,
        subst fetch_block.simps, simp add: c d demo_opcodes [OF assms(1)] TRANS_MAX_def demo_insns_def)
qed

lemma demo_exec:
  assumes "length (gpr (env m)) = 32" and "gpr (env m) ! 0 = 0"
  shows "exec_list demo_insns m = Inr (m\<lparr>env := (env m)\<lparr>gpr := (gpr (env m))[17 := 93, 10 := 42],
    env_pc := 0x10080, env_exception := U_ECALL\<rparr>\<rparr>)"
  using assms
  by (simp add: demo_insns_def run_insn_def on_env_def do_addi_def do_ecall_def set_reg_def reg_def zero_insn_def
      simm_def)

lemma demo_ref_loop:
  assumes "code_there (mem (mach p))" and "guest_base (mach p) = demo_gb" and "env_pc (env (mach p)) = 0x10078"
    and "env_exception (env (mach p)) = EXCP_NONE" and "length (gpr (env (mach p))) = 32" and "gpr (env (mach p)) ! 0 = 0"
  shows "ref_loop os 3 p = Some (Exited 42, world p)"
proof -
  have "ref_exec (Suc (Suc 0)) (mach p) = Some (Inr ((mach p)\<lparr>env := (env (mach p))\<lparr>gpr := (gpr (env (mach p)))[17 := 93, 10 := 42],
      env_pc := 0x10080, env_exception := U_ECALL\<rparr>\<rparr>))"
    using assms(3,4) by (simp add: demo_block [OF assms(1,2)] demo_exec [OF assms(5,6)])
  then show ?thesis
    using assms(5) unfolding numeral_3_eq_3 ref_loop.simps
    by (simp add: handle_exception_def do_syscall_def Let_def del: ref_exec.simps)
qed

section \<open>From the command line to the exit status\<close>

definition demo_opts :: vector where
  "demo_opts = map Some demo_args @ None # map Some demo_envs @ [None]"

lemma demo_path:
  obtains buf where "get_real_path demo_host (Some (bytes ''/p'')) (Some (replicate 64 0)) [] 0 = (Inr buf, 0)"
    "c_string buf = Inr (bytes ''/p'')"
proof -
  have p: "bytes ''/p'' = [0x2f, 0x70]" by (simp add: bytes_def)
  have cwd: "os_getcwd demo_host 0 (of_nat PATH_MAX) = (Some (path_text [[]]), 0)" by simp
  have "\<exists>buf. get_real_path demo_host (Some (bytes ''/p'')) (Some (replicate 64 0)) [] 0 = (Inr buf, if True then 0 else 0) \<and>
      c_string buf = Inr (shown (fold enter (pieces (bytes ''/p'')) (if True then [] else [[]])))"
    by (rule get_real_path_names [OF _ _ _ _ cwd]) (simp_all add: p plain_name_def)
  then show thesis using that by (auto simp: p enter_def shown_def)
qed

lemma demo_alloc:
  assumes "code_there (mem (mach p))"
  obtains q where "alloc_insn_buffer demo_host p = (True, q)" "code_there (mem (mach q))" "world q = world p"
    "guest_base (mach q) = guest_base (mach p)" "env (mach q) = env (mach p)"
proof -
  let ?h = "demo_map_file (mem (mach p)) INSN_BUFFER_MAP_START (of_nat INSN_BUFFER_SIZE) (PROT_READ OR PROT_WRITE) (- 1) 0"
  have "alloc_insn_buffer demo_host p = (True, set_mem ?h (world p) p)"
    by (simp add: alloc_insn_buffer_def host_mmap_def demo_map_file_def Let_def INSN_BUFFER_MAP_START_def MAP_FAILED_def)
  from that [OF this] code_there_buffer [OF assms] show thesis by (simp add: set_mem_def)
qed

lemma demo_loaded:
  assumes "pushed (demo_proc_at demo_mem4 0x4000801000 0) p"
  shows "guest_base (mach p) = demo_gb" and "world p = 0" and "env (mach p) = zero_env"
  using assms by (auto simp: pushed_def frame_but_mem_def demo_proc_at_def initial_proc_def default_settings_def)

text \<open>The command line \<open>/p x\<close>, with the file opened and loaded.\<close>

lemma demo_command:
  shows "bytes ''/p'' = [] \<or> hd (bytes ''/p'') \<noteq> 0x2d" and "0 \<notin> set (bytes ''/p'')"
    and "0x2f \<notin> set (replicate 64 0 :: u8 list)" and "last (replicate 64 0 :: u8 list) = 0"
    and "\<forall>c\<in>set [[] :: u8 list]. plain_name c" and "[[]] \<noteq> ([] :: u8 list list)"
    and "os_getcwd demo_host 0 (of_nat PATH_MAX) = (Some (path_text [[]]), 0)"
    and "length (path_text [[]]) + length (bytes ''/p'') + 1 < length (replicate 64 0 :: u8 list)"
    and "True \<longleftrightarrow> bytes ''/p'' \<noteq> [] \<and> hd (bytes ''/p'') = 0x2f"
    and "bytes ''/p'' = shown (fold enter (pieces (bytes ''/p'')) (if True then [] else [[]]))"
    and "os_open_read demo_host (if True then 0 else 0) (bytes ''/p'') = (4, 0)"
    and "default_settings = fold apply_choice [] default_settings"
  by (simp_all add: bytes_def plain_name_def enter_def shown_def)

lemma demo_initial:
  "(initial_proc demo_mem 0)\<lparr>mach := (mach (initial_proc demo_mem 0))\<lparr>guest_base := opt_guest_base default_settings\<rparr>\<rparr> =
    demo_proc_at demo_mem TASK_UNMAPPED_BASE 0"
  "guest_stack_size default_settings = 8 * 2 ^ 20"
  "demo_opts = map Some (concat (map choice_words [])) @ Some (bytes ''/p'') # map Some [bytes ''x''] @
    None # map Some demo_envs @ [None]"
  "bytes ''/p'' # [bytes ''x''] = demo_args"
  by (simp_all add: demo_proc_at_def initial_proc_def default_settings_def demo_opts_def demo_args_def)

lemma demo_started:
  assumes "pushed (demo_proc_at demo_mem4 0x4000801000 0) p" and "regs_sepc regs = 0x10078"
    and "p1 = set_env (fst (target_cpu_copy_regs (env (mach p)) zero_task info regs)) (target_set_brk (info_brk info) p)"
  shows "code_there (mem (mach p1))" and "guest_base (mach p1) = demo_gb" and "world p1 = 0"
    and "env_pc (env (mach p1)) = 0x10078" and "length (gpr (env (mach p1))) = 32" and "gpr (env (mach p1)) ! 0 = 0"
  using code_there_pushed [OF assms(1)] demo_loaded [OF assms(1)] assms(2)
  by (simp_all add: assms(3) set_env_def target_set_brk_def Let_def target_cpu_copy_regs_def zero_env_def)

lemma demo_cpu_loop:
  assumes "code_there (mem (mach p))" and "guest_base (mach p) = demo_gb" and "env_pc (env (mach p)) = 0x10078"
    and "length (gpr (env (mach p))) = 32" and "gpr (env (mach p)) ! 0 = 0"
  shows "cpu_loop demo_host p = Some (Exited 42, world p)"
proof -
  obtain q where q: "alloc_insn_buffer demo_host p = (True, q)" "code_there (mem (mach q))" "world q = world p"
    "guest_base (mach q) = guest_base (mach p)" "env (mach q) = env (mach p)"
    using demo_alloc [OF assms(1)] by blast
  let ?q = "set_env ((env (mach q))\<lparr>env_exception := EXCP_NONE\<rparr>) q"
  let ?V = "set (loop_starts demo_host 3 ?q)"
  have "ref_loop demo_host 3 ?q = Some (Exited 42, world ?q)"
    by (rule demo_ref_loop) (use assms q in \<open>simp_all add: set_env_def\<close>)
  moreover have "world ?q = world p" using q by (simp add: set_env_def)
  moreover have "card ?V \<le> 65536"
    using card_length [of "loop_starts demo_host 3 ?q"] loop_starts_length [of demo_host 3 ?q] by simp
  ultimately show ?thesis
    using run_loop_fits [OF empty_cache_inv, of demo_host 3 ?q _ ?V] roomy_empty [of ?V] q(1)
    by (simp add: cpu_loop_def)
qed

section \<open>What the host promises\<close>

lemma demo_maps_file: "maps_file demo_host demo_bytes"
  by (auto simp: maps_file_def demo_map_def Let_def)

lemma demo_zero_device: "zero_device demo_host demo_bytes"
  by (simp add: zero_device_def demo_bytes_def)

text \<open>A segment with a part that the file does not hold.\<close>

lemma demo_bss_segment:
  "\<exists>p'. map_segment demo_host 4 (demo_phdr\<lparr>p_memsz := 5000\<rparr>) 0x10000 3 (demo_proc_at demo_mem n w) = (Inr (), p')"
proof -
  let ?h = "demo_map_file (demo_map_file demo_mem 0x400000010000 0x1000 3 4 0) 0x400000011000 0x1000 3 (- 1) 0"
  have "hwrite ?h (0x400000010084 + of_nat i)" if "i < 3964" for i
  proof -
    have "unat (0x84 + of_nat i :: u64) = 0x84 + i" using unat_plus [of "0x84" i] that by simp
    then have "in_range 0x400000010000 0x1000 (0x400000010084 + of_nat i)"
      using that by (simp add: in_range_def)
    then show ?thesis by (simp add: demo_map_file_def demo_map_def Let_def page_len_def PROT_WRITE_def)
  qed
  then obtain h where st: "store_bytes ?h 0x400000010084 (replicate 3964 0) = Some h"
    by (simp add: store_bytes_Some)
  show ?thesis
    by (simp add: map_segment_def demo_phdr_def Let_def demo_target_mmap try_mmap_def zero_bss_def demo_host_mmap
        TARGET_PAGE_ALIGN_def g2h_def st demo_flags)
qed

definition demo_binprm :: linux_binprm where
  "demo_binprm = \<lparr>bp_buf = [], bp_p = 0x4000800ff8, execfd = 4, bp_argc = 2, bp_envc = 1, bp_argv = demo_args,
     bp_envp = demo_envs, bp_filename = bytes ''/p''\<rparr>"

lemma demo_binprm_size: "tables_size demo_binprm \<le> 4096" "tables_size demo_binprm \<le> 18446744073709551616"
  by (simp_all add: tables_size_def demo_binprm_def demo_args_def demo_envs_def bytes_def)

lemma demo_binprm_room: "room (demo_proc_at demo_mem4 n w) (bp_p demo_binprm) (tables_size demo_binprm)"
  using demo_room [of n w] demo_binprm_size(1) by (simp add: room_def demo_binprm_def)

end
