(* ===== verification/Rv64_Run.thy ===== *)
theory Rv64_Run
  imports Rv64_Step Cpu_Loop
begin

text \<open>
  Whole runs: as long as no instruction departs and no block is cut, the blocks, the cache and the links of the emulator
  lead where the reference machine goes one instruction at a time, from system call to system call.
\<close>


text \<open>
  The runs on which the emulator follows: no instruction departs, and no \<open>TRANS_MAX\<close> instructions pass without one that
  ends the block.  \<open>s\<close> counts the instructions since the last such.
\<close>

fun covered :: "nat \<Rightarrow> nat \<Rightarrow> reservation \<Rightarrow> machine \<Rightarrow> bool" where
  "covered 0 s v m = True"
| "covered (Suc n) s v m =
    (env_exception (env m) \<noteq> EXCP_NONE \<or>
     (case fixed_code (mem m) (guest_base m) (env_pc (env m)) of
        None \<Rightarrow> True
      | Some op \<Rightarrow> s < TRANS_MAX \<and> \<not> departs v op m \<and>
          (case rv_exec v (of_nat (insn_len op)) (rv_decode op) m of
             Inl e \<Rightarrow> True
           | Inr m' \<Rightarrow> covered n (if ends_run (rv_decode op) then 0 else s + 1) (rv_reserve v (rv_decode op) m) m')))"

text \<open>The addresses of the instructions of a run.\<close>

fun rv_pcs :: "nat \<Rightarrow> reservation \<Rightarrow> machine \<Rightarrow> u64 list" where
  "rv_pcs 0 v m = []"
| "rv_pcs (Suc n) v m =
    (if env_exception (env m) \<noteq> EXCP_NONE then []
     else env_pc (env m) # (case rv_step v m of Some (Inr m, v) \<Rightarrow> rv_pcs n v m | _ \<Rightarrow> []))"

lemma rv_pcs_length: "length (rv_pcs n v m) \<le> n"
  by (induction n arbitrary: v m) (auto split: option.split sum.split)

lemma retire_ok: "cpu_ok m \<Longrightarrow> cpu_ok (retire q d v m)"
  by (simp add: cpu_ok_def retire_def set_x_def set_reg_other gpr_0_set_reg set_pc_other)

lemma rv_exec_ok:
  assumes "rv_exec v n r m = Inr m'" and "cpu_ok m"
  shows "cpu_ok m'"
proof -
  have x: "cpu_ok (raise_exc x m)" for x using assms(2) by (simp add: cpu_ok_def raise_exc_def)
  show ?thesis
    using assms x
    by (cases r) (auto simp: Let_def bind_result_Inr guest_write_def split: option.splits if_splits intro!: retire_ok)
qed


text \<open>
  From the start of a block, a covered run of the reference machine runs the whole block and goes on behind it.  The machine of
  the emulator carries the counter of the start of the block.
\<close>

lemma covered_block:
  assumes "rv_run n v (with_pc pc m) = Some (Inr r)" and "covered n s v (with_pc pc m)"
    and "cpu_ok m" and "env_exception (env m) = EXCP_NONE"
  shows "\<exists>is c m1 k v1. fetch_block (fixed_code (mem m) (guest_base m)) (start_ctx pc) s = Some (is, c) \<and>
    is \<noteq> [] \<and> clean_block is \<and> exec_list is m = Inr m1 \<and> k < n \<and> rv_run k v1 m1 = Some (Inr r) \<and>
    covered k 0 v1 m1 \<and> cpu_ok m1 \<and> set (rv_pcs k v1 m1) \<subseteq> set (rv_pcs n v (with_pc pc m))"
  using assms
proof (induction n arbitrary: pc m s v)
  case (Suc n)
  let ?m = "with_pc pc m" and ?c = "start_ctx pc"
  have ok: "cpu_ok ?m" using Suc.prems(3) by (simp add: cpu_ok_def)
  obtain op where op: "fixed_code (mem m) (guest_base m) pc = Some op"
    using Suc.prems(1,4) by (auto simp: rv_step_def split: option.splits)
  let ?n = "of_nat (insn_len op) :: u64" and ?v = "rv_reserve v (rv_decode op) ?m"
  obtain m2 where m2: "rv_exec v ?n (rv_decode op) ?m = Inr m2" "rv_run n ?v m2 = Some (Inr r)"
    using Suc.prems(1,4) op by (auto simp: rv_step_def split: option.splits sum.splits)
  have pcs: "rv_pcs (Suc n) v ?m = pc # rv_pcs n ?v m2"
    using m2(1) op Suc.prems(4) by (simp add: rv_step_def)
  have cov: "s < TRANS_MAX" "\<not> departs v op ?m" "covered n (if ends_run (rv_decode op) then 0 else s + 1) ?v m2"
    using Suc.prems(2,4) op m2(1) by auto
  have ok2: "cpu_ok m2" using rv_exec_ok [OF m2(1) ok] .
  obtain c' i where d: "decode_one ?c zero_insn op = (c', i)" by fastforce
  note shape = step_shape [OF cov(2) d]
  have "isa_step ?m = Some (Inr m2)"
    using step_arch [OF ok _ cov(2)] op m2(1) by (simp add: rv_step_def)
  then have fin: "finish (pc + ?n) i ?m = Inr m2"
    using isa_step_finish [of ?m op i] op d by simp
  then obtain m' where m': "run_insn i ?m = Inr m'" "gpr (env m') ! 0 = 0"
      "m2 = (if straight i then with_pc (pc + ?n) m' else m')"
    by (auto simp: finish_def bind_result_Inr split: if_splits)
  have ctx: "tc_pc ?c = pc" "\<not> tc_exit ?c" by (simp_all add: start_ctx_def)
  have c': "c' = context_after (insn_len op) i ?c"
    using decode_one_ok [OF zero_insn_regs, of op ?c] d by (simp add: decode_ok_def)
  show ?case
  proof (cases "straight i")
    case False
    then have run: "run_insn i m = Inr m2" "gpr (env m2) ! 0 = 0"
      using m' run_insn_end_with_pc by simp_all
    have "fetch_block (fixed_code (mem m) (guest_base m)) ?c s = Some ([i], c')"
      using op d False c' ctx by (simp add: fetch_block.simps [of _ ?c] Let_def)
    moreover have "clean_block [i]" using False by (simp add: clean_block_def)
    moreover have "exec_list [i] m = Inr m2" using run by simp
    moreover have "covered n 0 ?v m2" using cov(3) shape False by simp
    moreover have "set (rv_pcs n ?v m2) \<subseteq> set (rv_pcs (Suc n) v ?m)" unfolding pcs by auto
    ultimately show ?thesis using m2(2) ok2 by blast
  next
    case True
    note quiet = shape(2) [OF True]
    obtain mm where mm: "run_insn i m = Inr mm" "m' = with_pc pc mm"
      using m'(1) run_insn_with_pc [OF True quiet, of pc m] by (cases "run_insn i m") auto
    then have m2': "m2 = with_pc (pc + ?n) mm" using m'(3) True by simp
    have okm: "cpu_ok mm" using ok2 m2' by (simp add: cpu_ok_def)
    have exc: "env_exception (env mm) = EXCP_NONE"
      using run_insn_straight [OF mm(1) quiet] straight_not_jump True Suc.prems(4) by simp
    have cov2: "covered n (s + 1) ?v (with_pc (pc + ?n) mm)" using cov(3) shape(1) True m2' by simp
    have run2: "rv_run n ?v (with_pc (pc + ?n) mm) = Some (Inr r)" using m2(2) m2' by simp
    from Suc.IH [OF run2 cov2 okm exc] obtain "is" c m1 k v1 where ih:
      "fetch_block (fixed_code (mem mm) (guest_base mm)) (start_ctx (pc + ?n)) (s + 1) = Some (is, c)"
      "is \<noteq> []" "clean_block is" "exec_list is mm = Inr m1" "k < n" "rv_run k v1 m1 = Some (Inr r)"
      "covered k 0 v1 m1" "cpu_ok m1" "set (rv_pcs k v1 m1) \<subseteq> set (rv_pcs n ?v (with_pc (pc + ?n) mm))" by blast
    have sub: "set (rv_pcs k v1 m1) \<subseteq> set (rv_pcs (Suc n) v ?m)" using ih(9) m2' unfolding pcs by auto
    have "s + 1 < TRANS_MAX"
    proof (cases n)
      case (Suc j)
      with run2 cov2 exc show ?thesis by (auto simp: rv_step_def split: option.splits)
    qed (use run2 in simp)
    moreover have "?c\<lparr>tc_pc := pc + ?n\<rparr> = start_ctx (pc + ?n)" by (simp add: start_ctx_def)
    ultimately have "fetch_block (fixed_code (mem m) (guest_base m)) ?c s = Some (i # is, c)"
      using op d True c' ctx ih(1) fixed_code_frame [OF run_insn_frame [OF mm(1)]]
      by (simp add: fetch_block.simps [of _ ?c] Let_def)
    moreover have "clean_block (i # is)" using ih(2,3) quiet by (auto simp: clean_block_def)
    moreover have "exec_list (i # is) m = Inr m1"
      using mm(1) ih(4) okm by (simp add: cpu_ok_def)
    ultimately show ?thesis
      using ih(5-8) sub by (intro exI [of _ "i # is"] exI [of _ c] exI [of _ m1] exI [of _ k] exI [of _ v1]) simp
  qed
qed simp

lemma covered_clean_exec:
  assumes "rv_run n v m = Some (Inr r)" and "covered n 0 v m" and "cpu_ok m"
  shows "\<exists>k. clean_exec k m = Some (Inr r) \<and> cpu_ok r \<and> set (ref_starts k m) \<subseteq> set (rv_pcs n v m)"
  using assms
proof (induction n arbitrary: v m rule: less_induct)
  case (less n)
  show ?case
  proof (cases "env_exception (env m) = EXCP_NONE")
    case False
    with less.prems show ?thesis by (intro exI [of _ 1]) (cases n; simp)
  next
    case True
    from covered_block [of n v "env_pc (env m)" m r 0] less.prems True obtain "is" c m1 k v1 where b:
      "fetch_block (fixed_code (mem m) (guest_base m)) (start_ctx (env_pc (env m))) 0 = Some (is, c)"
      "clean_block is" "exec_list is m = Inr m1" "k < n" "rv_run k v1 m1 = Some (Inr r)"
      "covered k 0 v1 m1" "cpu_ok m1" "set (rv_pcs k v1 m1) \<subseteq> set (rv_pcs n v m)" by auto
    from less.IH [OF b(4-7)] obtain j where j: "clean_exec j m1 = Some (Inr r)" "cpu_ok r"
      "set (ref_starts j m1) \<subseteq> set (rv_pcs k v1 m1)" by blast
    have "env_pc (env m) \<in> set (rv_pcs n v m)" using b(4) True by (cases n) simp_all
    with j(3) b(1,3,8) True have "set (ref_starts (Suc j) m) \<subseteq> set (rv_pcs n v m)"
      by (auto simp: block_at_def)
    with b j(1,2) True show ?thesis by (intro exI [of _ "Suc j"]) (simp add: block_at_def del: ref_starts.simps)
  qed
qed


section \<open>The whole process\<close>

text \<open>
  A RISC-V process: the reference machine runs to an exception, which is served by the system calls of the program and
  takes the reservation away.  A run that is not covered has no result here.
\<close>

fun rv_loop :: "'w os \<Rightarrow> nat \<Rightarrow> 'w proc \<Rightarrow> (stop \<times> 'w) option" where
  "rv_loop os 0 p = None"
| "rv_loop os (Suc n) p =
    (case rv_run n None (mach p) of
       Some (Inr m) \<Rightarrow>
         if covered n 0 None (mach p) then
           (case handle_exception os (p\<lparr>mach := m\<rparr>) of
              (Inl s, p) \<Rightarrow> Some (s, world p)
            | (Inr _, p) \<Rightarrow> if code_kept m (mach p) then rv_loop os n p else None)
         else None
     | _ \<Rightarrow> None)"

fun loop_pcs :: "'w os \<Rightarrow> nat \<Rightarrow> 'w proc \<Rightarrow> u64 list" where
  "loop_pcs os 0 p = []"
| "loop_pcs os (Suc n) p = rv_pcs n None (mach p) @
    (case rv_run n None (mach p) of
       Some (Inr m) \<Rightarrow>
         (case handle_exception os (p\<lparr>mach := m\<rparr>) of (Inr _, p) \<Rightarrow> loop_pcs os n p | _ \<Rightarrow> [])
     | _ \<Rightarrow> [])"

lemma ref_exec_mono:
  "ref_exec n m = Some r \<Longrightarrow> n \<le> k \<Longrightarrow> ref_exec k m = Some r \<and> ref_starts k m = ref_starts n m"
proof (induction n arbitrary: m k)
  case (Suc n)
  then obtain j where j: "k = Suc j" "n \<le> j" by (cases k) auto
  show ?case
  proof (cases "env_exception (env m) = EXCP_NONE")
    case True
    then obtain "is" c where b: "block_at m (env_pc (env m)) = Some (is, c)"
      using Suc.prems(1) by (auto split: option.splits)
    show ?thesis
    proof (cases "exec_list is m")
      case (Inr m')
      with Suc.IH [of m' j] Suc.prems(1) True b j show ?thesis by simp
    next
      case (Inl e)
      with True b Suc.prems(1) have "r = Inl e" by simp
      with True b j Inl show ?thesis by simp
    qed
  qed (use j Suc.prems(1) in simp)
qed simp

lemma ref_loop_mono:
  "ref_loop os n p = Some r \<Longrightarrow> n \<le> k \<Longrightarrow> ref_loop os k p = Some r \<and> loop_starts os k p = loop_starts os n p"
proof (induction n arbitrary: p k)
  case (Suc n)
  then obtain j where j: "k = Suc j" "n \<le> j" by (cases k) auto
  from Suc.prems(1) obtain q' where q: "ref_exec n (mach p) = Some q'" by (auto split: option.splits)
  with ref_exec_mono j have "ref_exec j (mach p) = Some q'" "ref_starts j (mach p) = ref_starts n (mach p)" by blast+
  note q = q this
  show ?case
  proof (cases q')
    case (Inl s)
    with q j Suc.prems(1) show ?thesis by simp
  next
    case (Inr m)
    obtain h p' where h: "handle_exception os (p\<lparr>mach := m\<rparr>) = (h, p')" by fastforce
    have "ref_loop os j p' = Some r \<and> loop_starts os j p' = loop_starts os n p'" if "h = Inr u" for u
      using Suc.IH [of p' j] Suc.prems(1) q(1) h Inr that j(2) by (simp split: if_splits)
    with q h Inr j Suc.prems(1) show ?thesis by (cases h) (auto split: if_splits)
  qed
qed simp

lemma loop_pcs_length: "length (loop_pcs os n p) \<le> n * n"
proof (induction n arbitrary: p)
  case (Suc n)
  have "length (case rv_run n None (mach p) of Some (Inr m) \<Rightarrow>
      (case handle_exception os (p\<lparr>mach := m\<rparr>) of (Inr _, p) \<Rightarrow> loop_pcs os n p | _ \<Rightarrow> []) | _ \<Rightarrow> []) \<le> n * n"
    using Suc by (simp split: option.split sum.split prod.split)
  with rv_pcs_length [of n None "mach p"] show ?case by simp
qed simp

lemma handle_exception_ok:
  assumes "handle_exception os p = (Inr u, p')" and "cpu_ok (mach p)"
  shows "cpu_ok (mach p')"
  using assms
  by (auto simp: handle_exception_def Let_def set_env_def cpu_ok_def split: excp.splits prod.splits sum.splits
      dest!: do_syscall_frame)

lemma rv_loop_ref:
  assumes "rv_loop os n p = Some r" and "cpu_ok (mach p)"
  shows "\<exists>k. ref_loop os k p = Some r \<and> set (loop_starts os k p) \<subseteq> set (loop_pcs os n p)"
  using assms
proof (induction n arbitrary: p)
  case (Suc n)
  then obtain m where m: "rv_run n None (mach p) = Some (Inr m)" "covered n 0 None (mach p)"
    by (auto split: option.splits sum.splits if_splits)
  from covered_clean_exec [OF m Suc.prems(2)] obtain j where j: "ref_exec j (mach p) = Some (Inr m)" "cpu_ok m"
      "set (ref_starts j (mach p)) \<subseteq> set (rv_pcs n None (mach p))"
    using clean_exec_ref by blast
  obtain h p' where h: "handle_exception os (p\<lparr>mach := m\<rparr>) = (h, p')" by fastforce
  show ?case
  proof (cases h)
    case (Inl s)
    with h j m Suc.prems(1) show ?thesis by (intro exI [of _ "Suc j"]) simp
  next
    case (Inr u)
    with h m Suc.prems(1) have step: "code_kept m (mach p')" "rv_loop os n p' = Some r"
      by (auto split: if_splits)
    have "cpu_ok (mach p')" using handle_exception_ok h Inr j(2) by fastforce
    with Suc.IH step(2) obtain k where k: "ref_loop os k p' = Some r"
      "set (loop_starts os k p') \<subseteq> set (loop_pcs os n p')" by blast
    define K where "K = max j k"
    then have K: "j \<le> K" "k \<le> K" by simp_all
    have "ref_exec K (mach p) = Some (Inr m)" "ref_starts K (mach p) = ref_starts j (mach p)"
      using ref_exec_mono [OF j(1) K(1)] by blast+
    moreover have "ref_loop os K p' = Some r" "loop_starts os K p' = loop_starts os k p'"
      using ref_loop_mono [OF k(1) K(2)] by blast+
    moreover have "loop_pcs os (Suc n) p = rv_pcs n None (mach p) @ loop_pcs os n p'" using h Inr m(1) by simp
    ultimately have "ref_loop os (Suc K) p = Some r"
      "loop_starts os (Suc K) p = ref_starts j (mach p) @ loop_starts os k p'"
      "loop_pcs os (Suc n) p = rv_pcs n None (mach p) @ loop_pcs os n p'"
      using h Inr step(1) by simp_all
    then have "ref_loop os (Suc K) p = Some r \<and> set (loop_starts os (Suc K) p) \<subseteq> set (loop_pcs os (Suc n) p)"
      using j(3) k(2) by (simp only: set_append) blast
    then show ?thesis by blast
  qed
qed simp

text \<open>A run of the reference machine from the state in which the loop starts is a run of \<open>cpu_loop\<close>.\<close>

definition loop_start :: "'w proc \<Rightarrow> 'w proc" where
  "loop_start p = set_env ((env (mach p))\<lparr>env_exception := EXCP_NONE\<rparr>) p"

lemma cpu_loop_rv:
  assumes "alloc_insn_buffer os p = (True, p')" and "cpu_ok (mach p')" and "rv_loop os n (loop_start p') = Some r"
  shows "\<exists>r'. cpu_loop os p = Some r' \<and>
    (r' = r \<or> fst r' = Segv Insn_buffer \<and> 65536 < card (set (loop_pcs os n (loop_start p'))))"
proof -
  let ?V = "set (loop_pcs os n (loop_start p'))"
  have "cpu_ok (mach (loop_start p'))" using assms(2) by (simp add: cpu_ok_def loop_start_def set_env_def)
  from rv_loop_ref [OF assms(3) this] obtain k where k: "ref_loop os k (loop_start p') = Some r"
    "set (loop_starts os k (loop_start p')) \<subseteq> ?V" by blast
  from run_loop_fits [OF empty_cache_inv k(1), of ?V] k(2) show ?thesis
    using assms(1) roomy_empty [of ?V] by (auto simp: cpu_loop_def loop_start_def not_le [symmetric])
qed

end
