(* ===== verification/Demo_Program.thy ===== *)
theory Demo_Program
  imports Decoder_Properties Demo_Host Rv64_Run
begin

text \<open>
  A three-instruction program, \<open>li a7, 93; li a0, 42; ecall\<close>, in read-only memory, and a host for it:
  the concrete machine on which the properties of the whole emulator are instantiated.  The facts
  are computed from the definitions.
\<close>

definition prog_bytes :: "u8 list" where
  "prog_bytes = [0x93, 0x08, 0xd0, 0x05, 0x13, 0x05, 0xa0, 0x02, 0x73, 0, 0, 0]"

definition prog_mem :: host_mem where
  "prog_mem = \<lparr>hbytes = \<lambda>a. if a - 0x1000 < 12 then prog_bytes ! unat (a - 0x1000) else 0,
     hread = \<lambda>_. True, hwrite = \<lambda>_. False\<rparr>"

definition prog :: machine where
  "prog = \<lparr>env = zero_env\<lparr>env_pc := 0x1000, env_exception := EXCP_NONE\<rparr>, mem = prog_mem, guest_base = 0\<rparr>"

text \<open>A host whose mappings succeed at the address asked for and whose files are empty.\<close>

definition demo_os :: "unit os" where
  "demo_os = \<lparr>os_mmap = \<lambda>w h a l p f fd off. (a, h, w), os_mprotect = \<lambda>w h a l p. (0, h, w),
    os_open_zero = \<lambda>w. (3, w), os_close = \<lambda>w fd. w, os_access = \<lambda>w h p md. (0, w),
    os_fstat = \<lambda>w fd. (- 1, demo_stat, w), os_write = \<lambda>w h fd p n. (n, w),
    os_read = \<lambda>w fd n. (Inr [], w), os_lseek_set = \<lambda>w fd off. (off, w), os_malloc = \<lambda>w n. (True, w),
    os_getcwd = \<lambda>w n. (Some [0x2f], w), os_open_read = \<lambda>w s. (3, w)\<rparr>"

definition demo_proc :: "unit proc" where
  "demo_proc = \<lparr>mach = prog, world = (), mmap_next_start = TASK_UNMAPPED_BASE, target_brk = 0,
     initial_target_brk = 0\<rparr>"

lemma prog_block:
  "block_at prog 0x1000 = Some ([zero_insn\<lparr>rd := 17, imm := 93, insn_handler := H_i Do_addi\<rparr>,
    zero_insn\<lparr>rd := 10, imm := 42, insn_handler := H_i Do_addi\<rparr>,
    zero_insn\<lparr>insn_pc := 0x1008, insn_handler := Do_ecall\<rparr>], (start_ctx 0x1008)\<lparr>tc_exit := True\<rparr>)"
  by code_simp

text \<open>The program stops at its \<open>ecall\<close> with the number of \<open>exit\<close> and the status in the registers.\<close>

lemma prog_runs:
  "\<exists>m. clean_exec 3 prog = Some (Inr m) \<and> env_exception (env m) = U_ECALL \<and> env_pc (env m) = 0x1008 \<and>
     gpr (env m) ! 17 = 93 \<and> gpr (env m) ! 10 = 42"
proof -
  have "case clean_exec 3 prog of Some (Inr m) \<Rightarrow> env_exception (env m) = U_ECALL \<and>
      env_pc (env m) = 0x1008 \<and> gpr (env m) ! 17 = 93 \<and> gpr (env m) ! 10 = 42 | _ \<Rightarrow> False"
    by code_simp
  then show ?thesis by (auto split: option.splits sum.splits)
qed

text \<open>
  A program with a loop, compressed and full instructions: \<open>li a0, 0; c.li a1, 2\<close>, then \<open>c.add a0, a1; c.addi a1, -1;
  c.bnez a1, -4\<close>, and \<open>li a7, 93; ecall\<close>.  It exits with 2 + 1.
\<close>

definition sum_bytes :: "u8 list" where
  "sum_bytes = [0x13, 0x05, 0, 0, 0x89, 0x45, 0x2e, 0x95, 0xfd, 0x15, 0xf5, 0xfd, 0x93, 0x08, 0xd0, 0x05, 0x73, 0, 0, 0]"

definition sum_prog :: machine where
  "sum_prog = prog\<lparr>mem := prog_mem\<lparr>hbytes := \<lambda>a. if a - 0x1000 < 20 then sum_bytes ! unat (a - 0x1000) else 0\<rparr>\<rparr>"

lemma sum_runs:
  "\<exists>m. rv_run 12 None sum_prog = Some (Inr m) \<and> env_exception (env m) = U_ECALL \<and> gpr (env m) ! 17 = 93 \<and> gpr (env m) ! 10 = 3"
proof -
  have "case rv_run 12 None sum_prog of Some (Inr m) \<Rightarrow> env_exception (env m) = U_ECALL \<and>
      gpr (env m) ! 17 = 93 \<and> gpr (env m) ! 10 = 3 | _ \<Rightarrow> False"
    by code_simp
  then show ?thesis by (auto split: option.splits sum.splits)
qed

lemma sum_covered: "covered 12 0 None sum_prog"
  by code_simp

text \<open>The program of \<open>Demo_Host\<close> on the reference machine.\<close>

lemma demo_decodes:
  "rv_decode 0x05d00893 = Rv_alu_imm Do_addi 17 0 93" "rv_decode 0x02a00513 = Rv_alu_imm Do_addi 10 0 42"
  "rv_decode 0x73 = Rv_ecall" "insn_len 0x05d00893 = 4" "insn_len 0x02a00513 = 4" "insn_len 0x73 = 4"
  "\<not> opcode_departs 0x05d00893" "\<not> opcode_departs 0x02a00513" "\<not> opcode_departs 0x73"
  by code_simp+

lemma demo_rv_loop:
  assumes "code_there (mem (mach p))" and "guest_base (mach p) = demo_gb" and "env_pc (env (mach p)) = 0x10078"
    and "env_exception (env (mach p)) = EXCP_NONE" and "length (gpr (env (mach p))) = 32"
  shows "rv_loop os 5 p = Some (Exited 42, world p)"
proof -
  define m1 where "m1 = retire 0x1007c 17 93 (mach p)"
  define m2 where "m2 = retire 0x10080 10 42 m1"
  define m3 where "m3 = raise_exc U_ECALL m2"
  note ms = m1_def m2_def m3_def retire_def raise_exc_def set_x_def set_reg_def set_pc_def
  have sel: "mem m1 = mem (mach p)" "mem m2 = mem (mach p)" "guest_base m1 = demo_gb" "guest_base m2 = demo_gb"
    "env_pc (env m1) = 0x1007c" "env_pc (env m2) = 0x10080" "env_exception (env m1) = EXCP_NONE"
    "env_exception (env m2) = EXCP_NONE"
    using assms by (simp_all add: ms)
  note op = demo_opcodes [OF assms(1)]
  have x: "xreg e 0 = 0" for e by (simp add: xreg_def)
  have exec: "rv_exec None 4 (Rv_alu_imm Do_addi 17 0 93) (mach p) = Inr m1" "rv_exec None 4 (Rv_alu_imm Do_addi 10 0 42) m1 = Inr m2"
    "rv_exec None 4 Rv_ecall m2 = Inr m3"
    using assms(3) sel(5) by (simp_all add: m1_def m2_def m3_def x)
  have dep: "\<not> departs None 0x05d00893 (mach p)" "\<not> departs None 0x02a00513 m1" "\<not> departs None 0x73 m2"
    by (simp_all add: departs_def demo_decodes zero_extended_i_def)
  have four: "(4 :: nat) = Suc (Suc (Suc (Suc 0)))" by simp
  have r: "rv_run 4 None (mach p) = Some (Inr m3)" "covered 4 0 None (mach p)"
    using op sel assms(2-4) exec
    unfolding four by (simp_all add: rv_step_def demo_decodes dep TRANS_MAX_def m3_def raise_exc_def)
  have regs: "gpr (env m3) ! 17 = 93" "gpr (env m3) ! 10 = 42" "env_exception (env m3) = U_ECALL"
    using assms(5) by (simp_all add: ms)
  have "handle_exception os (p\<lparr>mach := m3\<rparr>) = (Inl (Exited 42), p\<lparr>mach := m3\<rparr>)"
    using regs by (simp add: handle_exception_def do_syscall_def Let_def)
  with r have "rv_loop os (Suc 4) p = Some (Exited 42, world p)" unfolding rv_loop.simps by simp
  then show ?thesis by simp
qed

text \<open>A memory full of \<open>c.nop\<close>.\<close>

definition nop_sled :: machine where
  "nop_sled = prog\<lparr>mem := prog_mem\<lparr>hbytes := \<lambda>a. if even (uint a) then 1 else 0\<rparr>\<rparr>"

definition nop_insn :: insn_t where
  "nop_insn = zero_insn\<lparr>insn_handler := Do_empty\<rparr>"

lemma nop_decodes: "decode_one c zero_insn 0x00010001 = (c, nop_insn)" "insn_len 0x00010001 = 2"
  by code_simp+

lemma even_uint_add: "even (uint (a + of_nat k)) \<longleftrightarrow> even (uint a) = even k" for a :: u64
proof -
  have u: "even (uint w) \<longleftrightarrow> even (unat w)" for w :: u64 by (simp only: uint_nat even_of_nat)
  have "even (uint (a + of_nat k)) \<longleftrightarrow> even (unat (a + of_nat k))" by (rule u)
  also have "unat (a + of_nat k) = (unat a + k) mod 2 ^ 64"
    by (simp only: unat_word_ariths unat_of_nat take_bit_eq_mod mod_add_right_eq) simp
  also have "even ((unat a + k) mod 2 ^ 64) \<longleftrightarrow> even (unat a + k)"
    by (rule dvd_mod_iff) simp
  finally show ?thesis unfolding u by auto
qed

lemma nops_fetched:
  assumes "\<And>pc. even (uint pc) \<Longrightarrow> ld pc = Some 0x00010001" and "even (uint (tc_pc c))" and "\<not> tc_exit c" and "n < TRANS_MAX"
  shows "\<exists>c'. fetch_block ld c n = Some (replicate (TRANS_MAX - n) nop_insn, c')"
  using assms(2-4)
proof (induction "TRANS_MAX - n" arbitrary: c n)
  case (Suc k)
  have step: "ld (tc_pc c) = Some 0x00010001" using assms(1) Suc.prems(1) by blast
  show ?case
  proof (cases "TRANS_MAX \<le> n + 1")
    case True
    then have "TRANS_MAX - n = 1" using Suc.prems(3) by simp
    with True step Suc.prems(2) show ?thesis by (simp add: fetch_block.simps [of ld c] nop_decodes Let_def)
  next
    case False
    let ?c = "c\<lparr>tc_pc := tc_pc c + 2\<rparr>"
    have "even (uint (tc_pc ?c))" using even_uint_add [of "tc_pc c" 2] Suc.prems(1) by simp
    moreover have "k = TRANS_MAX - (n + 1)" using Suc.hyps(2) by simp
    ultimately obtain c' where "fetch_block ld ?c (n + 1) = Some (replicate (TRANS_MAX - (n + 1)) nop_insn, c')"
      using Suc.hyps(1) [of "n + 1" ?c] Suc.prems(2) False by auto
    moreover have "replicate (TRANS_MAX - n) nop_insn = nop_insn # replicate (TRANS_MAX - (n + 1)) nop_insn"
      using Suc.prems(3) by (metis Suc_diff_Suc Suc_eq_plus1 replicate_Suc)
    ultimately show ?thesis
      using False step Suc.prems(2) by (simp add: fetch_block.simps [of ld c] nop_decodes Let_def)
  qed
qed simp

lemma nop_sled_block:
  "\<exists>c. block_at nop_sled (env_pc (env nop_sled)) = Some (replicate TRANS_MAX nop_insn, c)"
proof -
  have "fixed_code (mem nop_sled) 0 pc = Some 0x00010001" if "even (uint pc)" for pc
    using that even_uint_add [of pc 1] even_uint_add [of pc 2] even_uint_add [of pc 3]
    by (simp add: fixed_code_def guest_code_def cpu_lduw_def host_load_def load_bytes_def g2h_def nop_sled_def
        prog_mem_def prog_def upt_rec)
  from nops_fetched [of "fixed_code (mem nop_sled) 0" "start_ctx 0x1000" 0, OF this] show ?thesis
    by (simp add: block_at_def nop_sled_def prog_def start_ctx_def TRANS_MAX_def)
qed

text \<open>A process with a pending \<open>ecall\<close>.\<close>

definition demo_ecall :: "u64 \<Rightarrow> u64 \<Rightarrow> u64 \<Rightarrow> u64 proc" where
  "demo_ecall w nr arg = (let p = initial_proc demo_mem w in
     p\<lparr>mach := (mach p)\<lparr>env := zero_env\<lparr>gpr := (replicate 32 0)[17 := nr, 10 := arg], env_exception := U_ECALL\<rparr>\<rparr>\<rparr>)"

end
