(* ===== verification/Isa_Properties.thy ===== *)
theory Isa_Properties
  imports Rv64_Departs Demo_Program
begin

text \<open>
  The properties that relate the program to the reference machine of \<open>Rv32_Spec\<close>, \<open>Rvc_Spec\<close> and \<open>Rv64_Arch\<close>: the decoder to the
  opcode tables, and the execution of one instruction to the semantics of the manual.
\<close>

section \<open>Decoding\<close>

text \<open>
  C26: For every 32-bit word, decoding gives the instruction of its row in the opcode table of RV64IMA and Zicsr:
  handler, registers and the immediate put together from the bits the format names; a word without a row is
  illegal, except that every SYSTEM instruction with function code 0 is taken for \<open>ecall\<close>.
\<close>

theorem full_table:
  "let i = snd (decode_insn32 c zero_insn op) in
   case rv32_lookup op of
     Some f \<Rightarrow> i = rv32_insn (tc_pc c) op f
   | None \<Rightarrow>
       if op AND 0x707f = 0x73 then i = rv32_insn (tc_pc c) op As_ecall
       else insn_handler i = Do_illegal \<and> insn_pc i = tc_pc c"
  using decode_insn32_rows [of c op] unfolding rv32_ok_def illegal_insn_def Let_def
  by (simp split: option.splits if_splits)

section \<open>Executing\<close>

text \<open>
  C3: Fetching, decoding and executing one instruction has exactly the outcome of the reference machine, which
  follows the manual for RV64IMAC and Zicsr in user mode: registers, memory, counter, exception and access
  fault.  The exceptions are the cases of \<open>departs\<close>, and there the outcome is always another one: a division the host cannot
  do; a 32-bit shift or unsigned division with bit 31 set; a faulting load to \<open>x0\<close>; \<open>jalr\<close> over its own link; a value other
  than zero written to \<open>x0\<close> by \<open>lui\<close>, \<open>auipc\<close> or an atomic instruction; a misaligned atomic instruction, which must raise
  an exception and is executed; a store-conditional without the reservation of its bytes, which must fail and stores; the CSR
  instructions, as RV64IMAC has no control register; \<open>ebreak\<close> in both forms; the SYSTEM instructions taken for \<open>ecall\<close>; the
  compressed hints; and \<open>c.addi16sp\<close> by zero, which is reserved.
\<close>

theorem step_follows_isa:
  assumes "length (gpr (env m)) = 32" and "gpr (env m) ! 0 = 0"
    and "fixed_code (mem m) (guest_base m) (env_pc (env m)) = Some op"
  shows "isa_step m = map_option fst (rv_step v m) \<longleftrightarrow> \<not> departs v op m"
  using assms step_arch_iff [of m op v] by (simp add: cpu_ok_def)

text \<open>Memory with one instruction at 0x1000; \<open>sc.w x5, x0, (x0)\<close> follows the manual after \<open>lr.w\<close> of the same word only.\<close>

definition one_insn :: "u8 list \<Rightarrow> machine" where
  "one_insn bs = prog\<lparr>mem := prog_mem\<lparr>hbytes := \<lambda>a. if a - 0x1000 < 4 then bs ! unat (a - 0x1000) else 0\<rparr>\<rparr>"

abbreviation (input) "sc_insn \<equiv> one_insn [0xaf, 0x22, 0, 0x18]"

theorem step_follows_isa_witness:
  "isa_step prog = map_option fst (rv_step None prog) \<and>
   isa_step (one_insn [0x37, 0x10, 0, 0]) \<noteq> map_option fst (rv_step None (one_insn [0x37, 0x10, 0, 0])) \<and>
   isa_step sc_insn \<noteq> map_option fst (rv_step None sc_insn) \<and>
   isa_step sc_insn = map_option fst (rv_step (Some (0, 4)) sc_insn)"
proof -
  have "fixed_code (mem prog) (guest_base prog) (env_pc (env prog)) = Some 0x05d00893" "\<not> departs None 0x05d00893 prog"
    by code_simp+
  moreover have "fixed_code (mem (one_insn [0x37, 0x10, 0, 0])) (guest_base (one_insn [0x37, 0x10, 0, 0]))
      (env_pc (env (one_insn [0x37, 0x10, 0, 0]))) = Some 0x1037" "departs None 0x1037 (one_insn [0x37, 0x10, 0, 0])"
    by code_simp+
  moreover have "fixed_code (mem sc_insn) (guest_base sc_insn) (env_pc (env sc_insn)) = Some 0x180022af"
    "departs None 0x180022af sc_insn" "\<not> departs (Some (0, 4)) 0x180022af sc_insn"
    by code_simp+
  moreover have "length (gpr (env prog)) = 32" "gpr (env prog) ! 0 = 0"
    "length (gpr (env (one_insn bs))) = 32" "gpr (env (one_insn bs)) ! 0 = 0" for bs
    by (simp_all add: one_insn_def prog_def zero_env_def)
  ultimately show ?thesis using step_follows_isa by blast
qed

end
