(* ===== verification/Pie_Load.thy ===== *)
theory Pie_Load
  imports Demo_Host
begin

text \<open>
  Position-independent executables whose lowest address is zero: their image is placed at \<open>mmap_next_start\<close>, but the
  heap is asked for up to the end of the image before it was moved, and no such mapping exists.
\<close>

section \<open>Mappings that are too long\<close>

text \<open>
  What the failure relies on, from the manual page of \<open>mmap\<close>: a mapping longer than the address space of a
  process, here \<open>2 ^ 47\<close> bytes, is refused.
\<close>

definition mmap_limited :: "'w os \<Rightarrow> bool" where
  "mmap_limited os \<longleftrightarrow> (\<forall>w h addr len prot flags fd offset.
     len > 2 ^ 47 \<longrightarrow> fst (os_mmap os w h addr len prot flags fd offset) = MAP_FAILED)"

lemma host_mmap_limited:
  assumes "mmap_limited os" and "len > 2 ^ 47"
  shows "fst (host_mmap os addr len prot flags fd off p) = MAP_FAILED"
proof -
  have "r = MAP_FAILED" if "os_mmap os w h addr len prot flags fd' off = (r, h', w')" for w h fd' r h' w'
    using assms(1) [unfolded mmap_limited_def, rule_format, OF assms(2), of w h addr prot flags fd' off] that by simp
  then show ?thesis
    by (auto simp: host_mmap_def Let_def split: prod.splits)
qed

lemma target_mmap_limited:
  assumes "mmap_limited os" and "flags AND MAP_FIXED = 0" and "HOST_PAGE_ALIGN len > 2 ^ 47"
  shows "fst (target_mmap os addr len prot flags fd off p) = - 1"
proof -
  have "fst (mmap_find_vma os addr len p) = - 1"
    using host_mmap_limited [OF assms(1,3)]
    by (auto simp: mmap_find_vma_def Let_def split: prod.splits) (metis fst_conv)+
  with assms(2) show ?thesis
    by (auto simp: target_mmap_def Let_def split: prod.splits)
qed

lemma scan_phdrs_bounds:
  assumes "scan_phdrs phs info = (lo, hi, info')" and "ph \<in> loadable phs" and "p_vaddr ph = p_offset ph"
    and "\<forall>ph\<in>loadable phs. 0 < unat (p_memsz ph) \<and> unat (p_vaddr ph) + unat (p_memsz ph) \<le> n" and "n < 2 ^ 64"
  shows "lo = 0" and "unat hi < n"
proof -
  note b = scan_fold_bounds [OF assms(1) [unfolded scan_phdrs_def]]
  with assms(2,3) have "lo \<le> 0" by (metis diff_self)
  then show "lo = 0" by simp
  have s: "unat (p_vaddr ph + p_memsz ph - 1) < n" if "ph \<in> loadable phs" for ph
  proof -
    note a = bspec [OF assms(4) that]
    with assms(5) have u: "unat (p_vaddr ph + p_memsz ph) = unat (p_vaddr ph) + unat (p_memsz ph)"
      by (intro unat_add_lem [THEN iffD1]) force
    with a have "1 \<le> p_vaddr ph + p_memsz ph" by (simp add: word_le_nat_alt)
    with u a show ?thesis by (auto simp: unat_minus)
  qed
  from assms(2,4) have "0 < n" by force
  with b s show "unat hi < n" by auto
qed

text \<open>The reservation of a file whose lowest address is zero is placed by the allocator.\<close>

lemma reserve_image_zero:
  assumes "mmap_fixed_addr os" and "e_type ehdr \<noteq> ET_EXEC" and "mmap_next_start p \<ge> TASK_UNMAPPED_BASE"
    and "scan_phdrs phs (info\<lparr>nsegs := 0, alignment := 0\<rparr>) = (0, hi0, info0)"
    and "reserve_image os ehdr phs info p = (Inr (hi, info'), p')"
  shows "load_bias info' = mmap_next_start p" and "hi = hi0 + 32 * 2 ^ 20"
proof -
  from assms(4,5) obtain addr where m: "target_mmap os 0 (hi + 1) PROT_NONE (image_flags ehdr) (- 1) 0 p = (addr, p')"
      "addr \<noteq> - 1" "hi = hi0 + 32 * 2 ^ 20" "load_bias info' = addr"
    unfolding reserve_image_def
    by (auto simp: Let_def then_do_Inr try_mmap_def split: prod.splits if_splits)
  with mmap_alloc_step [OF assms(1) _ assms(3) m(1,2)] image_flags_fixed assms(2)
  show "load_bias info' = mmap_next_start p" and "hi = hi0 + 32 * 2 ^ 20" by auto
qed

text \<open>The end of the heap is below the biased break, so that its length wraps around.\<close>

lemma heap_length_wraps:
  fixes hi brk :: u64
  assumes "unat hi < 2 ^ 37 + 2 ^ 25" and "2 ^ 38 \<le> unat brk" and "unat brk < 2 ^ 63"
  defines "a \<equiv> ROUND_UP brk 4096"
  shows "HOST_PAGE_ALIGN (hi - a + 1) > 2 ^ 47"
proof -
  have a: "unat brk \<le> unat a" "unat a < unat brk + 4096"
    using page_up(2,3) [of brk] assms(3) by (simp_all add: a_def)
  have eq: "hi + 1 - a = hi - a + 1" by simp
  have h: "unat (hi + 1) = unat hi + 1" using unat_plus [of hi 1] assms(1) by simp
  then have d: "unat (a - (hi + 1)) = unat a - unat hi - 1"
    using a assms(1,2) by (subst unat_minus) (simp_all add: word_le_nat_alt)
  have l: "unat (hi - a + 1) = 2 ^ 64 - (unat a - unat hi - 1)"
    using a assms(1,2) d unat_sub_if_size [of 0 "a - (hi + 1)"] eq by (simp add: word_size)
  have "unat (hi - a + 1) \<le> unat (ROUND_UP (hi - a + 1) 4096)"
    by (rule page_up(2)) (use l a assms in simp)
  with l a assms(3) show ?thesis by (simp add: HOST_PAGE_ALIGN_def HOST_PAGE_SIZE_def word_less_nat_alt)
qed

lemma map_heap_wraps:
  assumes "mmap_limited os" and "e_type ehdr \<noteq> ET_EXEC" and "unat hi < 2 ^ 37 + 2 ^ 25"
    and "2 ^ 38 \<le> unat (info_brk info)" and "unat (info_brk info) < 2 ^ 63"
  shows "fst (map_heap os ehdr hi info p) = Inl (Fail Sys_error)"
  using target_mmap_limited [OF assms(1) _ heap_length_wraps [OF assms(3-5)]] image_flags_fixed [of ehdr] assms(2)
  by (auto simp: map_heap_def try_mmap_def Let_def TARGET_PAGE_SIZE_def split: prod.splits) (metis fst_conv)+

lemma load_elf_phdrs_next:
  "load_elf_phdrs os ehdr fd p = Some (r, p') \<Longrightarrow> mmap_next_start p' = mmap_next_start p"
  by (auto simp: load_elf_phdrs_def Let_def split: if_splits prod.splits option.splits)

lemma pie_not_loaded:
  assumes "mmap_fixed_addr os" and "mmap_limited os"
    and "e_type (ehdr_of_bytes (bp_buf b)) \<noteq> ET_EXEC"
    and "load_elf_phdrs os (ehdr_of_bytes (bp_buf b)) (execfd b) p = Some (Inr phs, p0)"
    and "ph \<in> loadable phs" and "p_vaddr ph = p_offset ph"
    and "\<forall>ph\<in>loadable phs. 0 < unat (p_memsz ph) \<and> unat (p_vaddr ph) + unat (p_memsz ph) \<le> 2 ^ 37"
    and "mmap_next_start p \<ge> TASK_UNMAPPED_BASE" and "unat (mmap_next_start p) \<le> 2 ^ 62"
  shows "load_elf_binary os sz b info p \<noteq> Some (Inr (info', b'), p')"
proof
  let ?e = "ehdr_of_bytes (bp_buf b)"
  assume "load_elf_binary os sz b info p = Some (Inr (info', b'), p')"
  from load_elf_binary_Inr [OF this] assms(4) obtain hi info1 info2 a p1 p2 p3 where
    res: "reserve_image os ?e phs info p0 = (Inr (hi, info1), p1)"
    and seg: "load_segments os (execfd b) phs info1 p1 = (Inr info2, p2)"
    and heap: "map_heap os ?e hi info2 p2 = (Inr a, p3)" by (metis Pair_inject option.inject sum.inject(2))
  obtain lo hi0 info0 where s: "scan_phdrs phs (info\<lparr>nsegs := 0, alignment := 0\<rparr>) = (lo, hi0, info0)"
    by (metis prod.exhaust)
  note lohi = scan_phdrs_bounds [OF s assms(5-7)]
  have "lo = 0" and hi0: "unat hi0 < 2 ^ 37" using lohi by simp_all
  have n: "mmap_next_start p0 = mmap_next_start p" by (rule load_elf_phdrs_next [OF assms(4)])
  from reserve_image_zero [OF assms(1,3) _ s [unfolded \<open>lo = 0\<close>] res] assms(8) n
  have bias: "load_bias info1 = mmap_next_start p" and hi: "hi = hi0 + 32 * 2 ^ 20" by simp_all
  have hi_less: "unat hi < 2 ^ 37 + 2 ^ 25"
    using unat_plus [of hi0 "2 ^ 25"] hi0 hi by simp
  note brk = load_segments_bounds [OF seg]
  have e: "2 ^ 38 \<le> unat (load_bias info1 + p_vaddr q + p_memsz q) \<and>
      unat (load_bias info1 + p_vaddr q + p_memsz q) < 2 ^ 63" if "q \<in> loadable phs" for q
  proof -
    have "unat (mmap_next_start p + of_nat (unat (p_vaddr q) + unat (p_memsz q))) =
        unat (mmap_next_start p) + (unat (p_vaddr q) + unat (p_memsz q))"
      by (rule unat_plus) (use assms(7,9) that in force)
    then have "unat (mmap_next_start p + p_vaddr q + p_memsz q) =
        unat (mmap_next_start p) + (unat (p_vaddr q) + unat (p_memsz q))" by (simp add: add.assoc)
    moreover have "2 ^ 38 \<le> unat (mmap_next_start p)"
      using assms(8) by (simp add: TASK_UNMAPPED_BASE_def word_le_nat_alt)
    ultimately show ?thesis using bspec [OF assms(7) that] assms(9) by (simp add: bias)
  qed
  have "2 ^ 38 \<le> unat (info_brk info2)"
    using brk assms(5) e [OF assms(5)] by (meson order_trans word_le_nat_alt)
  moreover have "unat (info_brk info2) < 2 ^ 63" 
    using brk e reserve_image_Inr [OF res] by auto
  ultimately have "fst (map_heap os ?e hi info2 p2) = Inl (Fail Sys_error)"
    by (intro map_heap_wraps assms hi_less)
  with heap show False by simp
qed

section \<open>An example\<close>

text \<open>The program of \<open>Demo_Host\<close> linked at address zero, and a host that knows its limits.\<close>

definition pie_ehdr :: elf_ehdr_t where
  "pie_ehdr = demo_ehdr\<lparr>e_type := ET_DYN, e_entry := 0x78\<rparr>"

definition pie_phdr :: elf_phdr_t where
  "pie_phdr = demo_phdr\<lparr>p_vaddr := 0, p_paddr := 0\<rparr>"

definition pie_host :: "u64 os" where
  "pie_host = demo_host\<lparr>
     os_mmap := \<lambda>w h a l prot fl fd off. if l > 2 ^ 47 then (MAP_FAILED, h, w) else os_mmap demo_host w h a l prot fl fd off,
     os_read := \<lambda>w fd n. (Inr (take (unat n) (phdr_bytes pie_phdr)), w + n)\<rparr>"

definition pie_binprm :: linux_binprm where
  "pie_binprm = demo_binprm\<lparr>bp_buf := ehdr_bytes pie_ehdr\<rparr>"

lemma pie_sel [simp]:
  "os_read pie_host w fd n = (Inr (take (unat n) (phdr_bytes pie_phdr)), w + n)"
  "os_lseek_set pie_host w fd off = (off, off)" "os_malloc pie_host w n = (True, w)"
  "e_phnum pie_ehdr = 1" "e_phoff pie_ehdr = 64" "e_type pie_ehdr = ET_DYN"
  "length (phdr_bytes pie_phdr) = 56"
  by (simp_all add: pie_host_def pie_ehdr_def demo_ehdr_def phdr_bytes_def)

lemma pie_host_mmap: "mmap_fixed_addr pie_host" "mmap_limited pie_host"
  by (auto simp: mmap_fixed_addr_def mmap_limited_def pie_host_def split: if_splits)

lemma pie_ehdr_read: "ehdr_of_bytes (bp_buf pie_binprm) = pie_ehdr"
  using ehdr_of_bytes_inverse [of pie_ehdr "[]"] by (simp add: pie_binprm_def pie_ehdr_def demo_ehdr_def)

lemma pie_phdrs:
  "load_elf_phdrs pie_host pie_ehdr fd (demo_proc_at h n w) = Some (Inr [pie_phdr], demo_proc_at h n 0)"
proof -
  have r: "readn pie_host fd 56 v = Some (Inr (phdr_bytes pie_phdr), v + 56)" for v
    by (subst readn_step) (simp_all add: interrupted_def SIZEOF_PHDR_def)
  have "phdrs_of_bytes 1 (phdr_bytes pie_phdr) = [pie_phdr]"
    using phdrs_of_bytes_inverse [of "[pie_phdr]" "[]"] by simp
  moreover have "length (phdr_bytes pie_phdr) = 56" by (simp add: SIZEOF_PHDR_def)
  ultimately show ?thesis
    by (simp add: load_elf_phdrs_def SIZEOF_PHDR_def TARGET_ELF_MIN_ALIGN_def pread_def r Let_def)
qed

end
