(* ===== verification/Loader_Properties.thy ===== *)
theory Loader_Properties
  imports Pie_Load
begin

text \<open>
  The properties of everything before the CPU loop: reading, the file format, the mapping of the image, the initial
  stack, the command line, the path and \<open>main\<close>.  The witnesses use the host of \<open>Demo_Host\<close>.
\<close>

section \<open>Reading\<close>

text \<open>
  C39: A read that is interrupted \<open>k\<close> times returns, and what it returns is the next answer of the host; it is
  never an interruption.
\<close>

theorem reads_end:
  assumes "\<forall>j<k. interrupted os fd count (after_reads os fd count j w)"
    and "\<not> interrupted os fd count (after_reads os fd count k w)"
  shows "\<exists>r w'. readn os fd count w = Some (r, w') \<and> (r, w') = os_read os (after_reads os fd count k w) fd count \<and>
    r \<noteq> Inl EINTR \<and> r \<noteq> Inl EAGAIN"
proof -
  obtain r w' where r: "os_read os (after_reads os fd count k w) fd count = (r, w')" by fastforce
  with readn_retries [OF assms] have "readn os fd count w = Some (r, w')" by simp
  with r readn_not_interrupted [OF this] show ?thesis by (auto simp: retry_def split: sum.splits)
qed

theorem reads_end_witness:
  "\<exists>r w'. readn (demo_host\<lparr>os_read := \<lambda>w fd n. if w = 0 then (Inr [7], 0) else (Inl EINTR, w - 1)\<rparr>) 4 8 2 = Some (r, w') \<and>
    r = Inr [7]"
proof -
  let ?os = "demo_host\<lparr>os_read := \<lambda>w fd n. if w = 0 then (Inr [7], 0) else (Inl EINTR, w - 1)\<rparr>"
  have a: "after_reads ?os 4 8 0 2 = 2" "after_reads ?os 4 8 1 2 = 1" "after_reads ?os 4 8 2 2 = 0"
    by (simp_all add: numeral_2_eq_2)
  have "\<forall>j<2. interrupted ?os 4 8 (after_reads ?os 4 8 j 2)"
    using a by (auto simp: interrupted_def retry_def less_2_cases_iff)
  moreover have "\<not> interrupted ?os 4 8 (after_reads ?os 4 8 2 2)"
    using a by (simp add: interrupted_def)
  ultimately show ?thesis using reads_end [of 2 ?os 4 8 2] a(3) by simp
qed

section \<open>The file\<close>

text \<open>
  C33: A file whose first bytes are not the header of a 64-bit little-endian RISC-V executable, or that has
  no program header or more than 73, is refused before any memory is mapped or written.
\<close>

theorem bad_file_rejected:
  assumes "readn os fd (of_nat BINPRM_BUF_SIZE) (world p) = Some (Inr bs, w)"
    and "h = ehdr_of_bytes (bs @ replicate (BINPRM_BUF_SIZE - length bs) 0)"
    and "\<not> (e_ident h ! 0 = 0x7f \<and> e_ident h ! 1 = 0x45 \<and> e_ident h ! 2 = 0x4c \<and> e_ident h ! 3 = 0x46 \<and>
        e_ident h ! 4 = 2 \<and> e_ident h ! 5 = 1 \<and> e_ident h ! 6 = 1 \<and> e_type h \<in> {2, 3} \<and> e_machine h = 243 \<and>
        e_version h = 1 \<and> e_ehsize h = 64 \<and> e_phentsize h = 56 \<and> 0 < unat (e_phnum h) \<and> unat (e_phnum h) \<le> 73)"
  shows "\<exists>e. elf_load os sz fd name argv envp p = Some (Inl (Fail e), p\<lparr>world := w\<rparr>) \<and>
    e \<in> {Bad_ident, Bad_ehdr, Bad_phdrs_size}"
  using elf_load_bad_header [OF assms(1,2) [unfolded BINPRM_BUF_SIZE_def, simplified], of sz name argv envp] assms(3)
  unfolding riscv_header_def by blast

theorem bad_file_rejected_witness:
  "\<exists>e. elf_load (demo_host\<lparr>os_read := \<lambda>w fd n. (Inr [], w)\<rparr>) 4096 4 (bytes ''/p'') demo_args demo_envs
      (demo_proc_at demo_mem 0 0) = Some (Inl (Fail e), (demo_proc_at demo_mem 0 0)\<lparr>world := 0\<rparr>) \<and>
    e \<in> {Bad_ident, Bad_ehdr, Bad_phdrs_size}"
proof (rule bad_file_rejected [OF _ refl])
  show "readn (demo_host\<lparr>os_read := \<lambda>w fd n. (Inr [], w)\<rparr>) 4 (of_nat BINPRM_BUF_SIZE)
      (world (demo_proc_at demo_mem 0 0)) = Some (Inr [], 0)"
    by (subst readn_step) (simp add: interrupted_def)
qed (simp add: ehdr_of_bytes_def BINPRM_BUF_SIZE_def)

section \<open>The image\<close>

text \<open>
  C31: After loading, every \<open>PT_LOAD\<close> segment lies within the recorded bounds of the data and below the break, the
  break is the end of one of them, every segment is readable, the segments are counted, and a fixed
  executable is where it asked to be.
\<close>

theorem image_bounds:
  assumes "reserve_image os ehdr phs info0 p0 = (Inr (hi, info1), p1)"
    and "load_segments os fd phs info1 p1 = (Inr info, p)"
  shows "(\<forall>ph\<in>set phs. p_type ph = PT_LOAD \<longrightarrow>
      start_data info \<le> load_bias info + p_vaddr ph \<and> load_bias info + p_vaddr ph + p_filesz ph \<le> end_data info \<and>
      load_bias info + p_vaddr ph + p_memsz ph \<le> info_brk info \<and> p_flags ph AND (PF_R OR PF_X) \<noteq> 0) \<and>
    (info_brk info = 0 \<or> (\<exists>ph\<in>set phs. p_type ph = PT_LOAD \<and>
      info_brk info = load_bias info + p_vaddr ph + p_memsz ph)) \<and>
    nsegs info1 = of_nat (length (filter (\<lambda>ph. p_type ph = PT_LOAD) phs)) \<and>
    (e_type ehdr = ET_EXEC \<longrightarrow> load_bias info = 0)"
proof -
  from reserve_image_Inr [OF assms(1)] obtain lo hi0 info00 where
    s: "fold scan_phdr phs (- 1, 0, info0\<lparr>nsegs := 0, alignment := 0\<rparr>) = (lo, hi0, info00)"
    and r: "nsegs info1 = nsegs info00" "info_brk info1 = 0" "e_type ehdr = ET_EXEC \<longrightarrow> load_bias info1 = 0"
    by (auto simp: scan_phdrs_def)
  have "segment_prot fl AND PROT_READ \<noteq> 0 \<Longrightarrow> fl AND (PF_R OR PF_X) \<noteq> 0" for fl
    by (rule segment_readable)
  with load_segments_bounds [OF assms(2)] scan_fold_nsegs [OF s] r show ?thesis
    by (auto simp: loadable_def)
qed

theorem image_bounds_witness:
  "p_vaddr demo_phdr + p_memsz demo_phdr \<le> info_brk demo_info2 \<and> nsegs demo_info1 = 1 \<and> load_bias demo_info2 = 0"
  using image_bounds [OF demo_reserve [of TASK_UNMAPPED_BASE 0] demo_segments [of TASK_UNMAPPED_BASE 0]]
  by (auto simp: demo_phdr_def demo_ehdr_def)

text \<open>
  C34: A position-independent file that starts at address zero and is shorter than \<open>2 ^ 37\<close> bytes passes every check
  of its header, and then never loads: its image is placed at \<open>mmap_next_start\<close>, but the heap is requested from the
  moved break up to the end of the image before it was moved, a length that wraps around to almost \<open>2 ^ 64\<close>, and the host refuses it.
\<close>

theorem pie_never_loads:
  assumes "mmap_fixed_addr os" and "mmap_limited os"
    and "ehdr = ehdr_of_bytes (bp_buf b)" and "e_type ehdr = ET_DYN"
    and "load_elf_phdrs os ehdr (execfd b) p = Some (Inr phs, p0)"
    and "\<exists>ph\<in>loadable phs. p_vaddr ph = p_offset ph"
    and "\<forall>ph\<in>loadable phs. 0 < unat (p_memsz ph) \<and> unat (p_vaddr ph) + unat (p_memsz ph) \<le> 2 ^ 37"
    and "TASK_UNMAPPED_BASE \<le> mmap_next_start p" and "unat (mmap_next_start p) \<le> 2 ^ 62"
  shows "\<exists>f p'. load_elf_binary os sz b info p = Some (Inl f, p')"
proof -
  from assms(6) obtain ph where ph: "ph \<in> loadable phs" "p_vaddr ph = p_offset ph" by blast
  have "e_type ehdr \<noteq> ET_EXEC" using assms(4) by (simp add: ET_EXEC_def ET_DYN_def)
  with assms(3,5) have "load_elf_binary os sz b info p \<noteq> Some (Inr x, p')" for x p'
    using pie_not_loaded [OF assms(1,2) _ _ ph assms(7-9)] by (cases x) simp
  moreover have "load_elf_binary os sz b info p \<noteq> None"
    using assms(3,5) by (simp add: load_elf_binary_def Let_def split: option.split)
  then obtain r p' where "load_elf_binary os sz b info p = Some (r, p')" by auto
  ultimately show ?thesis by (cases r) auto
qed

theorem pie_never_loads_witness:
  "\<exists>f p'. load_elf_binary pie_host 8388608 pie_binprm zero_info
    (demo_proc_at demo_mem TASK_UNMAPPED_BASE 0) = Some (Inl f, p')"
  by (rule pie_never_loads [OF pie_host_mmap pie_ehdr_read [symmetric] _ pie_phdrs])
    (simp_all add: loadable_def pie_ehdr_def pie_phdr_def demo_phdr_def TASK_UNMAPPED_BASE_def)

text \<open>
  C11: With a host whose \<open>mmap\<close> shows the file, a loaded segment holds the bytes of the file up to \<open>p_filesz\<close> and
  zeros from there to \<open>p_memsz\<close>, wherever in a page it starts and ends.
\<close>

theorem segment_contents:
  assumes "maps_file os file" and "zero_device os file" and "take_bit 12 (guest_base (mach p)) = 0"
    and "map_segment os fd ph vaddr prot p = (Inr u, p')" and "\<not> fd <s 0" and "p_filesz ph \<noteq> 0"
    and "unat (g2h (guest_base (mach p)) vaddr) + unat (p_filesz ph) + 8192 \<le> 2 ^ 64"
    and "unat (g2h (guest_base (mach p)) vaddr) + unat (p_memsz ph) + 8192 \<le> 2 ^ 64"
  shows "(\<forall>k. k < unat (p_filesz ph) \<longrightarrow>
      host_byte p' (g2h (guest_base (mach p)) vaddr + of_nat k) = file fd (p_offset ph + of_nat k)) \<and>
    (\<forall>k. unat (p_filesz ph) \<le> k \<longrightarrow> k < unat (p_memsz ph) \<longrightarrow>
      host_byte p' (g2h (guest_base (mach p)) vaddr + of_nat k) = 0)"
  using map_segment_bytes [OF assms(1-6) refl assms(7,8)] by blast

theorem segment_contents_witness:
  "\<exists>p'. map_segment demo_host 4 (demo_phdr\<lparr>p_memsz := 5000\<rparr>) 0x10000 3 (demo_proc_at demo_mem 0 0) = (Inr (), p') \<and>
    host_byte p' (g2h demo_gb 0x10000 + of_nat 0) = 0x7f \<and> host_byte p' (g2h demo_gb 0x10000 + of_nat 4999) = 0"
proof -
  let ?ph = "demo_phdr\<lparr>p_memsz := 5000\<rparr>" and ?p = "demo_proc_at demo_mem 0 0"
  obtain p' where seg: "map_segment demo_host 4 ?ph 0x10000 3 ?p = (Inr (), p')"
    using demo_bss_segment by blast
  have b: "demo_bytes 4 0 = 0x7f"
    using demo_lengths by (simp add: demo_bytes_def demo_file_def ehdr_bytes_def demo_ehdr_def nth_append)
  have c: "(\<forall>k. k < unat (p_filesz ?ph) \<longrightarrow>
      host_byte p' (g2h (guest_base (mach ?p)) 0x10000 + of_nat k) = demo_bytes 4 (p_offset ?ph + of_nat k)) \<and>
    (\<forall>k. unat (p_filesz ?ph) \<le> k \<longrightarrow> k < unat (p_memsz ?ph) \<longrightarrow>
      host_byte p' (g2h (guest_base (mach ?p)) 0x10000 + of_nat k) = 0)"
    by (rule segment_contents [OF demo_maps_file demo_zero_device _ seg])
      (simp_all add: demo_phdr_def g2h_def word_sless_alt)
  then show ?thesis
    using seg c [THEN conjunct1, rule_format, of 0] c [THEN conjunct2, rule_format, of 4999] b
    by (simp add: demo_phdr_def)
qed

text \<open>
  C10: Given memory for the list of pointers and room below the top, the initial stack is built: its pointer is the stated
  multiple of 8 (but not always of 16); from it on lie the argument count, the pointer to the name of the program, those to the other arguments, a
  null, those to the environment and a null, and each points to its string with its final zero.  The 24 bytes of the
  auxiliary vector behind them stay as they were, so that it ends at once in memory that was zero.  Only writable bytes change.
\<close>

theorem initial_stack:
  assumes "os_malloc os (world p) (of_nat ((1 + bp_envc b + 1 + bp_argc b + 1) * 8)) = (True, w)"
    and "bp_argv b \<noteq> []" and "bp_argc b = length (bp_argv b)" and "bp_envc b = length (bp_envp b)"
    and "room p (bp_p b) (tables_size b)" and "tables_size b \<le> 2 ^ 64"
  shows "\<exists>sp p' f as es. create_elf_tables os b p = (Inr (b\<lparr>bp_p := sp\<rparr>), p') \<and> take_bit 3 sp = 0 \<and>
    sp = ROUND_DOWN (bp_p b - of_nat (strings_size b)) 8 - of_nat (8 * (bp_argc b + bp_envc b + 6)) \<and>
    (let a = sp + of_nat (8 * (bp_argc b + bp_envc b + 3)) in peek p' a 24 = peek p a 24) \<and>
    length as = length (tl (bp_argv b)) \<and> length es = length (bp_envp b) \<and>
    table_at p' sp (of_nat (bp_argc b) # f # as @ [0] @ es @ [0]) \<and> string_at p' f (bp_filename b) \<and>
    list_all2 (string_at p') as (tl (bp_argv b)) \<and> list_all2 (string_at p') es (bp_envp b) \<and>
    (\<forall>x. \<not> hwrite (mem (mach p)) x \<longrightarrow> hbytes (mem (mach p')) x = hbytes (mem (mach p)) x)"
proof -
  from create_elf_tables_ok [OF assms(1-5)] obtain sp p' where
    c: "create_elf_tables os b p = (Inr (b\<lparr>bp_p := sp\<rparr>), p')" "pushed (p\<lparr>world := w\<rparr>) p'" by blast
  note l = create_elf_tables_layout [OF c(1) assms(2-4,6)]
  from l(1) obtain f as es where "length as = length (tl (bp_argv b))" "length es = length (bp_envp b)"
    "table_at p' sp (of_nat (bp_argc b) # f # as @ [0] @ es @ [0])" "string_at p' f (bp_filename b)"
    "list_all2 (string_at p') as (tl (bp_argv b))" "list_all2 (string_at p') es (bp_envp b)" "take_bit 3 sp = 0"
    by auto
  with c l(2,3) show ?thesis
    by (intro exI [of _ sp] exI [of _ p'] exI [of _ f] exI [of _ as] exI [of _ es]) (simp add: pushed_def)
qed

theorem initial_stack_witness:
  "\<exists>sp p' f x e. create_elf_tables demo_host demo_binprm (demo_proc_at demo_mem4 0 0) =
      (Inr (demo_binprm\<lparr>bp_p := sp\<rparr>), p') \<and> take_bit 3 sp = 0 \<and>
    table_at p' sp [2, f, x, 0, e, 0] \<and> string_at p' x (bytes ''x'') \<and> string_at p' e (bytes ''A=1'')"
proof -
  have sel: "bp_argv demo_binprm = demo_args" "bp_envp demo_binprm = demo_envs" "bp_argc demo_binprm = 2"
      "bp_envc demo_binprm = 1" "tl demo_args = [bytes ''x'']" "demo_envs = [bytes ''A=1'']"
    by (simp_all add: demo_binprm_def demo_args_def demo_envs_def)
  have "\<exists>sp p' f as es. create_elf_tables demo_host demo_binprm (demo_proc_at demo_mem4 0 0) =
      (Inr (demo_binprm\<lparr>bp_p := sp\<rparr>), p') \<and> take_bit 3 sp = 0 \<and>
    sp = ROUND_DOWN (bp_p demo_binprm - of_nat (strings_size demo_binprm)) 8 -
      of_nat (8 * (bp_argc demo_binprm + bp_envc demo_binprm + 6)) \<and>
    (let a = sp + of_nat (8 * (bp_argc demo_binprm + bp_envc demo_binprm + 3))
     in peek p' a 24 = peek (demo_proc_at demo_mem4 0 0) a 24) \<and>
    length as = length (tl (bp_argv demo_binprm)) \<and> length es = length (bp_envp demo_binprm) \<and>
    table_at p' sp (of_nat (bp_argc demo_binprm) # f # as @ [0] @ es @ [0]) \<and>
    string_at p' f (bp_filename demo_binprm) \<and>
    list_all2 (string_at p') as (tl (bp_argv demo_binprm)) \<and> list_all2 (string_at p') es (bp_envp demo_binprm) \<and>
    (\<forall>x. \<not> hwrite (mem (mach (demo_proc_at demo_mem4 0 0))) x \<longrightarrow>
       hbytes (mem (mach p')) x = hbytes (mem (mach (demo_proc_at demo_mem4 0 0))) x)"
    by (rule initial_stack [OF demo_host_sel(7)])
      (simp_all add: sel demo_binprm_room demo_binprm_size, simp_all add: demo_args_def)
  then obtain sp p' f as es where t: "create_elf_tables demo_host demo_binprm (demo_proc_at demo_mem4 0 0) =
      (Inr (demo_binprm\<lparr>bp_p := sp\<rparr>), p')" "take_bit 3 sp = 0" "length as = 1" "length es = 1"
      "table_at p' sp (2 # f # as @ [0] @ es @ [0])" "list_all2 (string_at p') as [bytes ''x'']"
      "list_all2 (string_at p') es [bytes ''A=1'']"
    unfolding sel by auto
  obtain x where "as = [x]" using t(3) by (auto simp: length_Suc_conv)
  moreover obtain e where "es = [e]" using t(4) by (auto simp: length_Suc_conv)
  ultimately show ?thesis using t by auto
qed

text \<open>
  C9: Whatever \<open>elf_load\<close> accepts, it starts as the file says.  The file header is in the first 256 bytes read and passes the
  checks, and the program headers are the bytes at its \<open>e_phoff\<close>; the program starts at the entry point of this header moved by
  the bias, which is zero for a fixed executable; the break is the highest end of the \<open>PT_LOAD\<close> segments of these
  program headers; a finished initial stack lies under the stack pointer; and loading leaves the CPU state and the window of guest
  memory alone.
\<close>

theorem program_start:
  assumes "elf_load os sz fd name argv envp p = Some (Inr (info, regs), p')" and "argv \<noteq> []"
    and "stack_use name argv envp \<le> 2 ^ 64"
  shows "\<exists>bs w ehdr w1 hs w2 phs.
    readn os fd 256 (world p) = Some (Inr bs, w) \<and> ehdr = ehdr_of_bytes (bs @ replicate (256 - length bs) 0) \<and>
    elf_check_ehdr ehdr = None \<and> os_malloc os w (of_nat (unat (e_phnum ehdr) * 56)) = (True, w1) \<and>
    pread os fd (of_nat (unat (e_phnum ehdr) * 56)) (e_phoff ehdr) w1 = Some (Some hs, w2) \<and>
    length hs = unat (e_phnum ehdr) * 56 \<and> phs = phdrs_of_bytes (unat (e_phnum ehdr)) hs \<and>
    regs_sepc regs = e_entry ehdr + load_bias info \<and> (e_type ehdr = ET_EXEC \<longrightarrow> load_bias info = 0) \<and>
    (\<forall>ph\<in>set phs. p_type ph = PT_LOAD \<longrightarrow> load_bias info + p_vaddr ph + p_memsz ph \<le> info_brk info) \<and>
    (info_brk info = 0 \<or> (\<exists>ph\<in>set phs. p_type ph = PT_LOAD \<and>
      info_brk info = load_bias info + p_vaddr ph + p_memsz ph)) \<and>
    starts_with p' (regs_sp regs) name argv envp \<and>
    env (mach p') = env (mach p) \<and> guest_base (mach p') = guest_base (mach p)"
proof -
  have l: "(\<forall>ph\<in>set phs. p_type ph = PT_LOAD \<longrightarrow> P ph) \<longleftrightarrow> (\<forall>ph\<in>loadable phs. P ph)"
    "(\<exists>ph\<in>set phs. p_type ph = PT_LOAD \<and> P ph) \<longleftrightarrow> (\<exists>ph\<in>loadable phs. P ph)" for phs P
    by (auto simp: loadable_def)
  from elf_load_Inr [OF assms] show ?thesis unfolding l same_cpu_def by metis
qed

theorem program_start_witness:
  "\<exists>info regs p. elf_load demo_host (8 * 2 ^ 20) 4 (bytes ''/p'') demo_args demo_envs
      (demo_proc_at demo_mem TASK_UNMAPPED_BASE 0) = Some (Inr (info, regs), p) \<and>
    regs_sepc regs = 0x10078 \<and> starts_with p (regs_sp regs) (bytes ''/p'') demo_args demo_envs"
proof -
  obtain info regs p where l: "elf_load demo_host (8 * 2 ^ 20) 4 (bytes ''/p'') demo_args demo_envs
      (demo_proc_at demo_mem TASK_UNMAPPED_BASE 0) = Some (Inr (info, regs), p)"
    by (rule demo_load)
  have "stack_use (bytes ''/p'') demo_args demo_envs \<le> 2 ^ 64" "demo_args \<noteq> []"
    by (simp_all add: stack_use_def demo_args_def demo_envs_def bytes_def)
  with program_start [OF l] have "\<exists>bs w ehdr. readn demo_host 4 256 0 = Some (Inr bs, w) \<and>
      ehdr = ehdr_of_bytes (bs @ replicate (256 - length bs) 0) \<and>
      regs_sepc regs = e_entry ehdr + load_bias info \<and> (e_type ehdr = ET_EXEC \<longrightarrow> load_bias info = 0)"
    and st: "starts_with p (regs_sp regs) (bytes ''/p'') demo_args demo_envs"
    by auto
  then have "regs_sepc regs = e_entry demo_ehdr + load_bias info \<and> (e_type demo_ehdr = ET_EXEC \<longrightarrow> load_bias info = 0)"
    using demo_lengths(1) demo_ehdr_read by (auto simp: demo_readn)
  then have "regs_sepc regs = 0x10078" by (simp add: demo_ehdr_def)
  with l st show ?thesis by blast
qed

section \<open>The command line\<close>

text \<open>
  C35: A command line written from choices of options, with numbers in decimal, octal or hexadecimal, a program
  and its arguments, is taken apart into exactly these: the last value given for an option counts,
  the guest gets the program and its arguments, and the environment behind them.
\<close>

theorem options_round_trip:
  assumes "prog = [] \<or> hd prog \<noteq> 0x2d"
  shows "\<exists>argv envp. parse_options (map Some (concat (map choice_words cs)) @ map Some (prog # args) @
      None # map Some envs @ [None]) st = Inr (fold apply_choice cs st, prog, argv, envp) \<and>
    strings argv = prog # args \<and> strings envp = envs"
  using parse_choices [OF assms, of cs args "map Some envs @ [None]" st]
    strings_map [of "prog # args" "map Some envs @ [None]"] strings_map [of envs "[]"]
  by auto

theorem options_round_trip_witness:
  "\<exists>argv envp. parse_options (map Some (concat (map choice_words [(True, Stack 16 0x10000), (False, Debug)])) @
      map Some (bytes ''prog'' # []) @ None # map Some [] @ [None]) default_settings =
    Inr (fold apply_choice [(True, Stack 16 0x10000), (False, Debug)] default_settings, bytes ''prog'', argv, envp) \<and>
    strings argv = [bytes ''prog''] \<and> strings envp = []"
  by (rule options_round_trip) (simp add: bytes_def)

text \<open>
  C36: After any options, a missing program and an unknown option are errors, \<open>-h\<close> ends with status 0; but the message for an
  unknown option of 239 bytes or more overruns its array, and an option without its number hands a null pointer
  to \<open>strtoul\<close>.
\<close>

theorem option_errors:
  assumes "opt \<noteq> []" and "hd opt = 0x2d" and "find_option opt = None"
  shows "parse_options (map Some (concat (map choice_words cs)) @ None # rest) st = Inl (Fail No_program) \<and>
   parse_options (map Some (concat (map choice_words cs)) @ Some (bytes ''-h'') # rest) st = Inl (Fault (Exited 0)) \<and>
   parse_options (map Some (concat (map choice_words cs)) @ Some (bytes ''-B'') # None # rest) st = Inl Undefined \<and>
   parse_options (map Some (concat (map choice_words cs)) @ Some (bytes ''-s'') # None # rest) st = Inl Undefined \<and>
   parse_options (map Some (concat (map choice_words cs)) @ Some opt # rest) st =
     Inl (if length opt < 239 then Fail (Invalid_option (bytes ''Invalid option: '' @ opt @ bytes ''.'')) else Undefined)"
proof -
  have h: "bytes (CHR ''-'' # r) \<noteq> []" "hd (bytes (CHR ''-'' # r)) = 0x2d" for r by (simp_all add: bytes_def)
  have l: "length (bytes ''Invalid option: '') = 16" "length (bytes ''.'') = 1" by (simp_all add: bytes_def)
  show ?thesis
    using assms by (simp add: parse_options_def scan_choices h find_option_simps opt_table_def run_option_def
        handle_help_def handle_guest_base_def handle_guest_stack_def strdupf_def l)
qed

theorem option_errors_witness:
  "parse_options (map Some (concat (map choice_words [(False, Debug)])) @ Some (bytes ''-x'') # [None]) default_settings =
     Inl (Fail (Invalid_option (bytes ''Invalid option: '' @ bytes ''-x'' @ bytes ''.'')))"
proof -
  have "bytes ''-x'' \<noteq> []" "hd (bytes ''-x'') = 0x2d" "find_option (bytes ''-x'') = None" "length (bytes ''-x'') < 239"
    by (simp_all add: bytes_def find_option_def opt_table_def)
  with option_errors [of "bytes ''-x''" "[(False, Debug)]" "[None]" default_settings] show ?thesis by simp
qed

section \<open>The path\<close>

text \<open>
  C37: In an array without slashes that ends with a zero, the path becomes the root or the current directory with the names
  entered one by one: empty names and \<open>.\<close> stay, \<open>..\<close> goes up, the root is its own parent.
\<close>

theorem real_path_names:
  assumes "0x2f \<notin> set buf" and "last buf = 0" and "\<forall>c\<in>set cwd. plain_name c" and "cwd \<noteq> []"
    and "os_getcwd os w (of_nat PATH_MAX) = (Some (path_text cwd), w')" and "0 \<notin> set path"
    and "absolute \<longleftrightarrow> path \<noteq> [] \<and> hd path = 0x2f"
    and "length (if absolute then [] else path_text cwd) + length path + 1 < length buf"
  shows "\<exists>buf'. get_real_path os (Some path) (Some buf) any w = (Inr buf', if absolute then w else w') \<and>
    c_string buf' = Inr (shown (fold enter (pieces path) (if absolute then [] else cwd)))"
  by (rule get_real_path_names [OF assms])

theorem real_path_names_witness:
  "\<exists>buf'. get_real_path demo_host (Some (bytes ''/a/./b//../c'')) (Some (replicate 32 0)) [] 0 = (Inr buf', 0) \<and>
    c_string buf' = Inr (bytes ''/a/c'')"
proof -
  have cwd: "os_getcwd demo_host 0 (of_nat PATH_MAX) = (Some (path_text [[]]), 0)" by simp
  have "\<exists>buf'. get_real_path demo_host (Some (bytes ''/a/./b//../c'')) (Some (replicate 32 0)) [] 0 =
      (Inr buf', if True then 0 else 0) \<and>
    c_string buf' = Inr (shown (fold enter (pieces (bytes ''/a/./b//../c'')) (if True then [] else [[]])))"
    by (rule real_path_names [OF _ _ _ _ cwd]) (simp_all add: bytes_def plain_name_def)
  moreover have "shown (fold enter (pieces (bytes ''/a/./b//../c'')) []) = bytes ''/a/c''"
    by (simp add: bytes_def enter_def shown_def)
  ultimately show ?thesis by simp
qed

text \<open>
  C38: The array is not cleared, and the search for the last slash runs on into what it held before: with a slash
  there, \<open>/a/..\<close> is resolved to \<open>/a\<close> and not to the root.
\<close>

theorem real_path_stale:
  assumes "0x2f \<notin> set junk" and "0 \<in> set junk"
  shows "\<exists>buf'. get_real_path os (Some (bytes ''/a/..'')) (Some (x # y # 0x2f # junk)) any w = (Inr buf', w) \<and>
    c_string buf' = Inr (bytes ''/a'') \<and>
    shown (fold enter (pieces (bytes ''/a/..'')) []) = bytes ''/''"
proof -
  have "shown (fold enter (pieces (bytes ''/a/..'')) []) = bytes ''/''"
    by (simp add: bytes_def enter_def shown_def)
  with get_real_path_stale [OF assms, of os x y any w] show ?thesis by simp
qed

theorem real_path_stale_witness:
  "\<exists>buf'. get_real_path demo_host (Some (bytes ''/a/..'')) (Some (7 # 7 # 0x2f # [7, 0, 0])) [] 0 = (Inr buf', 0) \<and>
    c_string buf' = Inr (bytes ''/a'')"
proof -
  have "0x2f \<notin> set [7, 0, 0 :: u8]" "0 \<in> set [7, 0, 0 :: u8]" by simp_all
  from real_path_stale [OF this, of demo_host 7 7 "[]" 0] show ?thesis by blast
qed

section \<open>\<open>main\<close>\<close>

text \<open>
  C8: For a well-formed command line whose path fits into the array, and an array that holds no slash and ends in a
  zero before it is used, \<open>main\<close> opens the resolved path; when the file cannot be opened, or its first bytes are not the
  header of a 64-bit little-endian RISC-V executable with between 1 and 73 program headers, the emulator exits with
  status 1 and has done nothing to the world but these calls.
\<close>

theorem main_bad_file:
  assumes "prog = [] \<or> hd prog \<noteq> 0x2d" and "0 \<notin> set prog" and "0x2f \<notin> set buf" and "last buf = 0"
    and "\<forall>c\<in>set cwd. plain_name c" and "cwd \<noteq> []"
    and "os_getcwd os w (of_nat PATH_MAX) = (Some (path_text cwd), w')"
    and "length (path_text cwd) + length prog + 1 < length buf"
    and "absolute \<longleftrightarrow> prog \<noteq> [] \<and> hd prog = 0x2f"
    and "path = shown (fold enter (pieces prog) (if absolute then [] else cwd))"
    and "os_open_read os (if absolute then w else w') path = (fd, w2)"
    and "if fd <s 0 then w3 = w2 else readn os fd 256 w2 = Some (Inr bs, w3) \<and>
      \<not> riscv_header (ehdr_of_bytes (bs @ replicate (256 - length bs) 0))"
  shows "run_main os (map Some (concat (map choice_words cs)) @ Some prog # map Some args @ None # map Some envs @ [None])
      buf h w = Some (Fault (Exited 1), w3)"
proof (cases "fd <s 0")
  case True
  with assms(12) show ?thesis unfolding run_main_choices [OF assms(1-11) refl] by simp
next
  case False
  let ?st = "fold apply_choice cs default_settings"
  let ?p = "(initial_proc h w2)\<lparr>mach := (mach (initial_proc h w2))\<lparr>guest_base := opt_guest_base ?st\<rparr>\<rparr>"
  have "readn os fd 256 (world ?p) = Some (Inr bs, w3)"
    using assms(12) False by (simp add: initial_proc_def)
  then obtain e where "elf_load os (guest_stack_size ?st) fd path (prog # args) envs ?p =
      Some (Inl (Fail e), ?p\<lparr>world := w3\<rparr>)"
    by (rule elf_load_bad_header [OF _ refl]) (use assms(12) False in auto)
  with False show ?thesis unfolding run_main_choices [OF assms(1-11) refl] by (simp add: give_up_def)
qed

theorem main_bad_file_witness:
  "run_main (demo_host\<lparr>os_read := \<lambda>w fd n. (Inr [0x7f, 0x45], w)\<rparr>) demo_opts (replicate 64 0) demo_mem 0 =
    Some (Fault (Exited 1), 0)"
proof -
  let ?os = "demo_host\<lparr>os_read := \<lambda>w fd n. (Inr [0x7f, 0x45], w)\<rparr>"
  have host: "os_getcwd ?os 0 (of_nat PATH_MAX) = (Some (path_text [[]]), 0)"
    "os_open_read ?os (if True then 0 else 0) (bytes ''/p'') = (4, 0)"
    by simp_all
  have "readn ?os 4 256 0 = Some (Inr [0x7f, 0x45], 0)"
    by (subst readn_step) (simp add: interrupted_def)
  then have "if (4 :: c_int) <s 0 then (0 :: u64) = 0 else readn ?os 4 256 0 = Some (Inr [0x7f, 0x45], 0) \<and>
      \<not> riscv_header (ehdr_of_bytes ([0x7f, 0x45] @ replicate (256 - length [0x7f, 0x45]) 0))"
    by (simp add: riscv_header_def ehdr_of_bytes_def)
  from main_bad_file [OF demo_command(1-6) host(1) demo_command(8-10) host(2) this, of "[]" "[bytes ''x'']" demo_envs demo_mem]
  show ?thesis unfolding demo_initial by simp
qed

end
