(* ===== verification/Machine_Steps.thy ===== *)
theory Machine_Steps
  imports Cpu_Loop
begin

text \<open>
  The emulated process as a transition system: a step runs one block or serves one exception.  What holds in
  every reachable state, and the blocks the emulator never gets past.
\<close>

section \<open>Steps\<close>

inductive guest_step :: "'w os \<Rightarrow> 'w proc \<Rightarrow> 'w proc \<Rightarrow> bool" for os where
  run_block: "env_exception (env (mach p)) = EXCP_NONE \<Longrightarrow>
    block_at (mach p) (env_pc (env (mach p))) = Some (is, c) \<Longrightarrow> exec_list is (mach p) = Inr m \<Longrightarrow>
    guest_step os p (p\<lparr>mach := m\<rparr>)"
| serve: "env_exception (env (mach p)) \<noteq> EXCP_NONE \<Longrightarrow> handle_exception os p = (Inr (), p') \<Longrightarrow>
    guest_step os p p'"

inductive_cases guest_stepE: "guest_step os p p'"

lemma guest_step_deterministic: "guest_step os p q \<Longrightarrow> guest_step os p q' \<Longrightarrow> q' = q"
  by (elim guest_stepE) auto

definition guest_ok :: "'w proc \<Rightarrow> 'w proc \<Rightarrow> bool" where
  "guest_ok p0 p \<longleftrightarrow> length (gpr (env (mach p))) = 32 \<and> gpr (env (mach p)) ! 0 = 0 \<and>
     env_exception (env (mach p)) \<in> {EXCP_NONE, U_ECALL, ILLEGAL_INST} \<and>
     guest_base (mach p) = guest_base (mach p0) \<and> initial_target_brk p = initial_target_brk p0 \<and>
     initial_target_brk p \<le> target_brk p"

lemma run_insn_exception_cases:
  assumes "run_insn i m = Inr m'"
  shows "env_exception (env m') = env_exception (env m) \<or> env_exception (env m') \<in> {U_ECALL, ILLEGAL_INST}"
proof (cases "insn_raises i")
  case True
  with assms show ?thesis
    by (cases "insn_handler i")
      (auto simp: insn_raises_def run_insn_def on_env_def do_illegal_def do_ecall_def run_csr_unknown)
next
  case False
  with assms show ?thesis
    using run_insn_straight run_insn_jump_exception by metis
qed

lemma exec_list_ok:
  assumes "exec_list is m = Inr m'" and "gpr (env m) ! 0 = 0"
    and "env_exception (env m) \<in> {EXCP_NONE, U_ECALL, ILLEGAL_INST}"
  shows "gpr (env m') ! 0 = 0 \<and> env_exception (env m') \<in> {EXCP_NONE, U_ECALL, ILLEGAL_INST}"
  using assms
proof (induction "is" arbitrary: m)
  case (Cons i "is")
  then obtain m1 where r: "run_insn i m = Inr m1" "gpr (env m1) ! 0 = 0" "exec_list is m1 = Inr m'"
    by (auto simp: bind_result_Inr split: if_splits)
  with run_insn_exception_cases [OF r(1)] Cons.prems(3)
  have "env_exception (env m1) \<in> {EXCP_NONE, U_ECALL, ILLEGAL_INST}" by auto
  with Cons.IH r show ?case by blast
qed simp

lemma do_syscall_brk:
  assumes "do_syscall os nr a1 a2 a3 a4 a5 a6 p = (r, p')" and "initial_target_brk p \<le> target_brk p"
  shows "initial_target_brk p \<le> target_brk p'"
  using assms
  by (auto simp: do_syscall_def Let_def target_memory_copy_def bind_result_Inr do_brk_def
      split: if_splits prod.splits sum.splits dest: target_mmap_frame)

lemma guest_step_ok:
  assumes "guest_step os p p'" and "guest_ok p0 p"
  shows "guest_ok p0 p'"
  using assms(1)
proof (cases rule: guest_step.cases)
  case (run_block "is" c m)
  with assms(2) exec_list_frame [of "is" "mach p" m] exec_list_ok [of "is" "mach p" m] show ?thesis
    by (auto simp: guest_ok_def machine_frame_def)
next
  case serve
  then obtain ret p1 where s: "do_syscall os (ucast (gpr (env (mach p)) ! xA7)) (gpr (env (mach p)) ! xA0)
      (gpr (env (mach p)) ! xA1) (gpr (env (mach p)) ! xA2) (gpr (env (mach p)) ! xA3) (gpr (env (mach p)) ! xA4)
      (gpr (env (mach p)) ! xA5) p = (Inr ret, p1)"
    and p': "p' = set_env ((env (mach p1))\<lparr>env_pc := env_pc (env (mach p1)) + 4,
      gpr := (gpr (env (mach p1)))[xA0 := ret], env_exception := EXCP_NONE\<rparr>) p1"
    by (auto simp: handle_exception_def Let_def split: excp.splits prod.splits sum.splits)
  from do_syscall_frame [OF s] do_syscall_brk [OF s] assms(2) show ?thesis
    by (auto simp: p' guest_ok_def set_env_def)
qed

lemma reachable_ok:
  assumes "(guest_step os)\<^sup>*\<^sup>* p0 p" and "guest_ok p0 p0"
  shows "guest_ok p0 p"
  using assms by (induction rule: rtranclp_induct) (auto intro: guest_step_ok)

text \<open>How a run ends: a block or a call of a reachable state stops the process.\<close>

definition stops :: "'w os \<Rightarrow> 'w proc \<Rightarrow> stop \<Rightarrow> 'w \<Rightarrow> bool" where
  "stops os p s w \<longleftrightarrow> (if env_exception (env (mach p)) = EXCP_NONE
     then w = world p \<and> (\<exists>is c. block_at (mach p) (env_pc (env (mach p))) = Some (is, c) \<and> exec_list is (mach p) = Inl s)
     else \<exists>p'. handle_exception os p = (Inl s, p') \<and> w = world p')"

lemma ref_exec_reaches:
  assumes "ref_exec n m = Some r" and "mach p = m"
  shows "case r of
    Inl s \<Rightarrow> \<exists>q. (guest_step os)\<^sup>*\<^sup>* p q \<and> world q = world p \<and> stops os q s (world p)
  | Inr m' \<Rightarrow> (guest_step os)\<^sup>*\<^sup>* p (p\<lparr>mach := m'\<rparr>) \<and> env_exception (env m') \<noteq> EXCP_NONE"
  using assms
proof (induction n arbitrary: m p)
  case (Suc n)
  show ?case
  proof (cases "env_exception (env m) = EXCP_NONE")
    case False
    with Suc.prems show ?thesis by auto
  next
    case True
    with Suc.prems(1) obtain "is" c where b: "block_at m (env_pc (env m)) = Some (is, c)"
      by (auto split: option.splits)
    show ?thesis
    proof (cases "exec_list is m")
      case (Inl e)
      with True b Suc.prems have "r = Inl e" "stops os p e (world p)" by (auto simp: stops_def)
      then show ?thesis by auto
    next
      case (Inr m1)
      with True b Suc.prems have "ref_exec n m1 = Some r" by simp
      from Suc.IH [OF this, of "p\<lparr>mach := m1\<rparr>"] have ih: "case r of
          Inl s \<Rightarrow> \<exists>q. (guest_step os)\<^sup>*\<^sup>* (p\<lparr>mach := m1\<rparr>) q \<and> world q = world p \<and> stops os q s (world p)
        | Inr m' \<Rightarrow> (guest_step os)\<^sup>*\<^sup>* (p\<lparr>mach := m1\<rparr>) (p\<lparr>mach := m'\<rparr>) \<and> env_exception (env m') \<noteq> EXCP_NONE"
        by (simp cong: sum.case_cong)
      have "guest_step os p (p\<lparr>mach := m1\<rparr>)"
        using True b Inr Suc.prems(2) by (auto intro: run_block)
      with ih show ?thesis
        by (auto split: sum.splits intro: converse_rtranclp_into_rtranclp)
    qed
  qed
qed simp

lemma ref_loop_reaches:
  assumes "ref_loop os n p = Some (s, w)"
  shows "\<exists>q. (guest_step os)\<^sup>*\<^sup>* p q \<and> stops os q s w"
  using assms
proof (induction n arbitrary: p)
  case (Suc n)
  then obtain r where r: "ref_exec n (mach p) = Some r" by (auto split: option.splits)
  note reach = ref_exec_reaches [OF r refl, of os]
  show ?case
  proof (cases r)
    case (Inl e)
    with Suc.prems r have "s = e" "w = world p" by simp_all
    with Inl reach show ?thesis by auto
  next
    case (Inr m)
    let ?q = "p\<lparr>mach := m\<rparr>"
    from Inr reach have q: "(guest_step os)\<^sup>*\<^sup>* p ?q" "env_exception (env (mach ?q)) \<noteq> EXCP_NONE" by auto
    obtain h p' where h: "handle_exception os ?q = (h, p')" by fastforce
    show ?thesis
    proof (cases h)
      case (Inl e)
      with Suc.prems r Inr h have "s = e" "w = world p'" by simp_all
      with Inl h q show ?thesis by (intro exI [of _ ?q]) (simp add: stops_def)
    next
      case (Inr u)
      with Suc.prems r \<open>r = Inr m\<close> h have "ref_loop os n p' = Some (s, w)" by (auto split: if_splits)
      with Suc.IH obtain q' where "(guest_step os)\<^sup>*\<^sup>* p' q'" "stops os q' s w" by blast
      moreover have "guest_step os ?q p'" using q(2) h Inr by (auto intro: serve)
      ultimately show ?thesis using q(1) by (meson converse_rtranclp_into_rtranclp rtranclp_trans)
    qed
  qed
qed simp

section \<open>A block that was cut\<close>

text \<open>
  The machine is about to run a block of \<open>TRANS_MAX\<close> instructions none of which ends it or raises an
  exception.
\<close>

definition at_cut_block :: "machine \<Rightarrow> bool" where
  "at_cut_block m \<longleftrightarrow> env_exception (env m) = EXCP_NONE \<and>
     (\<exists>is c. block_at m (env_pc (env m)) = Some (is, c) \<and> straight (last is) \<and> (\<forall>i\<in>set is. \<not> insn_raises i))"

lemma cut_block_stays:
  assumes "at_cut_block m" and "block_at m (env_pc (env m)) = Some (is, c)" and "exec_list is m = Inr m'"
  shows "at_cut_block m' \<and> env_pc (env m') = env_pc (env m) \<and> machine_frame m m'"
proof -
  have q: "\<forall>i\<in>set is. \<not> insn_raises i" and l: "straight (last is)" and e: "env_exception (env m) = EXCP_NONE"
    using assms(1,2) by (auto simp: at_cut_block_def)
  have shape: "is \<noteq> [] \<and> (\<forall>i\<in>set (butlast is). straight i)"
    using fetch_block_shape assms(2) unfolding block_at_def by (auto simp: start_ctx_def)
  note frame = exec_list_frame [OF assms(3)]
  obtain m1 where m1: "run_insn (last is) m1 = Inr m'" "env_pc (env m1) = env_pc (env m)"
    using exec_list_pc [OF assms(3)] shape q by blast
  have pc: "env_pc (env m') = env_pc (env m)"
    using run_insn_straight [OF m1(1)] straight_not_jump [OF l] q shape m1(2) by simp
  moreover have "env_exception (env m') = EXCP_NONE" using exec_list_quiet [OF assms(3) q] e by simp
  ultimately show ?thesis
    using assms(2) frame q l unfolding at_cut_block_def by (auto simp: block_at_frame)
qed

lemma block_exec_cut:
  assumes "block_exec cc b m = Some (Inr (m', q))" and "cache_inv m cc" and "at_cut_block m"
    and "b < length (trans_blocks cc)" and "blk_pc (trans_blocks cc ! b) = env_pc (env m)"
  shows "cache_inv m' cc \<and> at_cut_block m' \<and> prev_ok cc (env_pc (env m')) (Some q)"
proof -
  let ?P = "\<lambda>cc b m r. \<forall>m' q. r = Inr (m', q) \<longrightarrow> cache_inv m cc \<longrightarrow> at_cut_block m \<longrightarrow>
    b < length (trans_blocks cc) \<longrightarrow> blk_pc (trans_blocks cc ! b) = env_pc (env m) \<longrightarrow>
    cache_inv m' cc \<and> at_cut_block m' \<and> prev_ok cc (env_pc (env m')) (Some q)"
  have "?P cc b m r" if "block_exec cc b m = Some r" for r
  proof (rule block_exec.raw_induct [where P = ?P, OF _ that], intro allI impI)
    fix f :: "code_cache \<Rightarrow> nat \<Rightarrow> machine \<Rightarrow> (machine \<times> nat) result option" and cc b m r m' q
    assume ih: "\<And>cc b m r. f cc b m = Some r \<Longrightarrow> ?P cc b m r"
      and body: "(case exec_insns (insn_buf cc) (blk_insn (trans_blocks cc ! b)) (blk_count (trans_blocks cc ! b)) m of
         Inl e \<Rightarrow> Some (Inl e)
       | Inr m \<Rightarrow> (case next_block (trans_blocks cc ! b) m of None \<Rightarrow> Some (Inr (m, b)) | Some b' \<Rightarrow> f cc b' m)) = Some r"
      and r: "r = Inr (m', q)" and inv: "cache_inv m cc" and cut: "at_cut_block m"
      and b: "b < length (trans_blocks cc)" "blk_pc (trans_blocks cc ! b) = env_pc (env m)"
    let ?b = "trans_blocks cc ! b"
    have ok: "block_code_ok m cc ?b" "block_links_ok cc ?b" using inv b(1) by (auto simp: cache_inv_def)
    then obtain c where blk: "block_at m (env_pc (env m)) = Some (block_insns cc ?b, c)"
      using b(2) by (auto simp: block_code_ok_def)
    from body r obtain m1 where m1: "exec_list (block_insns cc ?b) m = Inr m1"
      by (auto simp: exec_insns_list block_insns_def split: sum.splits)
    note st = cut_block_stays [OF cut blk m1]
    have e1: "env_exception (env m1) = EXCP_NONE" using st by (simp add: at_cut_block_def)
    have lv: "leaves ?b (block_insns cc ?b) (env_pc (env m1))" by (rule exec_leaves [OF ok(1) _ m1 e1]) (simp add: b(2))
    have inv1: "cache_inv m1 cc" using cache_inv_frame [OF inv] st by blast
    show "cache_inv m' cc \<and> at_cut_block m' \<and> prev_ok cc (env_pc (env m')) (Some q)"
    proof (cases "next_block ?b m1")
      case None
      with body r m1 have "m' = m1" "q = b" by (auto simp: exec_insns_list block_insns_def)
      with inv1 st lv b(1) show ?thesis by (simp add: prev_ok_def)
    next
      case (Some t)
      with body m1 have "f cc t m1 = Some r" by (simp add: exec_insns_list block_insns_def)
      moreover have "t < length (trans_blocks cc) \<and> blk_pc (trans_blocks cc ! t) = env_pc (env m1)"
        by (rule next_block_pc [OF ok(2) lv Some])
      ultimately show ?thesis using ih r inv1 st by blast
    qed
  qed
  with assms show ?thesis by blast
qed

text \<open>The emulator does not get past it: \<open>cpu_exec\<close> runs it for ever or stops with an error.\<close>

lemma cpu_exec_cut:
  assumes "cache_inv m cc" and "at_cut_block m" and "prev_ok cc (env_pc (env m)) prev"
  shows "cpu_exec prev cc m \<noteq> Some (Inr r)"
proof
  let ?P = "\<lambda>prev cc m (r :: (machine \<times> code_cache) result). cache_inv m cc \<longrightarrow> at_cut_block m \<longrightarrow> prev_ok cc (env_pc (env m)) prev \<longrightarrow> isl r"
  assume *: "cpu_exec prev cc m = Some (Inr r)"
  have "?P prev cc m (Inr r)"
  proof (rule cpu_exec.raw_induct [where P = ?P, OF _ *], intro impI)
    fix f :: "nat option \<Rightarrow> code_cache \<Rightarrow> machine \<Rightarrow> (machine \<times> code_cache) result option" and prev cc m r
    assume ih: "\<And>prev cc m r. f prev cc m = Some r \<Longrightarrow> ?P prev cc m r"
      and body: "(if env_exception (env m) \<noteq> EXCP_NONE then Some (Inr (m, cc))
       else (case lookup_block m cc of
           None \<Rightarrow> None
         | Some (Inl e) \<Rightarrow> Some (Inl e)
         | Some (Inr (cc, b)) \<Rightarrow>
             (case block_exec (link_prev prev b cc) b m of
                None \<Rightarrow> None
              | Some (Inl e) \<Rightarrow> Some (Inl e)
              | Some (Inr (m, p)) \<Rightarrow> f (Some p) (link_prev prev b cc) m))) = Some r"
      and inv: "cache_inv m cc" and cut: "at_cut_block m" and prev: "prev_ok cc (env_pc (env m)) prev"
    from cut obtain "is" c where e: "env_exception (env m) = EXCP_NONE"
      and blk: "block_at m (env_pc (env m)) = Some (is, c)" by (auto simp: at_cut_block_def)
    show "isl r"
    proof (rule ccontr)
      assume "\<not> isl r"
      with lookup_block_spec [OF inv blk] body e obtain cc' b where l: "lookup_block m cc = Some (Inr (cc', b))"
          "cache_inv m cc'" "keeps cc cc'" "b < length (trans_blocks cc')"
          "blk_pc (trans_blocks cc' ! b) = env_pc (env m)"
        by (auto simp del: split_paired_Ex)
      let ?cc = "link_prev prev b cc'"
      have p: "prev_ok cc' (env_pc (env m)) prev" by (rule prev_ok_keeps [OF l(3) prev])
      have inv': "cache_inv m ?cc" "b < length (trans_blocks ?cc)" "blk_pc (trans_blocks ?cc ! b) = env_pc (env m)"
        using link_prev_inv [OF l(2) p l(4,5)] l(4,5) by (simp_all add: link_prev_nth(1) [OF p])
      from body e l(1) \<open>\<not> isl r\<close> obtain m1 q where bx: "block_exec ?cc b m = Some (Inr (m1, q))"
        and f: "f (Some q) ?cc m1 = Some r"
        by (auto split: option.splits sum.splits)
      from block_exec_cut [OF bx inv'(1) cut inv'(2,3)] ih [OF f] \<open>\<not> isl r\<close> show False by blast
    qed
  qed
  with assms show False by simp
qed

section \<open>Serving an exception\<close>

lemma handle_exception_stop:
  assumes "handle_exception os p = (Inl s, q)" and "env_exception (env (mach p)) \<in> {U_ECALL, ILLEGAL_INST}"
  shows "s \<noteq> Assert_failed"
proof -
  have "s \<noteq> Assert_failed" if "do_syscall os nr a1 a2 a3 a4 a5 a6 p = (Inl s, q)" for nr a1 a2 a3 a4 a5 a6
    using that by (auto simp: do_syscall_def Let_def target_memory_copy_def bind_result_def of_access_def
        split: if_splits prod.splits sum.splits option.splits)
  with assms show ?thesis
    by (auto simp: handle_exception_def Let_def split: prod.splits sum.splits)
qed

section \<open>Allocating memory\<close>

type_synonym request = "u64 \<times> c_int \<times> c_int \<times> c_int \<times> u64"

text \<open>A sequence of \<open>mmap\<close> calls without an address.\<close>

fun mmap_all :: "'w os \<Rightarrow> request list \<Rightarrow> 'w proc \<Rightarrow> u64 list \<times> 'w proc" where
  "mmap_all os [] p = ([], p)"
| "mmap_all os ((len, prot, flags, fd, off) # rs) p =
     (let (a, p) = target_mmap os 0 len prot flags fd off p; (as, p) = mmap_all os rs p in (a # as, p))"

lemma HOST_PAGE_ALIGN_bounds:
  assumes "unat len + 4096 \<le> 2 ^ 64"
  shows "unat len \<le> unat (HOST_PAGE_ALIGN len)" and "unat (HOST_PAGE_ALIGN len) \<le> unat len + 4096"
proof -
  have "unat (HOST_PAGE_ALIGN len) = (unat len + 2 ^ 12 - 1) div 2 ^ 12 * 2 ^ 12"
    using unat_ROUND_UP [of len 12] assms by (simp add: HOST_PAGE_ALIGN_def HOST_PAGE_SIZE_def)
  with round_up_bounds [of "2 ^ 12" "unat len"]
  show "unat len \<le> unat (HOST_PAGE_ALIGN len)" "unat (HOST_PAGE_ALIGN len) \<le> unat len + 4096" by simp_all
qed

lemma mmap_all_apart:
  assumes "mmap_fixed_addr os" and "mmap_all os rs p = (as, p')" and "- 1 \<notin> set as"
    and "\<forall>(len, prot, flags, fd, off)\<in>set rs. flags AND MAP_FIXED = 0"
    and "mmap_next_start p \<ge> TASK_UNMAPPED_BASE"
    and "unat (mmap_next_start p) + sum_list (map (\<lambda>r. unat (fst r) + 4096) rs) < 2 ^ 64"
  shows "length as = length rs \<and> (\<forall>i j. i < j \<longrightarrow> j < length rs \<longrightarrow> unat (as ! i) + unat (fst (rs ! i)) \<le> unat (as ! j)) \<and>
    (\<forall>a\<in>set as. mmap_next_start p \<le> a)"
  using assms(2-6)
proof (induction rs arbitrary: p as)
  case (Cons r rs)
  obtain len prot flags fd off where r: "r = (len, prot, flags, fd, off)" by (metis prod_cases5)
  from Cons.prems(1) r obtain a p1 as1 where 1: "target_mmap os 0 len prot flags fd off p = (a, p1)"
      "mmap_all os rs p1 = (as1, p')" "as = a # as1"
    by (auto simp: Let_def split: prod.splits)
  have "flags AND MAP_FIXED = 0" "a \<noteq> - 1" using Cons.prems(2,3) r 1(3) by auto
  with mmap_alloc_step [OF assms(1) _ Cons.prems(4) 1(1)] have
    a: "a = mmap_next_start p" "mmap_next_start p1 = mmap_next_start p + HOST_PAGE_ALIGN len" by auto
  have b: "unat (mmap_next_start p) + (unat len + 4096) + sum_list (map (\<lambda>r. unat (fst r) + 4096) rs) < 2 ^ 64"
    using Cons.prems(5) r by simp
  then have l: "unat len \<le> unat (HOST_PAGE_ALIGN len)" "unat (HOST_PAGE_ALIGN len) \<le> unat len + 4096"
    by (intro HOST_PAGE_ALIGN_bounds; simp)+
  have n: "unat (mmap_next_start p1) = unat (mmap_next_start p) + unat (HOST_PAGE_ALIGN len)"
    using unat_add_lem [of "mmap_next_start p" "HOST_PAGE_ALIGN len"] b l(2) unfolding a(2) by simp
  have "mmap_next_start p1 \<ge> TASK_UNMAPPED_BASE" using Cons.prems(4) n by (simp add: word_le_nat_alt)
  moreover have "unat (mmap_next_start p1) + sum_list (map (\<lambda>r. unat (fst r) + 4096) rs) < 2 ^ 64"
    using b n l(2) by simp
  moreover have "- 1 \<notin> set as1" "\<forall>(len, prot, flags, fd, off)\<in>set rs. flags AND MAP_FIXED = 0"
    using Cons.prems(2,3) 1(3) by auto
  ultimately have ih: "length as1 = length rs"
      "\<And>i j. i < j \<Longrightarrow> j < length rs \<Longrightarrow> unat (as1 ! i) + unat (fst (rs ! i)) \<le> unat (as1 ! j)"
      "\<And>x. x \<in> set as1 \<Longrightarrow> mmap_next_start p1 \<le> x"
    using Cons.IH [OF 1(2)] by blast+
  have first: "unat a + unat len \<le> unat x" if "x \<in> set as1" for x
    using ih(3) [OF that] n l(1) a(1) by (simp add: word_le_nat_alt)
  show ?case
  proof (intro conjI allI impI ballI)
    show "length as = length (r # rs)" using ih(1) 1(3) by simp
    fix x assume "x \<in> set as"
    then show "mmap_next_start p \<le> x" using first a(1) 1(3) by (force simp: word_le_nat_alt)
  next
    fix i j assume ij: "i < j" "j < length (r # rs)"
    then obtain j' where j: "j = Suc j'" "j' < length rs" by (cases j) auto
    show "unat (as ! i) + unat (fst ((r # rs) ! i)) \<le> unat (as ! j)"
    proof (cases i)
      case 0
      with first [of "as1 ! j'"] j ih(1) 1(3) r show ?thesis by simp
    next
      case (Suc i')
      with ih(2) [of i' j'] ij j 1(3) show ?thesis by simp
    qed
  qed
qed simp

end
