(* ===== verification/Run_Properties.thy ===== *)
theory Run_Properties
  imports Machine_Steps Demo_Program
begin

text \<open>
  The properties of the emulated process as a transition system: its invariant, the blocks it does not get past,
  the system calls and the allocation of memory.
\<close>

section \<open>Reachable states\<close>

text \<open>
  C13: When \<open>cpu_loop\<close> starts with a well-formed register file and break, then in every state that the process reaches, block
  by block and call by call, the file has 32 registers, register zero is zero, the pending exception is none,
  an \<open>ecall\<close> or an illegal instruction, the window and the start of the break are those of the start, and the break is not
  below it.  And when the run ends, \<open>cpu_loop\<close> returns what the block or the call of one of these states stops with, never
  the assertion behind the switch over the exceptions; only a run with more than 65536 starts of blocks may exhaust the
  buffer instead.
\<close>

theorem runs_end_well:
  assumes "alloc_insn_buffer os p = (True, p')" and "length (gpr (env (mach p'))) = 32"
    and "gpr (env (mach p')) ! 0 = 0" and "initial_target_brk p' \<le> target_brk p'"
  shows "(\<forall>q. (guest_step os)\<^sup>*\<^sup>* (loop_start p') q \<longrightarrow>
      length (gpr (env (mach q))) = 32 \<and> gpr (env (mach q)) ! 0 = 0 \<and>
      env_exception (env (mach q)) \<in> {EXCP_NONE, U_ECALL, ILLEGAL_INST} \<and>
      guest_base (mach q) = guest_base (mach p') \<and> initial_target_brk q = initial_target_brk p' \<and>
      initial_target_brk p' \<le> target_brk q) \<and>
    (ref_loop os n (loop_start p') = Some (s, w) \<longrightarrow>
      (\<exists>r. cpu_loop os p = Some r \<and>
        (r = (s, w) \<and> (\<exists>q. (guest_step os)\<^sup>*\<^sup>* (loop_start p') q \<and>
            (if env_exception (env (mach q)) = EXCP_NONE
             then \<exists>is c. block_at (mach q) (env_pc (env (mach q))) = Some (is, c) \<and> exec_list is (mach q) = Inl s \<and> w = world q
             else s \<noteq> Assert_failed \<and> (\<exists>q'. handle_exception os q = (Inl s, q') \<and> w = world q'))) \<or>
         fst r = Segv Insn_buffer \<and> 65536 < card (set (loop_starts os n (loop_start p'))))))"
proof -
  let ?p = "loop_start p'"
  have start: "guest_ok ?p ?p"
    using assms(2-4) by (simp add: guest_ok_def loop_start_def set_env_def)
  have ok: "guest_ok ?p q" if "(guest_step os)\<^sup>*\<^sup>* ?p q" for q
    using reachable_ok [OF that start] .
  have "\<exists>r. cpu_loop os p = Some r \<and> (r = (s, w) \<or> fst r = Segv Insn_buffer \<and> 65536 < card (set (loop_starts os n ?p)))"
    if "ref_loop os n ?p = Some (s, w)"
    using run_loop_fits [OF empty_cache_inv that, of "set (loop_starts os n ?p)"]
      assms(1) roomy_empty [of "set (loop_starts os n ?p)"]
    by (auto simp: cpu_loop_def loop_start_def not_le [symmetric])
  moreover have "\<exists>q. (guest_step os)\<^sup>*\<^sup>* ?p q \<and>
            (if env_exception (env (mach q)) = EXCP_NONE
             then \<exists>is c. block_at (mach q) (env_pc (env (mach q))) = Some (is, c) \<and> exec_list is (mach q) = Inl s \<and> w = world q
             else s \<noteq> Assert_failed \<and> (\<exists>q'. handle_exception os q = (Inl s, q') \<and> w = world q'))"
    if "ref_loop os n ?p = Some (s, w)"
  proof -
    from ref_loop_reaches [OF that] obtain q where q: "(guest_step os)\<^sup>*\<^sup>* ?p q" "stops os q s w" by blast
    have "s \<noteq> Assert_failed" if "handle_exception os q = (Inl s, q')" "env_exception (env (mach q)) \<noteq> EXCP_NONE" for q'
      using that ok [OF q(1)] handle_exception_stop [of os q s q'] by (auto simp: guest_ok_def)
    with q show ?thesis by (intro exI [of _ q]) (auto simp: stops_def)
  qed
  moreover have "length (gpr (env (mach q))) = 32 \<and> gpr (env (mach q)) ! 0 = 0 \<and>
      env_exception (env (mach q)) \<in> {EXCP_NONE, U_ECALL, ILLEGAL_INST} \<and>
      guest_base (mach q) = guest_base (mach p') \<and> initial_target_brk q = initial_target_brk p' \<and>
      initial_target_brk p' \<le> target_brk q" if "(guest_step os)\<^sup>*\<^sup>* ?p q" for q
    using ok [OF that] by (auto simp: guest_ok_def loop_start_def set_env_def)
  ultimately show ?thesis by blast
qed

theorem runs_end_well_witness:
  "\<exists>q. (guest_step demo_os)\<^sup>*\<^sup>* demo_proc q \<and> env_exception (env (mach q)) = U_ECALL \<and>
    length (gpr (env (mach q))) = 32 \<and> gpr (env (mach q)) ! 0 = 0 \<and> gpr (env (mach q)) ! 10 = 42 \<and>
    cpu_loop demo_os demo_proc = Some (Exited 42, ())"
proof -
  have alloc: "alloc_insn_buffer demo_os demo_proc = (True, demo_proc)"
    by (simp add: alloc_insn_buffer_def host_mmap_def demo_os_def demo_proc_def set_mem_def
        INSN_BUFFER_MAP_START_def MAP_FAILED_def)
  obtain m where m: "ref_exec 3 prog = Some (Inr m)" "env_exception (env m) = U_ECALL"
      "gpr (env m) ! 17 = 93" "gpr (env m) ! 10 = 42"
    using prog_runs clean_exec_ref by blast
  have p: "demo_proc\<lparr>mach := x\<rparr> = \<lparr>mach = x, world = (), mmap_next_start = TASK_UNMAPPED_BASE,
      target_brk = 0, initial_target_brk = 0\<rparr>" "mach demo_proc = prog" for x
    by (simp_all add: demo_proc_def)
  have same: "loop_start demo_proc = demo_proc"
    by (simp add: loop_start_def set_env_def demo_proc_def prog_def)
  have reach: "(guest_step demo_os)\<^sup>*\<^sup>* demo_proc (demo_proc\<lparr>mach := m\<rparr>)"
    using ref_exec_reaches [OF m(1) p(2), of demo_os] by simp
  have r: "ref_loop demo_os (Suc 3) demo_proc = Some (Exited 42, ())"
    using m unfolding ref_loop.simps p by (simp add: handle_exception_def do_syscall_def Let_def)
  have few: "\<not> 65536 < card (set (loop_starts demo_os (Suc 3) demo_proc))"
    using card_length [of "loop_starts demo_os (Suc 3) demo_proc"] loop_starts_length [of demo_os "Suc 3" demo_proc] by simp
  have regs: "length (gpr (env (mach demo_proc))) = 32" "gpr (env (mach demo_proc)) ! 0 = 0"
    "initial_target_brk demo_proc \<le> target_brk demo_proc"
    by (simp_all add: demo_proc_def prog_def zero_env_def)
  note end_well = runs_end_well [OF alloc regs, of "Suc 3" "Exited 42" "()", unfolded same]
  from end_well [THEN conjunct2, rule_format, OF r] few have "cpu_loop demo_os demo_proc = Some (Exited 42, ())" by blast
  moreover from end_well [THEN conjunct1, rule_format, OF reach]
  have "length (gpr (env m)) = 32" "gpr (env m) ! 0 = 0" by simp_all
  ultimately show ?thesis using reach m(2,4) by (intro exI [of _ "demo_proc\<lparr>mach := m\<rparr>"]) simp
qed

text \<open>
  C12: A block that was cut at \<open>TRANS_MAX\<close> instructions, none of which raises an exception, is never left: from any cache
  that satisfies the invariant, \<open>cpu_exec\<close> does not return with a machine; it runs the block for ever or stops with an
  error.
\<close>

theorem cut_block_hangs:
  assumes "cache_inv m cc" and "env_exception (env m) = EXCP_NONE" and "prev_ok cc (env_pc (env m)) prev"
    and "block_at m (env_pc (env m)) = Some (is, c)" and "length is = TRANS_MAX"
    and "\<forall>i\<in>set is. straight i \<and> \<not> insn_raises i"
  shows "cpu_exec prev cc m \<noteq> Some (Inr r)"
proof (rule cpu_exec_cut [OF assms(1) _ assms(3)])
  have "is \<noteq> []" using assms(5) by (auto simp: TRANS_MAX_def)
  with assms(2,4,6) show "at_cut_block m" by (auto simp: at_cut_block_def)
qed

theorem cut_block_hangs_witness:
  "\<forall>r. cpu_exec None empty_cache nop_sled \<noteq> Some (Inr r)"
proof -
  obtain c where b: "block_at nop_sled (env_pc (env nop_sled)) = Some (replicate TRANS_MAX nop_insn, c)"
    using nop_sled_block by blast
  have e: "env_exception (env nop_sled) = EXCP_NONE" by (simp add: nop_sled_def prog_def)
  have p: "prev_ok empty_cache (env_pc (env nop_sled)) None" by (simp add: prev_ok_def)
  have "\<forall>i\<in>set (replicate TRANS_MAX nop_insn). straight i \<and> \<not> insn_raises i"
    by (auto simp: straight_def insn_raises_def nop_insn_def)
  from cut_block_hangs [OF empty_cache_inv e p b _ this] show ?thesis by simp
qed

section \<open>Blocks\<close>

lemma block_at_end:
  assumes "block_at m pc = Some (is, c)"
  shows "ends_block (insn_handler (last is)) \<or> length is = 512"
    and "tc_link c \<longleftrightarrow> \<not> ends_block (insn_handler (last is)) \<or>
      (\<exists>h. insn_handler (last is) \<in> {H_b h, H_jump Do_jal, H_jump Do_c_jal})"
    and "insn_handler (last is) = H_b h \<Longrightarrow> pc_next0 c = insn_pc (last is) + simm (last is) \<and>
      pc_next1 c = insn_pc (last is) + b_len h"
proof -
  have "block_end 0 (start_ctx pc) is c"
    by (rule fetch_block_end [OF assms [unfolded block_at_def]]) (simp_all add: start_ctx_def TRANS_MAX_def)
  then show "ends_block (insn_handler (last is)) \<or> length is = 512"
    and "tc_link c \<longleftrightarrow> \<not> ends_block (insn_handler (last is)) \<or>
      (\<exists>h. insn_handler (last is) \<in> {H_b h, H_jump Do_jal, H_jump Do_c_jal})"
    and "insn_handler (last is) = H_b h \<Longrightarrow> pc_next0 c = insn_pc (last is) + simm (last is) \<and>
      pc_next1 c = insn_pc (last is) + b_len h"
    by (auto simp: block_end_def straight_def start_ctx_def TRANS_MAX_def Let_def split: handler.splits if_splits)
qed

text \<open>
  C7: Translating the block that \<open>new_block\<close> has made for an address stores the code found there: between 1 and 512 instructions
  of which only the last can end the block, and does unless the block is cut.  They lie where the block says and nothing
  below the pointer of the buffer changes, nor does another block; the pointer moves on by their size, rounded up to 64, over slots that are still
  zero.  The block is handed back for linking when its successors are known: after a branch, a direct jump, or a cut; a
  branch records its two.  When they do not fit, the emulator stops with a fault.
\<close>

theorem translate_block:
  assumes "block_at m pc = Some (is, c)" and "b < length (trans_blocks cc)" and "buffer_ok cc"
    and "trans_blocks cc ! b = (fresh_block pc (insn_buffer_ptr cc))\<lparr>hash_next := h\<rparr>"
  shows "1 \<le> length is \<and> length is \<le> 512 \<and> (\<forall>i\<in>set (butlast is). \<not> ends_block (insn_handler i)) \<and>
    (ends_block (insn_handler (last is)) \<or> length is = 512) \<and>
    (if insn_buffer_ptr cc + 32 * length is \<le> 2 ^ 30
     then \<exists>cc'. translate m cc b = Inr (cc', if \<not> ends_block (insn_handler (last is)) \<or>
           (\<exists>h. insn_handler (last is) \<in> {H_b h, H_jump Do_jal, H_jump Do_c_jal}) then Some b else None) \<and>
         block_insns cc' (trans_blocks cc' ! b) = is \<and> buffer_ok cc' \<and>
         insn_buffer_ptr cc' = insn_buffer_ptr cc + (32 * length is + 63) div 64 * 64 \<and>
         (\<forall>a<insn_buffer_ptr cc. insn_buf cc' a = insn_buf cc a) \<and>
         (\<forall>k. k \<noteq> b \<longrightarrow> trans_blocks cc' ! k = trans_blocks cc ! k) \<and>
         (\<forall>h. insn_handler (last is) = H_b h \<longrightarrow>
            jmp_pc0 (trans_blocks cc' ! b) = insn_pc (last is) + simm (last is) \<and>
            jmp_pc1 (trans_blocks cc' ! b) = insn_pc (last is) + b_len h)
     else translate m cc b = Inl (Segv Insn_buffer))"
proof -
  let ?n = "length is" and ?ptr = "insn_buffer_ptr cc"
  have ex: "\<not> tc_exit (start_ctx pc)" by (simp add: start_ctx_def)
  note f = assms(1) [unfolded block_at_def]
  note shape = fetch_block_shape [OF f ex]
  have len: "?n \<le> TRANS_MAX" using fetch_block_length [OF f ex] by (simp add: TRANS_MAX_def)
  note e = block_at_end [OF assms(1)]
  have size: "unat (ROUND_UP (of_nat (?n * SIZEOF_INSN)) 64) = (32 * ?n + 63) div 64 * 64"
    by (rule insns_round [OF len])
  show ?thesis
  proof (cases "?ptr + SIZEOF_INSN * ?n \<le> INSN_BUFFER_SIZE")
    case False
    with translate_fresh [OF assms(1,2,4,3)] shape len e(1) show ?thesis
      by (simp add: straight_def TRANS_MAX_def SIZEOF_INSN_def INSN_BUFFER_SIZE_def Suc_le_eq)
  next
    case True
    define cc' where "cc' = cc\<lparr>insn_buf := write_insns (insn_buf cc) ?ptr is,
      trans_blocks := (trans_blocks cc)[b := (trans_blocks cc ! b)
        \<lparr>blk_count := ?n, jmp_pc0 := pc_next0 c, jmp_pc1 := pc_next1 c\<rparr>],
      insn_buffer_ptr := ?ptr + unat (ROUND_UP (of_nat (?n * SIZEOF_INSN)) 64)\<rparr>"
    have "insn_buf cc' a = zero_insn" if "insn_buffer_ptr cc' \<le> a" for a
      using that insns_size(1) [OF len] assms(3)
      by (simp add: cc'_def write_insns_outside buffer_ok_def mult.commute)
    then have "buffer_ok cc'" by (simp add: buffer_ok_def)
    moreover have "block_insns cc' (trans_blocks cc' ! b) = is"
      using assms(2) by (simp add: cc'_def block_insns_def assms(4) fresh_block_def read_write_insns)
    moreover have "\<forall>a<?ptr. insn_buf cc' a = insn_buf cc a" by (simp add: cc'_def write_insns_outside)
    moreover have "translate m cc b = Inr (cc', if tc_link c then Some b else None)"
      using translate_fresh [OF assms(1,2,4,3)] True by (simp add: cc'_def)
    moreover have "insn_buffer_ptr cc' = ?ptr + (32 * ?n + 63) div 64 * 64" by (simp add: cc'_def size del: of_nat_mult)
    ultimately show ?thesis
      using True shape len e assms(2)
      by (simp add: straight_def TRANS_MAX_def SIZEOF_INSN_def INSN_BUFFER_SIZE_def Suc_le_eq) (auto simp: cc'_def)
  qed
qed

theorem translate_block_witness:
  "\<exists>cc'. translate prog (empty_cache\<lparr>trans_blocks := [fresh_block 0x1000 0]\<rparr>) 0 = Inr (cc', None) \<and>
    insn_buffer_ptr cc' = 128"
proof -
  let ?cc = "empty_cache\<lparr>trans_blocks := [fresh_block 0x1000 0]\<rparr>"
  have a: "0 < length (trans_blocks ?cc)" "buffer_ok ?cc"
      "trans_blocks ?cc ! 0 = (fresh_block 0x1000 (insn_buffer_ptr ?cc))\<lparr>hash_next := None\<rparr>"
    by (simp_all add: buffer_ok_def empty_cache_def fresh_block_def)
  from translate_block [OF prog_block a] show ?thesis
    by (auto simp: empty_cache_def)
qed

section \<open>System calls\<close>

text \<open>
  C28: Serving an \<open>ecall\<close> that returns puts the result of the call into \<open>a0\<close>, moves the counter past the instruction,
  clears the exception and changes no other register; \<open>exit\<close> ends the process with its argument, a number that is not
  implemented ends it with status 1.
\<close>

theorem ecall_effect:
  assumes "env_exception (env (mach p)) = U_ECALL" and "length (gpr (env (mach p))) = 32"
  shows "case do_syscall os (ucast (gpr (env (mach p)) ! 17)) (gpr (env (mach p)) ! 10) (gpr (env (mach p)) ! 11)
      (gpr (env (mach p)) ! 12) (gpr (env (mach p)) ! 13) (gpr (env (mach p)) ! 14) (gpr (env (mach p)) ! 15) p of
    (Inl s, q) \<Rightarrow> handle_exception os p = (Inl s, q) \<and>
      (ucast (gpr (env (mach p)) ! 17) = (93 :: c_int) \<longrightarrow> s = Exited (ucast (gpr (env (mach p)) ! 10)) \<and> q = p) \<and>
      ((ucast (gpr (env (mach p)) ! 17) :: c_int) \<notin> {48, 57, 64, 80, 93, 214, 222} \<longrightarrow> s = Exited 1 \<and> q = p)
  | (Inr ret, q) \<Rightarrow> \<exists>p'. handle_exception os p = (Inr (), p') \<and>
      env_pc (env (mach p')) = env_pc (env (mach p)) + 4 \<and> env_exception (env (mach p')) = EXCP_NONE \<and>
      gpr (env (mach p')) ! 10 = ret \<and>
      (\<forall>r<32. r \<noteq> 10 \<longrightarrow> gpr (env (mach p')) ! r = gpr (env (mach p)) ! r) \<and>
      mem (mach p') = mem (mach q) \<and> world p' = world q"
proof -
  obtain r q where d: "do_syscall os (ucast (gpr (env (mach p)) ! 17)) (gpr (env (mach p)) ! 10) (gpr (env (mach p)) ! 11)
      (gpr (env (mach p)) ! 12) (gpr (env (mach p)) ! 13) (gpr (env (mach p)) ! 14) (gpr (env (mach p)) ! 15) p = (r, q)"
    by fastforce
  show ?thesis
  proof (cases r)
    case (Inl s)
    from d show ?thesis
      unfolding Inl using assms(1) by (auto simp: handle_exception_def Let_def) (auto simp: do_syscall_def Let_def)
  next
    case (Inr ret)
    with d do_syscall_frame [OF d] assms show ?thesis
      by (auto simp: handle_exception_def Let_def set_env_def)
  qed
qed

theorem ecall_effect_witness:
  "\<exists>p'. handle_exception demo_host (demo_ecall 0 214 0x5000) = (Inr (), p') \<and> gpr (env (mach p')) ! 10 = 0x5000 \<and>
    env_pc (env (mach p')) = 4"
proof -
  have "ucast (214 :: u64) = (214 :: c_int)" by simp
  then have d: "do_syscall demo_host (ucast (gpr (env (mach (demo_ecall 0 214 0x5000))) ! 17)) 0x5000 0 0 0 0 0
      (demo_ecall 0 214 0x5000) = (Inr 0x5000, (demo_ecall 0 214 0x5000)\<lparr>target_brk := 0x5000\<rparr>)"
    by (simp add: do_syscall_def do_brk_def demo_ecall_def initial_proc_def Let_def)
  have regs: "gpr (env (mach (demo_ecall 0 214 0x5000))) ! 10 = 0x5000"
    "gpr (env (mach (demo_ecall 0 214 0x5000))) ! 11 = 0" "gpr (env (mach (demo_ecall 0 214 0x5000))) ! 12 = 0"
    "gpr (env (mach (demo_ecall 0 214 0x5000))) ! 13 = 0" "gpr (env (mach (demo_ecall 0 214 0x5000))) ! 14 = 0"
    "gpr (env (mach (demo_ecall 0 214 0x5000))) ! 15 = 0" "env_pc (env (mach (demo_ecall 0 214 0x5000))) = 0"
    by (simp_all add: demo_ecall_def zero_env_def Let_def)
  have "env_exception (env (mach (demo_ecall 0 214 0x5000))) = U_ECALL"
    "length (gpr (env (mach (demo_ecall 0 214 0x5000)))) = 32"
    by (simp_all add: demo_ecall_def zero_env_def Let_def)
  from ecall_effect [OF this, of demo_host] show ?thesis
    unfolding regs d by auto
qed

lemma load_in_stored:
  assumes "store_bytes m a bs = Some m'" and "off + n \<le> length bs" and "length bs \<le> 2 ^ 64"
    and "\<forall>i<length bs. hread m (a + of_nat i)"
  shows "load_bytes m' (a + of_nat off) n = Some (take n (drop off bs))"
proof -
  have a: "a + of_nat off + of_nat i = a + of_nat (off + i)" for i by simp
  have "unat (of_nat (off + i) :: u64) = off + i" if "i < n" for i
    using that assms(2,3) by (simp only: unat_of_nat) (simp add: take_bit_nat_eq_self)
  moreover have "hread m (a + of_nat (off + i))" if "i < n" for i
    using assms(2,4) that by (simp del: of_nat_add)
  ultimately show ?thesis
    using assms(1,2) unfolding store_bytes_Some load_bytes_Some a
    by (auto simp: in_range_def intro!: nth_equalityI simp del: of_nat_add)
qed

text \<open>The fields of the \<open>struct stat\<close> of RV64 Linux: offset, width, and the value of the host cut to the width.\<close>

definition stat_layout :: "host_stat \<Rightarrow> (nat \<times> nat \<times> u64) list" where
  "stat_layout st = [(0, 8, st_dev st), (8, 8, st_ino st), (16, 4, ucast (st_mode st)), (20, 4, take_bit 32 (st_nlink st)),
     (24, 4, ucast (st_uid st)), (28, 4, ucast (st_gid st)), (32, 8, st_rdev st), (48, 8, st_size st),
     (56, 4, take_bit 32 (st_blksize st)), (64, 8, st_blocks st), (72, 8, st_atime st), (80, 8, st_atimensec st),
     (88, 8, st_mtime st), (96, 8, st_mtimensec st), (104, 8, st_ctime st), (112, 8, st_ctimensec st)]"

lemma take_bit_word: "take_bit 64 (x :: u64) = x" "take_bit 32 (ucast (y :: u32) :: u64) = ucast y"
  by (rule bit_word_eqI; auto simp: bit_take_bit_iff bit_ucast_iff dest: bit_imp_le_length)+

lemma stat_layout_bytes:
  "list_all (\<lambda>(off, n, v). off + n \<le> 128 \<and> le_word (take n (drop off (target_stat_bytes st))) = v) (stat_layout st)"
  by (simp add: stat_layout_def target_stat_bytes_def le_word_le_bytes take_bit_word)

text \<open>A host whose \<open>fstat\<close> finds a file of 132 bytes.\<close>

definition stat_os :: "unit os" where
  "stat_os = demo_os\<lparr>os_fstat := \<lambda>w fd. (0, demo_stat\<lparr>st_mode := 0x81a4, st_size := 132\<rparr>, w)\<rparr>"

definition stat_proc :: "unit proc" where
  "stat_proc = demo_proc\<lparr>mach := prog\<lparr>mem := \<lparr>hbytes = \<lambda>_. 0xff, hread = \<lambda>_. True, hwrite = \<lambda>_. True\<rparr>\<rparr>\<rparr>"

text \<open>
  C29: After an \<open>fstat\<close> that is served, the guest that loads the fields of its \<open>struct stat\<close> at the offsets of the ABI
  reads the values of the host, cut to the width of the field; the result is that of the host, and nothing outside the
  128 bytes changes.
\<close>

theorem fstat_fields:
  assumes "os_fstat os (world p) (ucast a1) = (ret, st, w)"
    and "do_syscall os 80 a1 a2 a3 a4 a5 a6 p = (Inr r, q)"
    and "\<forall>i<128. hread (mem (mach p)) (g2h (guest_base (mach p)) a2 + of_nat i)"
  shows "r = scast ret \<and> world q = w \<and> env (mach q) = env (mach p) \<and>
    (\<forall>(off, n, v)\<in>set (stat_layout st). guest_read (mach q) (a2 + of_nat off) n = Some v) \<and>
    (\<forall>x. \<not> in_range (g2h (guest_base (mach p)) a2) 128 x \<longrightarrow> hbytes (mem (mach q)) x = hbytes (mem (mach p)) x)"
proof -
  let ?a = "g2h (guest_base (mach p)) a2" and ?bs = "target_stat_bytes st"
  have len: "length ?bs = 128" by (rule target_stat_length)
  obtain h where h: "store_bytes (mem (mach p)) ?a ?bs = Some h" "q = set_mem h w (p\<lparr>world := w\<rparr>)" "r = scast ret"
    using assms(1,2) by (auto simp: do_syscall_def target_memory_copy_def Let_def bind_result_Inr split: sum.splits)
  have q: "mem (mach q) = h" "guest_base (mach q) = guest_base (mach p)" "env (mach q) = env (mach p)" "world q = w"
    using h(2) by (simp_all add: set_mem_def)
  have "guest_read (mach q) (a2 + of_nat off) n = Some v" if row: "(off, n, v) \<in> set (stat_layout st)" for off n v
  proof -
    have f: "off + n \<le> 128" "le_word (take n (drop off ?bs)) = v"
      using row stat_layout_bytes [of st] unfolding list_all_iff by auto
    have "load_bytes h (?a + of_nat off) n = Some (take n (drop off ?bs))"
      using load_in_stored [OF h(1)] f(1) len assms(3) by simp
    moreover have "g2h (guest_base (mach p)) (a2 + of_nat off) = ?a + of_nat off" by (simp add: g2h_def)
    ultimately show ?thesis using f(2) by (simp add: guest_read_def host_load_def q)
  qed
  moreover have "hbytes h x = hbytes (mem (mach p)) x" if "\<not> in_range ?a 128 x" for x
    using h(1) that by (simp add: store_bytes_Some len)
  ultimately show ?thesis using q h(3) by blast
qed
theorem fstat_fields_witness:
  "\<exists>q. do_syscall stat_os 80 3 0x2000 0 0 0 0 stat_proc = (Inr 0, q) \<and>
    guest_read (mach q) 0x2010 4 = Some 0x81a4 \<and> guest_read (mach q) 0x2030 8 = Some 132"
proof -
  let ?st = "demo_stat\<lparr>st_mode := 0x81a4, st_size := 132\<rparr>"
  have f: "os_fstat stat_os (world stat_proc) (ucast (3 :: u64)) = (0, ?st, ())"
    by (simp add: stat_os_def)
  obtain q where q: "do_syscall stat_os 80 3 0x2000 0 0 0 0 stat_proc = (Inr 0, q)"
    using f by (simp add: do_syscall_def target_memory_copy_def stat_proc_def store_bytes_def list_all_upt)
  have r: "\<forall>i<128. hread (mem (mach stat_proc)) (g2h (guest_base (mach stat_proc)) 0x2000 + of_nat i)"
    by (simp add: stat_proc_def)
  from fstat_fields [OF f q r] q show ?thesis by (simp add: stat_layout_def demo_stat_def)
qed

section \<open>Memory of the guest\<close>

text \<open>
  C30: The regions that a sequence of successful \<open>mmap\<close> calls without an address returns do not overlap and lie one
  behind the other from the next free address on, as long as the address space lasts.
\<close>

theorem mmap_disjoint:
  assumes "mmap_fixed_addr os" and "mmap_all os rs p = (as, p')" and "- 1 \<notin> set as"
    and "\<forall>(len, prot, flags, fd, off)\<in>set rs. flags AND MAP_FIXED = 0"
    and "mmap_next_start p \<ge> TASK_UNMAPPED_BASE"
    and "unat (mmap_next_start p) + sum_list (map (\<lambda>r. unat (fst r) + 4096) rs) < 2 ^ 64"
  shows "length as = length rs \<and>
    (\<forall>i j. i < j \<longrightarrow> j < length rs \<longrightarrow> unat (as ! i) + unat (fst (rs ! i)) \<le> unat (as ! j)) \<and>
    (\<forall>a\<in>set as. mmap_next_start p \<le> a)"
  using mmap_all_apart [OF assms] by (auto simp: sorted_wrt_iff_nth_less)

theorem mmap_disjoint_witness:
  "\<exists>a b p'. mmap_all demo_host [(0x1800, 3, 2, - 1, 0), (0x100, 3, 2, - 1, 0)] (demo_proc_at demo_mem TASK_UNMAPPED_BASE 0) =
      ([a, b], p') \<and> unat a + 0x1800 \<le> unat b"
proof -
  let ?rs = "[(0x1800, 3, 2, - 1, 0), (0x100, 3, 2, - 1, 0)] :: request list"
  have f: "(2 :: c_int) AND MAP_FIXED = 0" by (simp add: MAP_FIXED_def)
  obtain p' where m: "mmap_all demo_host ?rs (demo_proc_at demo_mem TASK_UNMAPPED_BASE 0) =
      ([0x4000000000, 0x4000002000], p')"
    by (simp add: demo_mmap_find f TASK_UNMAPPED_BASE_def HOST_PAGE_ALIGN_def HOST_PAGE_SIZE_def ROUND_UP_def
        ROUND_DOWN_def)
  have "mmap_fixed_addr demo_host" by (simp add: mmap_fixed_addr_def)
  from mmap_disjoint [OF this m] have "unat ([0x4000000000, 0x4000002000] ! 0 :: u64) + unat (fst (?rs ! 0)) \<le>
      unat ([0x4000000000, 0x4000002000] ! 1 :: u64)"
    by (simp add: f TASK_UNMAPPED_BASE_def)
  with m show ?thesis by simp
qed

end
