(* ===== verification/Guest_Test.thy ===== *)
theory Guest_Test
  imports Cpu_Mul File_Io
begin

text \<open>
  The guest program \<open>tests/test_hello.c\<close>: it counts primes, multiplies 32-bit words with the half-word products
  that \<open>cpu.c\<close> uses for 64-bit ones, tries two atomic operations and prints what it gets beside what it expects.
  It is compiled with \<open>-O0\<close> for RV64, so that \<open>int\<close> arithmetic wraps; \<open>Undefined\<close> is a remainder C leaves undefined.
\<close>

section \<open>Counting primes\<close>

definition int_rem :: "c_int \<Rightarrow> c_int \<Rightarrow> failure + c_int" where
  "int_rem a b = (case host_smod a b of Inl _ \<Rightarrow> Inl Undefined | Inr r \<Rightarrow> Inr r)"

function isPrime_loop :: "c_int \<Rightarrow> c_int \<Rightarrow> failure + c_int" where
  "isPrime_loop x i =
    (if i * i \<le>s x then
       (case int_rem x i of
          Inl e \<Rightarrow> Inl e
        | Inr r \<Rightarrow> if r = 0 then Inr 0 else isPrime_loop x (i + 1))
     else Inr 1)"
  by pat_completeness auto

text \<open>A counter that only grows meets zero, where the remainder is undefined.\<close>

termination
proof (relation "measure (\<lambda>(x, i). unat (- i))")
  fix x i r :: c_int
  assume "int_rem x i = Inr r"
  then have "i \<noteq> 0" by (auto simp: int_rem_def host_smod_def)
  then have "unat (- i - 1) < unat (- i)"
    by (metis diff_add_cancel measure_unat neg_equal_0_iff_equal)
  then show "((x, i + 1), (x, i)) \<in> measure (\<lambda>(x, i). unat (- i))" by simp
qed simp

declare isPrime_loop.simps [simp del]

definition isPrime :: "c_int \<Rightarrow> failure + c_int" where
  "isPrime x = isPrime_loop x 2"

lemma sint_suc:
  fixes i n :: c_int
  assumes "i <s n"
  shows "sint (i + 1) = sint i + 1"
proof -
  have "sint i < sint n" "sint n < 2 ^ 31" "- (2 ^ 31) \<le> sint i"
    using assms sint_lt [of n] sint_ge [of i] by (simp_all add: word_sless_alt)
  then show ?thesis by (simp add: sint_word_ariths signed_take_bit_int_eq_self)
qed

function countPrimes_loop :: "c_int \<Rightarrow> c_int \<Rightarrow> c_int \<Rightarrow> failure + c_int" where
  "countPrimes_loop n i ans =
    (if i <s n then
       (case isPrime i of
          Inl e \<Rightarrow> Inl e
        | Inr r \<Rightarrow> countPrimes_loop n (i + 1) (ans + r))
     else Inr ans)"
  by pat_completeness auto

termination
  by (relation "measure (\<lambda>(n, i, ans). nat (sint n - sint i))") (auto simp: sint_suc word_sless_alt)

declare countPrimes_loop.simps [simp del]

definition countPrimes :: "c_int \<Rightarrow> failure + c_int" where
  "countPrimes n = countPrimes_loop n 2 0"

section \<open>Double-width products of 32-bit words\<close>

definition wmulu32 :: "u32 \<Rightarrow> u32 \<Rightarrow> u32 \<times> u32" where
  "wmulu32 x y =
     (let x0 = ucast (ucast x :: u16); x1 = drop_bit 16 x;
          y0 = ucast (ucast y :: u16); y1 = drop_bit 16 y;
          p11 = x1 * y1; p01 = x0 * y1;
          p10 = x1 * y0; p00 = x0 * y0;
          c = drop_bit 16 (drop_bit 16 p00 + ucast (ucast p10 :: u16) + ucast (ucast p01 :: u16));
          lo = p00 + push_bit 16 p10 + push_bit 16 p01;
          hi = p11 + drop_bit 16 p10 + drop_bit 16 p01 + c
      in (hi, lo))"

definition wmul32 :: "u32 \<Rightarrow> u32 \<Rightarrow> u32 \<times> u32" where
  "wmul32 x y =
     (let (hi, lo) = wmulu32 x y;
          hi = (if x <s 0 then hi - y else hi);
          hi = (if y <s 0 then hi - x else hi)
      in (hi, lo))"

definition wmulsu32 :: "u32 \<Rightarrow> u32 \<Rightarrow> u32 \<times> u32" where
  "wmulsu32 x y =
     (let (hi, lo) = wmulu32 x y;
          hi = (if x <s 0 then hi - y else hi)
      in (hi, lo))"

section \<open>The output\<close>

text \<open>The calls of \<open>printf\<close> and \<open>puts\<close>, with the arguments the conversions of the format get.\<close>

datatype line = Printf string "u64 list" | Puts string

abbreviation newline :: string where "newline \<equiv> [CHR 0x0A]"

text \<open>One of the three products, beside the product of the compiler.\<close>

definition print_product :: "string \<Rightarrow> u32 \<times> u32 \<Rightarrow> u64 \<Rightarrow> line list" where
  "print_product name hi_lo expected =
    (let (hi, lo) = hi_lo
     in [Printf (name @ '': 0x%08x%08x'' @ newline) [ucast hi, ucast lo],
         Printf (''compare: 0x%016lx'' @ newline) [expected]])"

definition print_products :: "u32 \<Rightarrow> u32 \<Rightarrow> line list" where
  "print_products x y =
    Printf (''      x: 0x%08x'' @ newline @ ''      y: 0x%08x'' @ newline) [ucast x, ucast y] #
    print_product ''  wmulu'' (wmulu32 x y) (ucast x * ucast y) @
    print_product ''   wmul'' (wmul32 x y) (scast x * scast y) @
    print_product '' wmulsu'' (wmulsu32 x y) (scast x * ucast y) @
    [Puts '''']"

text \<open>The atomic operations work on the low half of a 64-bit variable through a pointer to \<open>int32_t\<close>.\<close>

definition store_low :: "u32 \<Rightarrow> u64 \<Rightarrow> u64" where
  "store_low v xx = (xx AND NOT (mask 32)) OR ucast v"

definition atomic_xchg32 :: "u64 \<Rightarrow> u64 \<Rightarrow> u64 \<times> u64" where
  "atomic_xchg32 xx i = (store_low (ucast i) xx, scast (ucast xx :: u32))"

definition atomic_add32 :: "u64 \<Rightarrow> u64 \<Rightarrow> u64 \<times> u64" where
  "atomic_add32 xx n = (store_low (ucast xx + ucast n) xx, scast (ucast xx :: u32))"

definition print_pair :: "u64 \<Rightarrow> u64 \<Rightarrow> line" where
  "print_pair xx yy = Printf (''      xx: 0x%016lx'' @ newline @ ''      yy: 0x%016lx'' @ newline) [xx, yy]"

definition print_atomic :: "string \<Rightarrow> (u64 \<Rightarrow> u64 \<Rightarrow> u64 \<times> u64) \<Rightarrow> u64 \<Rightarrow> u64 \<Rightarrow> line list" where
  "print_atomic title f xx yy =
    (let (xx', yy') = f xx yy in [print_pair xx yy, Puts title, print_pair xx' yy', Puts ''''])"

definition foo :: "failure + line list" where
  "foo =
    (case countPrimes 200000 of
       Inl e \<Rightarrow> Inl e
     | Inr n \<Rightarrow> Inr ([Printf (''hello, rvvk, 0x%d!'' @ newline) [scast n], Puts ''''] @
         print_products 0x8fff0000 0xffffff00 @ print_products 0x9fff1234 0xf78ef3ab @
         print_atomic ''atomic swap:'' atomic_xchg32 0xffffeeeeddddcccc 0x1111222283334444 @
         print_atomic ''atomic add:'' atomic_add32 0xffffeeeeddddcccc 0x1111222283334444 @ [Puts ''end'']))"

section \<open>Primes\<close>

definition prime_number :: "int \<Rightarrow> bool" where
  "prime_number p \<longleftrightarrow> 1 < p \<and> (\<forall>d\<in>{2..<p}. \<not> d dvd p)"

text \<open>Trial division up to the square root is enough.\<close>

lemma prime_number_sqrt:
  assumes "2 \<le> p"
  shows "prime_number p \<longleftrightarrow> \<not> (\<exists>d\<ge>2. d * d \<le> p \<and> d dvd p)"
proof
  assume p: "prime_number p"
  show "\<not> (\<exists>d\<ge>2. d * d \<le> p \<and> d dvd p)"
  proof
    assume "\<exists>d\<ge>2. d * d \<le> p \<and> d dvd p"
    then obtain d where d: "2 \<le> d" "d * d \<le> p" "d dvd p" by blast
    then have "2 * d \<le> d * d" by (intro mult_right_mono) auto
    with d have "d < p" by linarith
    with p d show False by (auto simp: prime_number_def)
  qed
next
  assume a: "\<not> (\<exists>d\<ge>2. d * d \<le> p \<and> d dvd p)"
  have "\<not> d dvd p" if d: "2 \<le> d" "d < p" for d
  proof
    assume "d dvd p"
    then obtain e where e: "p = d * e" by (elim dvdE)
    have "1 < e"
    proof (rule ccontr)
      assume "\<not> 1 < e"
      then have "d * e \<le> d * 1" using d by (intro mult_left_mono) auto
      with d e show False by simp
    qed
    show False
    proof (cases "d \<le> e")
      case True
      then have "d * d \<le> p" using d e by (simp add: mult_left_mono)
      with a d(1) \<open>d dvd p\<close> show False by blast
    next
      case False
      then have "e * e \<le> p" using \<open>1 < e\<close> e by (simp add: mult_right_mono)
      moreover have "2 \<le> e" "e dvd p" using \<open>1 < e\<close> e by simp_all
      ultimately show False using a by blast
    qed
  qed
  with assms show "prime_number p" by (auto simp: prime_number_def)
qed

lemma int_rem_pos:
  assumes "0 < sint b"
  shows "\<exists>r. int_rem a b = Inr r \<and> (r = 0 \<longleftrightarrow> sint b dvd sint a)"
proof -
  have b: "b \<noteq> 0" "sint b \<noteq> - 1" using assms by auto
  have "\<bar>sint a smod sint b\<bar> < sint b"
    using assms abs_mod_less [of "sint b" "\<bar>sint a\<bar>"] by (simp add: signed_modulo_int_def abs_mult)
  then have "sint (word_of_int (sint a smod sint b) :: c_int) = sint a smod sint b"
    using sint_lt [of b] by (simp add: signed_of_int signed_take_bit_int_eq_self)
  then have "word_of_int (sint a smod sint b) = (0 :: c_int) \<longleftrightarrow> sint a smod sint b = 0"
    by (metis of_int_0 sint_0)
  moreover have "sint a smod sint b = 0 \<longleftrightarrow> sint b dvd sint a"
    unfolding smod_int_alt_def by (auto simp: sgn_eq_0_iff dvd_eq_mod_eq_0 [symmetric])
  ultimately show ?thesis using b by (simp add: int_rem_def host_smod_def)
qed

lemma sint_square:
  fixes i :: c_int
  assumes "0 \<le> sint i" and "sint i \<le> 46340"
  shows "sint (i * i) = sint i * sint i"
proof -
  have "sint i * sint i \<le> 46340 * 46340" using assms by (intro mult_mono) auto
  also have "\<dots> < 2 ^ 31" by simp
  finally have "sint i * sint i < 2 ^ 31" .
  moreover have "- (2 ^ 31) \<le> sint i * sint i" by (rule order_trans [of _ 0]) simp_all
  ultimately have "signed_take_bit 31 (sint i * sint i) = sint i * sint i"
    by (rule signed_take_bit_int_eq_self [rotated])
  then show ?thesis by (simp add: sint_word_ariths)
qed

lemma isPrime_loop_exact:
  assumes "2 \<le> sint i" and "sint i \<le> 46340" and "sint x < 46340 * 46340"
  shows "isPrime_loop x i = Inr (if \<exists>d\<ge>sint i. d * d \<le> sint x \<and> d dvd sint x then 0 else 1)"
  using assms
proof (induction x i rule: isPrime_loop.induct)
  case (1 x i)
  have sq: "i * i \<le>s x \<longleftrightarrow> sint i * sint i \<le> sint x"
    unfolding word_sle_eq using sint_square [of i] 1(2,3) by auto
  have "0 < sint i" using 1(2) by linarith
  from int_rem_pos [OF this] obtain r where r: "int_rem x i = Inr r" "r = 0 \<longleftrightarrow> sint i dvd sint x"
    by blast
  note step = isPrime_loop.simps [of x i] and ih = 1(1) [OF _ r(1)]
  show ?case
  proof (cases "sint i * sint i \<le> sint x")
    case False
    have "\<not> d * d \<le> sint x" if "sint i \<le> d" for d
    proof -
      have "sint i * sint i \<le> d * d" by (rule mult_mono) (use that \<open>0 < sint i\<close> in linarith)+
      with False show ?thesis by linarith
    qed
    then have "\<not> (\<exists>d\<ge>sint i. d * d \<le> sint x \<and> d dvd sint x)" by blast
    with False sq show ?thesis by (simp only: step if_False)
  next
    case le: True
    show ?thesis
    proof (cases "r = 0")
      case True
      with le r(2) have "\<exists>d\<ge>sint i. d * d \<le> sint x \<and> d dvd sint x" by blast
      with True le sq r(1) show ?thesis by (simp only: step if_True sum.case simp_thms)
    next
      case False
      have "\<not> 46340 \<le> sint i"
      proof
        assume "46340 \<le> sint i"
        then have "46340 * 46340 \<le> sint i * sint i" by (intro mult_mono) auto
        with le 1(4) show False by linarith
      qed
      then have lt: "sint i < 46340" by linarith
      then have s: "sint (i + 1) = sint i + 1" by (intro sint_suc [of i 46340]) (simp add: word_sless_alt)
      from 1(2) lt have "2 \<le> sint (i + 1)" "sint (i + 1) \<le> 46340" unfolding s by linarith+
      moreover have "i * i \<le>s x" using le sq by blast
      ultimately have "isPrime_loop x (i + 1) =
          Inr (if \<exists>d\<ge>sint (i + 1). d * d \<le> sint x \<and> d dvd sint x then 0 else 1)"
        using ih False 1(4) by blast
      moreover have "(\<exists>d\<ge>sint (i + 1). d * d \<le> sint x \<and> d dvd sint x) \<longleftrightarrow>
          (\<exists>d\<ge>sint i. d * d \<le> sint x \<and> d dvd sint x)"
        unfolding s using False r(2) by (metis add1_zle_eq order_le_less zless_imp_add1_zle)
      ultimately show ?thesis using \<open>i * i \<le>s x\<close> r(1) False by (simp only: step if_True if_False sum.case)
    qed
  qed
qed

lemma isPrime_exact:
  assumes "2 \<le> sint x" and "sint x < 46340 * 46340"
  shows "isPrime x = Inr (if prime_number (sint x) then 1 else 0)"
proof -
  have "sint (2 :: c_int) = 2" by simp
  with isPrime_loop_exact [of 2 x] assms(2)
  have "isPrime_loop x 2 = Inr (if \<exists>d\<ge>2. d * d \<le> sint x \<and> d dvd sint x then 0 else 1)" by simp
  moreover have "(if \<not> P then 1 else 0) = (if P then 0 else 1 :: c_int)" for P by simp
  ultimately show ?thesis by (simp only: isPrime_def prime_number_sqrt [OF assms(1)])
qed

lemma isPrime_small: "sint x < 4 \<Longrightarrow> isPrime x = Inr 1"
  unfolding isPrime_def by (subst isPrime_loop.simps) (simp add: word_sle_eq)

text \<open>Above that, the square of the counter wraps, and the greatest \<open>int\<close>, a prime, is divided by itself.\<close>

lemma isPrime_loop_max:
  assumes "2 \<le> sint i"
  shows "isPrime_loop 0x7fffffff i = Inr 0"
  using assms
proof (induction "0x7fffffff :: c_int" i rule: isPrime_loop.induct)
  case (1 i)
  have "0 < sint i" using 1(2) by linarith
  from int_rem_pos [OF this] obtain r where r: "int_rem 0x7fffffff i = Inr r"
      "r = 0 \<longleftrightarrow> sint i dvd sint (0x7fffffff :: c_int)" by blast
  have le: "i * i \<le>s 0x7fffffff"
    using sint_lt [of "i * i"] by (simp add: word_sle_eq)
  show ?case
  proof (cases "i = 0x7fffffff")
    case True
    with r have "r = 0" by simp
    with r le show ?thesis by (simp add: isPrime_loop.simps [of _ i])
  next
    case False
    have "sint i \<noteq> 2147483647"
    proof
      assume "sint i = 2147483647"
      then have "word_of_int (sint i) = (0x7fffffff :: c_int)" by simp
      with False show False by simp
    qed
    with sint_lt [of i] have "i <s 0x7fffffff" by (simp add: word_sless_alt)
    then have "2 \<le> sint (i + 1)" using sint_suc 1(2) by simp
    with 1(1) [OF le r(1)] have "r \<noteq> 0 \<Longrightarrow> isPrime_loop 0x7fffffff (i + 1) = Inr 0" by blast
    with r le show ?thesis by (simp add: isPrime_loop.simps [of _ i])
  qed
qed

lemma isPrime_max: "isPrime 0x7fffffff = Inr 0"
  unfolding isPrime_def by (rule isPrime_loop_max) simp

section \<open>The count\<close>

definition primes_below :: "int \<Rightarrow> int set" where
  "primes_below n = {p \<in> {2..<n}. prime_number p}"

lemma primes_below_suc:
  assumes "2 \<le> n"
  shows "primes_below (n + 1) = (if prime_number n then insert n (primes_below n) else primes_below n)"
  using assms by (auto simp: primes_below_def less_le)

lemma primes_below_card:
  assumes "2 \<le> n"
  shows "card (primes_below (n + 1)) = card (primes_below n) + (if prime_number n then 1 else 0)"
proof -
  have "finite (primes_below n)" "n \<notin> primes_below n"
    unfolding primes_below_def by (rule finite_subset [of _ "{2..<n}"]) auto
  then show ?thesis by (simp add: primes_below_suc [OF assms])
qed

lemma countPrimes_loop_exact:
  assumes "2 \<le> sint i" and "sint i \<le> sint n" and "sint n \<le> 46340 * 46340"
  shows "countPrimes_loop n i (of_nat (card (primes_below (sint i)))) = Inr (of_nat (card (primes_below (sint n))))"
  using assms
proof (induction "nat (sint n - sint i)" arbitrary: i)
  case 0
  then have "sint i = sint n" by simp
  then show ?case by (simp add: countPrimes_loop.simps [of n i] word_sless_alt)
next
  case (Suc k)
  then have less: "i <s n" by (simp add: word_sless_alt)
  note s = sint_suc [OF less]
  have p: "isPrime i = Inr (if prime_number (sint i) then 1 else 0)"
    by (rule isPrime_exact) (use Suc.prems Suc.hyps(2) in linarith)+
  have c: "of_nat (card (primes_below (sint i))) + (if prime_number (sint i) then 1 else 0) =
      (of_nat (card (primes_below (sint (i + 1)))) :: c_int)"
    unfolding s using primes_below_card [OF Suc.prems(1)] by simp
  have "k = nat (sint n - sint (i + 1))" "2 \<le> sint (i + 1)" "sint (i + 1) \<le> sint n"
    unfolding s using Suc.hyps(2) Suc.prems by linarith+
  from Suc.hyps(1) [OF this Suc.prems(3)]
  show ?case unfolding countPrimes_loop.simps [of n i] p sum.case c using less by simp
qed

lemma countPrimes_exact:
  assumes "sint n \<le> 46340 * 46340"
  shows "countPrimes n = Inr (of_nat (card (primes_below (sint n))))"
proof (cases "2 \<le> sint n")
  case True
  have "primes_below 2 = {}" by (simp add: primes_below_def)
  with countPrimes_loop_exact [of 2 n] True assms show ?thesis by (simp add: countPrimes_def)
next
  case False
  then have "primes_below (sint n) = {}" by (auto simp: primes_below_def)
  with False show ?thesis by (simp add: countPrimes_def countPrimes_loop.simps [of n 2] word_sless_alt)
qed

section \<open>The products\<close>

lemma ucast_low_16: "ucast (ucast x :: u16) = take_bit 16 x" for x :: u32
  by (rule bit_word_eqI) (simp add: bit_unsigned_iff bit_take_bit_iff)

lemma wmulu32_schoolbook: "wmulu32 = schoolbook 16"
  by (intro ext) (simp add: wmulu32_def schoolbook_def ucast_low_16 Let_def)

text \<open>The two words of a number, put together.\<close>

definition joined :: "u32 \<times> u32 \<Rightarrow> u64" where
  "joined w = push_bit 32 (ucast (fst w)) OR ucast (snd w)"

lemma joined_of_int: "joined (word_of_int (k div 2 ^ 32), word_of_int k) = word_of_int k"
  unfolding joined_def drop_bit_eq_div [symmetric]
  by (rule bit_word_eqI) (auto simp: bit_simps)

lemma wmulu32_joined: "joined (wmulu32 x y) = ucast x * ucast y"
proof -
  have "wmulu32 x y = (word_of_int (uint x * uint y div 2 ^ 32), word_of_int (uint x * uint y))"
  proof (rule prod_eqI)
    have "fst (wmulu32 x y) = word_of_int (uint (fst (wmulu32 x y)))" by simp
    then show "fst (wmulu32 x y) = fst (word_of_int (uint x * uint y div 2 ^ 32), word_of_int (uint x * uint y))"
      using schoolbook_hi_lo(1) [of 16 x y] by (simp only: wmulu32_schoolbook fst_conv) simp
  qed (use schoolbook_hi_lo(2) [of 16 x y] in \<open>simp add: wmulu32_schoolbook\<close>)
  then show ?thesis by (simp only: joined_of_int ucast_eq scast_eq of_int_mult [symmetric])
qed

lemma wmul32_joined: "joined (wmul32 x y) = scast x * scast y"
proof -
  have "wmul32 x y = (word_of_int (sint x * sint y div 2 ^ 32), word_of_int (sint x * sint y))"
    using schoolbook_hi_lo(2) [of 16 x y] schoolbook_signed [of 16 x y]
    by (simp add: wmul32_def wmulu32_schoolbook split_beta Let_def split: if_splits)
  then show ?thesis by (simp only: joined_of_int ucast_eq scast_eq of_int_mult [symmetric])
qed

lemma wmulsu32_joined: "joined (wmulsu32 x y) = scast x * ucast y"
proof -
  have "wmulsu32 x y = (word_of_int (sint x * uint y div 2 ^ 32), word_of_int (sint x * uint y))"
    using schoolbook_hi_lo(2) [of 16 x y] schoolbook_signed_unsigned [of 16 x y]
    by (simp add: wmulsu32_def wmulu32_schoolbook split_beta Let_def split: if_splits)
  then show ?thesis by (simp only: joined_of_int ucast_eq scast_eq of_int_mult [symmetric])
qed

text \<open>Every pair of words that is followed by a single number is that number.\<close>

fun lines_agree :: "line list \<Rightarrow> bool" where
  "lines_agree (Printf f [h, l] # Printf g [v] # ls) \<longleftrightarrow> joined (ucast h, ucast l) = v \<and> lines_agree ls"
| "lines_agree (l # ls) \<longleftrightarrow> lines_agree ls"
| "lines_agree [] \<longleftrightarrow> True"

lemma lines_agree_products: "lines_agree (print_products x y @ ls) = lines_agree ls"
proof -
  have "ucast (ucast w :: u64) = w" for w :: u32 by (rule bit_word_eqI) (simp add: bit_simps)
  then show ?thesis
    using wmulu32_joined [of x y] wmul32_joined [of x y] wmulsu32_joined [of x y]
    by (simp add: print_products_def print_product_def split_beta Let_def)
qed

text \<open>The two atomic operations leave the high half of the variable and return the old low half, sign-extended.\<close>

lemma atomic_runs:
  "atomic_xchg32 0xffffeeeeddddcccc 0x1111222283334444 = (0xffffeeee83334444, 0xffffffffddddcccc)"
  "atomic_add32 0xffffeeeeddddcccc 0x1111222283334444 = (0xffffeeee61111110, 0xffffffffddddcccc)"
  by code_simp+

lemma lines_agree_atomic: "lines_agree (print_atomic t f x y @ ls) = lines_agree ls"
  by (simp add: print_atomic_def print_pair_def split_beta Let_def)

lemma print_atomic_result: "print_pair (fst (f x y)) (snd (f x y)) \<in> set (print_atomic t f x y)"
  by (simp add: print_atomic_def split_beta Let_def)

lemma foo_output:
  assumes "countPrimes 200000 = Inr n"
  shows "foo = Inr (Printf (''hello, rvvk, 0x%d!'' @ newline) [scast n] # Puts '''' #
    print_products 0x8fff0000 0xffffff00 @ print_products 0x9fff1234 0xf78ef3ab @
    print_atomic ''atomic swap:'' atomic_xchg32 0xffffeeeeddddcccc 0x1111222283334444 @
    print_atomic ''atomic add:'' atomic_add32 0xffffeeeeddddcccc 0x1111222283334444 @ [Puts ''end''])"
  using assms by (simp add: foo_def)

lemma primes_below_bound:
  assumes "0 \<le> n"
  shows "int (card (primes_below n)) \<le> n"
proof -
  have "card (primes_below n) \<le> card {2..<n}"
    by (rule card_mono) (auto simp: primes_below_def)
  with assms show ?thesis by simp
qed

lemma scast_count:
  assumes "n < 2 ^ 31"
  shows "scast (of_nat n :: c_int) = (of_nat n :: u64)"
proof -
  have "sint (of_nat n :: c_int) = int n"
    using assms by (simp add: signed_of_nat signed_take_bit_int_eq_self)
  then show ?thesis by (simp add: scast_eq)
qed

end
