(* ===== verification/Guest_Properties.thy ===== *)
theory Guest_Properties
  imports Guest_Test
begin

text \<open>
  The properties of the guest program \<open>tests/test_hello.c\<close>: its count, and the output it should give under the emulator.
\<close>

text \<open>
  C40: \<open>countPrimes\<close> returns the number of primes below its argument, for every argument up to the square of 46340,
  below which \<open>i * i\<close> does not overflow in \<open>isPrime\<close>.
\<close>

theorem count_primes:
  assumes "sint n \<le> 46340 * 46340"
  shows "countPrimes n = Inr (of_nat (card {p. p < sint n \<and> prime_number p}))"
proof -
  have "{p. p < sint n \<and> prime_number p} = primes_below (sint n)"
    by (auto simp: primes_below_def prime_number_def)
  with countPrimes_exact [OF assms] show ?thesis by simp
qed

theorem count_primes_witness: "countPrimes 10 = Inr 4"
proof -
  have "{p. p < sint (10 :: c_int) \<and> prime_number p} = {p \<in> {2, 3, 4, 5, 6, 7, 8, 9}. prime_number p}"
    by (auto simp: prime_number_def)
  also have "\<dots> = {2, 3, 5, 7}"
  proof -
    have "prime_number 2" "prime_number 3" "\<not> prime_number 4" "prime_number 5" "\<not> prime_number 6"
      "prime_number 7" "\<not> prime_number 8" "\<not> prime_number 9" by code_simp+
    then show ?thesis by auto
  qed
  finally show ?thesis using count_primes [of 10] by simp
qed

text \<open>
  The program prints the number of primes below 200000; every double-width product it prints is the one it compares it
  with; and the two atomic operations on the low half of a variable leave and return what they should.
\<close>

theorem guest_test_output:
  "\<exists>out. foo = Inr (Printf (''hello, rvvk, 0x%d!'' @ newline)
      [of_nat (card {p. p < 200000 \<and> prime_number p})] # out) \<and>
    lines_agree out \<and>
    print_pair 0xffffeeee83334444 0xffffffffddddcccc \<in> set out \<and>
    print_pair 0xffffeeee61111110 0xffffffffddddcccc \<in> set out"
proof -
  let ?c = "card (primes_below 200000)"
  have e: "{p. p < 200000 \<and> prime_number p} = primes_below 200000"
    by (auto simp: primes_below_def prime_number_def)
  have c: "countPrimes 200000 = Inr (of_nat ?c)"
    using countPrimes_exact [of 200000] by simp
  have s: "scast (of_nat ?c :: c_int) = (of_nat ?c :: u64)"
    using primes_below_bound [of 200000] by (intro scast_count) simp
  note out = foo_output [OF c, unfolded s, folded e]
  note r = print_atomic_result [of atomic_xchg32 "0xffffeeeeddddcccc" "0x1111222283334444" "''atomic swap:''"]
    print_atomic_result [of atomic_add32 "0xffffeeeeddddcccc" "0x1111222283334444" "''atomic add:''"]
  show ?thesis
    unfolding out
    by (intro exI conjI, rule refl)
      (use r [unfolded atomic_runs fst_conv snd_conv] in
        \<open>simp_all only: lines_agree.simps lines_agree_products lines_agree_atomic list.set set_append Un_iff
          insert_iff simp_thms\<close>)
qed

end
