(* ===== verification/Spec2Isabelle.thy ===== *)
theory Spec2Isabelle
  imports Handler_Properties Isa_Properties Loader_Properties Run_Properties Guest_Properties
begin

text \<open>
  A model of rvvk, a user-mode emulator for statically linked RISC-V programs (RV64IMAC without floating
  point), with the theorems that relate it to the instruction set it emulates.

  \<^bold>\<open>The program.\<close>  \<open>main.c\<close> parses options, has \<open>elfload.c\<close> map the guest program and calls \<open>cpu_loop\<close> of
  \<open>arch/riscv/cpu.c\<close>.  \<open>cpu_loop\<close> alternates between \<open>cpu_exec\<close>, which runs the guest until an exception is
  pending, and \<open>do_syscall\<close> of \<open>syscall.c\<close>, which serves an \<open>ecall\<close>.  \<open>cpu_exec\<close> works on blocks: straight-line
  guest code up to a jump, an \<open>ecall\<close> or 512 instructions, translated once by \<open>arch/riscv/translate.c\<close> into an
  array of \<open>insn_t\<close> (operands and a function pointer) and kept in a hash table; a block whose successor is
  known is linked to it, so that \<open>block_exec\<close> goes from block to block without the table.

  \<^bold>\<open>The theories.\<close>
    \<^item> \<open>Prelude\<close>: the collections of simplification rules, the widths of the C types, the results (\<open>stop + 'a\<close>,
      where \<open>stop\<close> names how the process ends) and little-endian bytes.
    \<^item> \<open>Bitops\<close>: \<open>extract32\<close>, \<open>sextract32\<close>, \<open>deposit32\<close> and the rounding macros of \<open>include/rvvk.h\<close>.
    \<^item> \<open>Guest_Memory\<close>: the host's bytes with their read and write permissions, the window \<open>g2h\<close>, the sized
      accesses of \<open>mmap.c\<close> and the atomic macros; the locale \<open>byte_memory\<close> states what a byte store promises.
    \<^item> \<open>Cpu_State\<close>: \<open>state_t\<close>, the exception numbers and \<open>insn_t\<close>; the function pointer \<open>insn.handler\<close> is the
      datatype \<open>handler\<close> with one constructor per \<open>do_\<close> function.
    \<^item> \<open>Cpu_Int\<close>, \<open>Cpu_Mul\<close>, \<open>Cpu_Csr\<close>, \<open>Cpu_Atomic\<close>: one definition per \<open>do_\<close> function of \<open>cpu.c\<close>; the locale
      \<open>csr_bank\<close> is the contract of the CSR bank.  \<open>Cpu_Run\<close>: the call through the pointer, and what a handler
      can change.
    \<^item> \<open>Isa_Spec\<close>: the values and effects the RISC-V specification gives, over the integers, and that the
      handlers have them; \<open>Handler_Properties\<close>: the resulting properties.
    \<^item> \<open>Decode16\<close>, \<open>Decode32\<close>: the decoder, one definition per function of \<open>translate.c\<close>; \<open>Decode_Props\<close>: what
      every decoded instruction satisfies; \<open>Encode\<close>: encoders for every format; \<open>Decoder_Properties\<close>: the properties.
    \<^item> \<open>Translate\<close>, \<open>Translate_Props\<close>: the translation loop and the blocks it makes.
    \<^item> \<open>Block_Cache\<close>: the hash table, with the locale \<open>block_table\<close> as its contract.
    \<^item> \<open>Cpu_Exec\<close>: \<open>block_exec\<close> and \<open>cpu_exec\<close>; \<open>Exec_Refine\<close>: they do what running blocks straight from memory
      does, and when the buffer of instructions is large enough; \<open>Isa_Step\<close>: and that is what fetching one
      instruction at a time does.
    \<^item> \<open>Schoolbook\<close>: products from half-words at any width, behind \<open>wmulu\<close>, \<open>wmul\<close> and \<open>wmulsu\<close> of \<open>Cpu_Mul\<close> and of the
      test program.  \<open>Guest_Test\<close>: the guest program \<open>tests/test_hello.c\<close> as a C program; \<open>Guest_Properties\<close>: its count and output.
    \<^item> \<open>Mmap\<close>, \<open>Syscall\<close>: \<open>mmap.c\<close> and \<open>syscall.c\<close> over the system calls of the host; \<open>Cpu_Loop\<close>: \<open>cpu_loop\<close>.
    \<^item> \<open>Rvc_Spec\<close>, \<open>Rv32_Spec\<close>: the compressed and the 32-bit instructions as the opcode tables of the manual, with the
      reserved opcodes, and that the decoder follows them up to the listed cases.
    \<^item> \<open>Rv64_Arch\<close>: a reference machine for RV64IMAC with Zicsr in user mode that uses nothing of the program but the type of its
      state: instructions as a datatype, \<open>rv_decode\<close> by the tables, \<open>rv_exec\<close> by the semantics of the manual with the
      reservation of the hart, and \<open>departs\<close>, the list of the cases in which the program does something else.  \<open>Rv64_Insns\<close>: each kind of decoded instruction has
      the effect of its reference; \<open>Rv64_Step\<close>: so has every opcode; \<open>Rv64_Departs\<close>: and in the listed cases it
      never has; \<open>Rv64_Run\<close>: whole runs, with the system calls of the program between them.  \<open>Isa_Properties\<close>: the
      properties of the decoder and of single instructions.
    \<^item> \<open>File_Io\<close>: \<open>readn\<close> and \<open>pread\<close> of \<open>util.c\<close> and the errors of the loader.  \<open>Elf_Format\<close>: the headers of
      \<open>include/elf.h\<close> and their checks.  \<open>Elf_Stack\<close>: \<open>create_elf_tables\<close> and the layout it leaves; \<open>Stack_Room\<close>: when
      it succeeds.  \<open>Elf_Loader\<close>: the rest of \<open>elfload.c\<close>; \<open>Elf_Props\<close>: the bounds of the image and the contents
      of a segment; \<open>Loader_Props\<close>: what a successful \<open>elf_load\<close> has done; \<open>Pie_Load\<close>: why
      a position-independent file is never loaded.
    \<^item> \<open>Options\<close>: the command line, with \<open>strtoul\<close>; \<open>Real_Path\<close>: \<open>get_real_path\<close> and paths as lists of names;
      \<open>Main_Program\<close>: \<open>main\<close>.
    \<^item> \<open>Machine_Steps\<close>: the emulated process as a step relation, its invariant, the blocks it never leaves and
      sequences of allocations.
    \<^item> \<open>Demo_Host\<close>: a host with one small program as its only file, followed from the command line to the exit
      status.  \<open>Loader_Properties\<close>, \<open>Run_Properties\<close>: the properties of the loader and of the running process.
    \<^item> \<open>Demo_Program\<close>: a small guest program on which the properties are instantiated.

  \<^bold>\<open>State.\<close>  A \<open>machine\<close> is the CPU state, the memory and \<open>guest_base\<close>; a \<open>proc\<close> adds the static variables of
  \<open>mmap.c\<close> and \<open>syscall.c\<close> and the outside world, a type parameter.  The system calls of the host are the
  fields of the record \<open>os\<close>, a parameter of every definition that uses them.  The \<open>code_cache\<close> holds the
  buffer of instructions, its fill pointer, all blocks and the hash table; a pointer to a block is its index.
  C integers keep their width; a wild access, a trapping division and a failed assertion are values of \<open>stop\<close>.

  \<^bold>\<open>Termination.\<close>  The translation loop ends at \<open>TRANS_MAX\<close> and is total.  The chains of the hash table, the
  links between blocks and the two outer loops may run for ever, so they are partial functions; the
  theorems about them say that they return.  The fuel in \<open>ref_exec\<close>, \<open>clean_exec\<close>, \<open>isa_exec\<close>, \<open>rv_run\<close>, \<open>ref_loop\<close> and
  \<open>rv_loop\<close> counts the blocks, instructions or system calls of a run; a run that needs more has no result there,
  and the theorems hold for every amount of fuel.  The buffer of \<open>INSN_BUFFER_SIZE\<close> bytes holds 65536 blocks of full
  length, so that it is never exhausted by a program with at most so many starts of blocks, however long it runs.

  \<^bold>\<open>What is proved of the whole.\<close>  \<open>step_follows_isa\<close>: an instruction has exactly the outcome of the manual when and only
  when it is not one of the departures.  \<open>emulates_riscv\<close>: hence a program whose run meets none of them, and no block cut at
  512 instructions, runs in the emulator as on the reference machine, up to its exit.  The reference machine raises the
  misaligned exceptions for atomic instructions, lets a store-conditional succeed only on the bytes its last load-reserved
  has read, and has no control register, since those that the program keeps belong to extensions it does not
  have; what the program does instead is among the departures, and \<open>csr_swap_exact\<close> states it for the CSR instructions.  \<open>rv_loop\<close> speaks of
  runs that reach the next exception; a run that ends in an access fault has no result there, because the program
  translates the rest of the block before it runs the faulting instruction.  From the other end,
  \<open>main_emulates_riscv\<close> and the properties of the loader say in which state \<open>cpu_loop\<close> is entered, and \<open>main_bad_file\<close> when it is not.

  \<^bold>\<open>Errors before the loop.\<close>  A \<open>failure\<close> is the end of the process (\<open>Fault\<close>), a reported error (\<open>Fail\<close>) or what C
  leaves undefined (\<open>Undefined\<close>: an access past the end of a local array, a null string).  \<open>readn\<close> repeats an
  interrupted read without a bound and is a partial function.

  \<^bold>\<open>Not modelled.\<close>  The log output, the usage text and the messages on \<open>stderr\<close>; a guest that writes
  the code it has already run (\<open>fence.i\<close> does nothing in the program); a guest that writes into the emulator's own
  memory, which \<open>g2h\<close> does not keep it from; several threads; a failure of the unchecked \<open>malloc\<close> of \<open>new_block\<close>; a \<open>count\<close> of blocks
  and a string beyond the range of an \<open>int\<close>; the numbers of system calls that \<open>do_syscall\<close> does not serve
  (\<open>syscall64_nr.h\<close> is generated) and the constants of \<open>elf.h\<close> that no code uses; the branches for 32-bit targets.  A fetch reads four bytes even for a 16-bit instruction, as the code does.
\<close>

section \<open>Running a program\<close>

text \<open>
  C1: The emulator runs RISC-V programs.  Take the reference machine of \<open>Rv64_Arch\<close>, which fetches and executes one
  instruction at a time by the tables and the semantics of the manual, with the program's system calls; if its run
  ends after visiting only states where the program does not depart from the manual and blocks of less than \<open>TRANS_MAX\<close>
  instructions, then \<open>cpu_loop\<close> with its decoder, translated blocks, hash table and links ends with the same
  exit and the same effects on the world; only a program that executes instructions at more than 65536 addresses
  may exhaust the buffer of translated instructions instead.
\<close>

theorem emulates_riscv:
  assumes "alloc_insn_buffer os p = (True, p')" and "length (gpr (env (mach p'))) = 32" and "gpr (env (mach p')) ! 0 = 0"
    and "rv_loop os n (loop_start p') = Some r"
  shows "\<exists>r'. cpu_loop os p = Some r' \<and>
    (r' = r \<or> fst r' = Segv Insn_buffer \<and> 65536 < card (set (loop_pcs os n (loop_start p'))))"
  using assms cpu_loop_rv [of os p p' n r] by (simp add: cpu_ok_def)

theorem emulates_riscv_witness:
  "cpu_loop demo_os (demo_proc\<lparr>mach := sum_prog\<rparr>) = Some (Exited 3, ())"
proof -
  let ?p = "demo_proc\<lparr>mach := sum_prog\<rparr>"
  have alloc: "alloc_insn_buffer demo_os ?p = (True, ?p)"
    by (simp add: alloc_insn_buffer_def host_mmap_def demo_os_def demo_proc_def set_mem_def
        INSN_BUFFER_MAP_START_def MAP_FAILED_def)
  obtain m where m: "rv_run 12 None sum_prog = Some (Inr m)" "env_exception (env m) = U_ECALL"
      "gpr (env m) ! 17 = 93" "gpr (env m) ! 10 = 3"
    using sum_runs by blast
  have same: "loop_start ?p = ?p"
    by (simp add: loop_start_def set_env_def demo_proc_def sum_prog_def prog_def)
  have regs: "length (gpr (env (mach ?p))) = 32" "gpr (env (mach ?p)) ! 0 = 0"
    by (simp_all add: sum_prog_def prog_def zero_env_def)
  have "handle_exception demo_os (?p\<lparr>mach := m\<rparr>) = (Inl (Exited 3), ?p\<lparr>mach := m\<rparr>)"
    using m by (simp add: handle_exception_def do_syscall_def Let_def)
  then have r: "rv_loop demo_os (Suc 12) ?p = Some (Exited 3, ())"
    using m sum_covered unfolding rv_loop.simps by (simp add: demo_proc_def)
  have "card (set (loop_pcs demo_os (Suc 12) ?p)) \<le> 65536"
    using card_length [of "loop_pcs demo_os (Suc 12) ?p"] loop_pcs_length [of demo_os "Suc 12" ?p] by simp
  with emulates_riscv [OF alloc regs, of "Suc 12"] same r show ?thesis
    by (auto simp del: rv_loop.simps loop_pcs.simps)
qed

text \<open>
  C2: From the command line to the exit: when the options are well-formed, the resolved path fits into its array, which
  holds no slash and ends in a zero before it is used, and the file is opened and loaded, the
  reference machine started at the entry point, with the stack pointer at the finished initial stack and zero in every
  other register, decides how \<open>main\<close> ends: with the same exit and the same effects on the world, as long as its run
  meets no departure and no cut block; only a run at more than 65536 addresses may exhaust the buffer instead.
\<close>

theorem main_emulates_riscv:
  assumes "pgm = [] \<or> hd pgm \<noteq> 0x2d" and "0 \<notin> set pgm" and "0x2f \<notin> set buf" and "last buf = 0"
    and "\<forall>c\<in>set cwd. plain_name c" and "cwd \<noteq> []"
    and "os_getcwd os w (of_nat PATH_MAX) = (Some (path_text cwd), w')"
    and "length (path_text cwd) + length pgm + 1 < length buf"
    and "absolute \<longleftrightarrow> pgm \<noteq> [] \<and> hd pgm = 0x2f"
    and "path = shown (fold enter (pieces pgm) (if absolute then [] else cwd))"
    and "os_open_read os (if absolute then w else w') path = (fd, w2)"
    and "st = fold apply_choice cs default_settings"
    and "\<not> fd <s 0" and "stack_use path (pgm # args) envs \<le> 2 ^ 64"
    and load: "elf_load os (guest_stack_size st) fd path (pgm # args) envs
      ((initial_proc h w2)\<lparr>mach := (mach (initial_proc h w2))\<lparr>guest_base := opt_guest_base st\<rparr>\<rparr>) = Some (Inr (info, regs), p)"
    and alloc: "alloc_insn_buffer os (set_env (fst (target_cpu_copy_regs (env (mach p)) zero_task info regs))
      (target_set_brk (info_brk info) p)) = (True, q)"
    and run: "rv_loop os n (loop_start q) = Some (s, w3)"
  shows "env (mach (loop_start q)) = zero_env\<lparr>env_pc := regs_sepc regs, gpr := (replicate 32 0)[2 := regs_sp regs],
      env_exception := EXCP_NONE\<rparr> \<and>
    starts_with p (regs_sp regs) path (pgm # args) envs \<and>
    (\<exists>f w4. run_main os (map Some (concat (map choice_words cs)) @ Some pgm # map Some args @ None # map Some envs @ [None])
        buf h w = Some (f, w4) \<and>
      ((f, w4) = (Fault s, w3) \<or> f = Fault (Segv Insn_buffer) \<and> 65536 < card (set (loop_pcs os n (loop_start q)))))"
proof -
  let ?p = "set_env (fst (target_cpu_copy_regs (env (mach p)) zero_task info regs)) (target_set_brk (info_brk info) p)"
  from elf_load_Inr [OF load _ assms(14)] have l: "env (mach p) = zero_env" "starts_with p (regs_sp regs) path (pgm # args) envs"
    by (auto simp: same_cpu_def initial_proc_def)
  have "env (mach q) = env (mach ?p)"
    using alloc by (auto simp: alloc_insn_buffer_def Let_def split: prod.splits dest: host_mmap_frame)
  then have e: "env (mach q) = zero_env\<lparr>env_pc := regs_sepc regs, gpr := (replicate 32 0)[2 := regs_sp regs]\<rparr>"
    by (simp add: set_env_def target_cpu_copy_regs_def l(1) zero_env_def)
  then have "cpu_ok (mach q)" by (simp add: cpu_ok_def)
  from cpu_loop_rv [OF alloc this run] obtain r' where r': "cpu_loop os ?p = Some r'"
    "r' = (s, w3) \<or> fst r' = Segv Insn_buffer \<and> 65536 < card (set (loop_pcs os n (loop_start q)))"
    by blast
  then have "run_main os (map Some (concat (map choice_words cs)) @ Some pgm # map Some args @ None # map Some envs @ [None])
      buf h w = Some (Fault (fst r'), snd r')"
    unfolding run_main_choices [OF assms(1-12)] using assms(13) by (simp add: load split_def)
  with r'(2) e l(2) show ?thesis by (auto simp: loop_start_def set_env_def)
qed

theorem main_emulates_riscv_witness:
  "run_main demo_host demo_opts (replicate 64 0) demo_mem 0 = Some (Fault (Exited 42), 0)"
proof -
  obtain info regs p where l: "elf_load demo_host (8 * 2 ^ 20) 4 (bytes ''/p'') demo_args demo_envs
      (demo_proc_at demo_mem TASK_UNMAPPED_BASE 0) = Some (Inr (info, regs), p)" "regs_sepc regs = 0x10078"
      "pushed (demo_proc_at demo_mem4 0x4000801000 0) p"
    by (rule demo_load)
  note s = demo_started [OF l(3,2) refl, of info]
  obtain q where q: "alloc_insn_buffer demo_host (set_env (fst (target_cpu_copy_regs (env (mach p)) zero_task info regs))
      (target_set_brk (info_brk info) p)) = (True, q)" "code_there (mem (mach q))"
      "world q = 0" "guest_base (mach q) = demo_gb" "env_pc (env (mach q)) = 0x10078" "length (gpr (env (mach q))) = 32"
    by (rule demo_alloc [OF s(1)]) (use s in simp)
  have run: "rv_loop demo_host 5 (loop_start q) = Some (Exited 42, 0)"
    using demo_rv_loop [of "loop_start q" demo_host] q(2-6) by (simp add: loop_start_def set_env_def)
  have room: "\<not> 65536 < card (set (loop_pcs demo_host 5 (loop_start q)))"
    using card_length [of "loop_pcs demo_host 5 (loop_start q)"] loop_pcs_length [of demo_host 5 "loop_start q"] by simp
  have use: "stack_use (bytes ''/p'') (bytes ''/p'' # [bytes ''x'']) demo_envs \<le> 2 ^ 64"
    by (simp add: stack_use_def demo_envs_def bytes_def)
  have fd: "\<not> (4 :: c_int) <s 0" by (simp add: word_sless_alt)
  from main_emulates_riscv [OF demo_command fd use _ q(1) run, of demo_mem] l(1) room
  show ?thesis unfolding demo_initial by simp
qed

text \<open>
  C4: The emulator with its code cache and its linked blocks computes what the loop without a cache
  computes: whenever the uncached run of a guest whose code is never written ends, \<open>cpu_loop\<close> ends too,
  with the same way of stopping and the same effects on the world.  The buffer of translated instructions is only
  exhausted when more than 65536 blocks with different starts are run.
\<close>

theorem cpu_loop_refines:
  assumes "alloc_insn_buffer os p = (True, p')"
    and "ref_loop os n (loop_start p') = Some r"
  shows "\<exists>r'. cpu_loop os p = Some r' \<and>
    (r' = r \<or> fst r' = Segv Insn_buffer \<and>
       65536 < card (set (loop_starts os n (loop_start p'))))"
proof -
  let ?V = "set (loop_starts os n (loop_start p'))"
  from run_loop_fits [OF empty_cache_inv assms(2), of ?V] show ?thesis
    using assms(1) roomy_empty [of ?V] by (auto simp: cpu_loop_def loop_start_def not_le [symmetric])
qed

theorem cpu_loop_refines_witness:
  "cpu_loop demo_os demo_proc = Some (Exited 42, ())"
proof -
  have alloc: "alloc_insn_buffer demo_os demo_proc = (True, demo_proc)"
    by (simp add: alloc_insn_buffer_def host_mmap_def demo_os_def demo_proc_def set_mem_def
        INSN_BUFFER_MAP_START_def MAP_FAILED_def)
  obtain m where m: "ref_exec 3 prog = Some (Inr m)" "env_exception (env m) = U_ECALL"
      "gpr (env m) ! 17 = 93" "gpr (env m) ! 10 = 42"
    using prog_runs clean_exec_ref by blast
  have p: "demo_proc\<lparr>mach := x\<rparr> = \<lparr>mach = x, world = (), mmap_next_start = TASK_UNMAPPED_BASE,
      target_brk = 0, initial_target_brk = 0\<rparr>" "mach demo_proc = prog" for x
    by (simp_all add: demo_proc_def)
  have h: "handle_exception demo_os (demo_proc\<lparr>mach := m\<rparr>) = (Inl (Exited 42), demo_proc\<lparr>mach := m\<rparr>)"
    using m by (simp add: handle_exception_def do_syscall_def Let_def)
  have same: "loop_start demo_proc = demo_proc"
    by (simp add: loop_start_def set_env_def demo_proc_def prog_def)
  have r: "ref_loop demo_os (Suc 3) demo_proc = Some (Exited 42, ())"
    using m(1) h unfolding ref_loop.simps by (simp add: p)
  have "card (set (loop_starts demo_os (Suc 3) demo_proc)) \<le> 65536"
    using card_length [of "loop_starts demo_os (Suc 3) demo_proc"] loop_starts_length [of demo_os "Suc 3" demo_proc] by simp
  with cpu_loop_refines [OF alloc, of "Suc 3"] same r show ?thesis
    by (auto simp del: ref_loop.simps loop_starts.simps)
qed

text \<open>
  C5: From any cache that satisfies its invariant, \<open>cpu_exec\<close> returns the machine that fetching, decoding and
  running one instruction at a time leads to, for a run whose blocks end with a jump, an \<open>ecall\<close> or an
  illegal instruction within \<open>TRANS_MAX\<close> instructions and meet no unknown CSR; and the cache it returns
  satisfies the invariant again.  Only when the buffer has not 16384 bytes left for each start of a block of the run
  that is not in the cache may it stop with the fault of an exhausted buffer.
\<close>

theorem cpu_exec_is_isa:
  assumes "cache_inv m cc" and "clean_exec n m = Some r"
  shows "\<exists>k. isa_exec k m = Some r \<and>
    (cpu_exec None cc m = Some (Inl (Segv Insn_buffer)) \<and>
       2 ^ 30 < insn_buffer_ptr cc + 16384 * card (set (ref_starts n m) - blk_pc ` set (trans_blocks cc)) \<or>
     (case r of Inl e \<Rightarrow> cpu_exec None cc m = Some (Inl e)
      | Inr m' \<Rightarrow> \<exists>cc'. cpu_exec None cc m = Some (Inr (m', cc')) \<and> cache_inv m' cc'))"
proof -
  have "prev_ok cc pc None" for pc by (simp add: prev_ok_def)
  then obtain r' where r': "cpu_exec None cc m = Some r'" "agrees r r'"
    "roomy (set (ref_starts n m)) cc \<longrightarrow> fits (set (ref_starts n m)) r r'"
    using cpu_exec_fits [OF assms(1) _ clean_exec_ref [OF assms(2)], of None "set (ref_starts n m)"] by blast
  have "roomy (set (ref_starts n m)) cc \<longleftrightarrow>
      \<not> 2 ^ 30 < insn_buffer_ptr cc + 16384 * card (set (ref_starts n m) - blk_pc ` set (trans_blocks cc))"
    by (simp add: roomy_def TRANS_MAX_def SIZEOF_INSN_def INSN_BUFFER_SIZE_def not_less)
  moreover have "r' = Inl (Segv Insn_buffer) \<and> \<not> roomy (set (ref_starts n m)) cc \<or>
     (case r of Inl e \<Rightarrow> r' = Inl e | Inr m' \<Rightarrow> \<exists>cc'. r' = Inr (m', cc') \<and> cache_inv m' cc')"
    using r'(2,3) by (cases r') (auto simp: agrees_def fits_def)
  moreover obtain k where "isa_exec k m = Some r" using clean_exec_isa [OF assms(2)] by blast
  ultimately show ?thesis using r'(1) by (cases r) auto
qed

theorem cpu_exec_is_isa_witness:
  "\<exists>k m cc. isa_exec k prog = Some (Inr m) \<and> gpr (env m) ! 10 = 42 \<and> cpu_exec None empty_cache prog = Some (Inr (m, cc))"
proof -
  obtain m where m: "clean_exec 3 prog = Some (Inr m)" "gpr (env m) ! 10 = 42"
    using prog_runs by blast
  have "card (set (ref_starts 3 prog)) \<le> 3"
    using card_length [of "ref_starts 3 prog"] ref_starts_length [of 3 prog] by simp
  then have "\<not> 2 ^ 30 < insn_buffer_ptr empty_cache + 16384 * card (set (ref_starts 3 prog) - blk_pc ` set (trans_blocks empty_cache))"
    by (simp add: empty_cache_def)
  with cpu_exec_is_isa [OF empty_cache_inv m(1)] m(2) show ?thesis by fastforce
qed

text \<open>
  C6: What is in the cache does not matter: with any two caches that satisfy the invariant and whose buffers have 16384
  bytes left for each start of a block of the run that they do not hold, and with any block remembered from before that
  may be linked, \<open>cpu_exec\<close> returns and ends the same way, with the same machine.
\<close>

theorem cache_transparent:
  assumes "cache_inv m cc1" and "cache_inv m cc2" and "prev_ok cc1 (env_pc (env m)) prev"
    and "ref_exec n m = Some r"
    and "insn_buffer_ptr cc1 + 16384 * card (set (ref_starts n m) - blk_pc ` set (trans_blocks cc1)) \<le> 2 ^ 30"
    and "insn_buffer_ptr cc2 + 16384 * card (set (ref_starts n m) - blk_pc ` set (trans_blocks cc2)) \<le> 2 ^ 30"
  shows "\<exists>r1 r2. cpu_exec prev cc1 m = Some r1 \<and> cpu_exec None cc2 m = Some r2 \<and> map_sum id fst r1 = map_sum id fst r2"
proof -
  let ?V = "set (ref_starts n m)"
  have room: "roomy ?V cc1" "roomy ?V cc2"
    using assms(5,6) by (simp_all add: roomy_def TRANS_MAX_def SIZEOF_INSN_def INSN_BUFFER_SIZE_def)
  have "prev_ok cc2 pc None" for pc by (simp add: prev_ok_def)
  then obtain r1 r2 where "cpu_exec prev cc1 m = Some r1" "agrees r r1" "fits ?V r r1"
    "cpu_exec None cc2 m = Some r2" "agrees r r2" "fits ?V r r2"
    using cpu_exec_fits [OF assms(1) _ assms(4), of prev ?V] cpu_exec_fits [OF assms(2) _ assms(4), of None ?V]
      assms(3) room by blast
  then show ?thesis by (auto simp: agrees_def fits_def split: sum.splits)
qed

theorem cache_transparent_witness:
  "\<exists>cc r1 r2. trans_blocks cc \<noteq> [] \<and> cpu_exec None cc prog = Some r1 \<and> cpu_exec None empty_cache prog = Some r2 \<and>
    map_sum id fst r1 = map_sum id fst r2"
proof -
  obtain m where m: "ref_exec 3 prog = Some (Inr m)" using prog_runs clean_exec_ref by blast
  have pc: "env_pc (env prog) = 0x1000" by (simp add: prog_def)
  obtain cc b where b: "cache_inv prog cc" "b < length (trans_blocks cc)" "grows 0x1000 empty_cache cc"
    using lookup_block_spec [OF empty_cache_inv, of prog, unfolded pc, OF prog_block]
    by (auto simp: empty_cache_def INSN_BUFFER_SIZE_def SIZEOF_INSN_def)
  then have cc: "trans_blocks cc \<noteq> []" "insn_buffer_ptr cc \<le> 16384"
    by (auto simp: grows_def empty_cache_def TRANS_MAX_def SIZEOF_INSN_def)
  have few: "card (set (ref_starts 3 prog) - W) \<le> 3" for W
    using card_length [of "ref_starts 3 prog"] ref_starts_length [of 3 prog]
      card_mono [OF finite_set Diff_subset, of "ref_starts 3 prog" W] by simp
  have room: "insn_buffer_ptr cc + 16384 * card (set (ref_starts 3 prog) - blk_pc ` set (trans_blocks cc)) \<le> 2 ^ 30"
    "insn_buffer_ptr empty_cache + 16384 * card (set (ref_starts 3 prog) - blk_pc ` set (trans_blocks empty_cache)) \<le> 2 ^ 30"
    using few [of "blk_pc ` set (trans_blocks cc)"] few [of "blk_pc ` set (trans_blocks empty_cache)"] cc(2)
    by (simp_all add: empty_cache_def)
  from cache_transparent [OF b(1) empty_cache_inv _ m room, of None] cc(1) show ?thesis
    by (auto simp: prev_ok_def)
qed

end
